(* ===== verification/Para_Prelude.thy ===== *)
theory Para_Prelude
  imports Main "HOL-Library.Word"
begin

text \<open>
  Shared vocabulary of the development.

  \<^item> Widths of machine integers: \<open>u8\<close>, \<open>u16\<close>, \<open>u32\<close>, \<open>u64\<close> are words.
  \<^item> The three ways a Rust call can end: a value, a returned error, a panic
    (\<open>todo!\<close>, \<open>unwrap\<close> on \<open>None\<close>, slicing out of range, checked overflow).
    \<open>and_then\<close> is the \<open>?\<close> operator: it passes errors and panics on.
  \<^item> \<open>u32\<close> and \<open>usize\<close> arithmetic on natural numbers, with what happens on overflow
    written out: a build with overflow checks panics, a build without wraps.
  \<^item> Slicing of vectors with Rust's bounds checks.
\<close>

named_theorems res_simps \<open>evaluation of the result type\<close>
named_theorems arith_simps \<open>checked machine arithmetic in range\<close>

type_synonym u8 = "8 word"
type_synonym u16 = "16 word"
type_synonym u32 = "32 word"
type_synonym u64 = "64 word"

section \<open>Results\<close>

datatype ('e, 'a) res = Ok 'a | Err 'e | Panic string

fun and_then :: "('e, 'a) res \<Rightarrow> ('a \<Rightarrow> ('e, 'b) res) \<Rightarrow> ('e, 'b) res" where
  "and_then (Ok x) f = f x"
| "and_then (Err e) f = Err e"
| "and_then (Panic m) f = Panic m"

fun is_ok :: "('e, 'a) res \<Rightarrow> bool" where
  "is_ok (Ok x) = True"
| "is_ok (Err e) = False"
| "is_ok (Panic m) = False"

definition unwrap :: "string \<Rightarrow> 'a option \<Rightarrow> ('e, 'a) res" where
  "unwrap msg v = (case v of None \<Rightarrow> Panic msg | Some x \<Rightarrow> Ok x)"

text \<open>A loop whose body may fail: it stops at the first error or panic.\<close>

fun foldM :: "('s \<Rightarrow> 'a \<Rightarrow> ('e, 's) res) \<Rightarrow> 's \<Rightarrow> 'a list \<Rightarrow> ('e, 's) res" where
  "foldM f s [] = Ok s"
| "foldM f s (x # xs) = and_then (f s x) (\<lambda>s'. foldM f s' xs)"

section \<open>Machine integers\<close>

definition u32_norm :: "bool \<Rightarrow> nat \<Rightarrow> ('e, nat) res" where
  "u32_norm checks n =
     (if n < 2 ^ 32 then Ok n
      else if checks then Panic ''arithmetic overflow'' else Ok (n mod 2 ^ 32))"

definition u32_add :: "bool \<Rightarrow> nat \<Rightarrow> nat \<Rightarrow> ('e, nat) res" where
  "u32_add checks a b = u32_norm checks (a + b)"

definition u32_mul :: "bool \<Rightarrow> nat \<Rightarrow> nat \<Rightarrow> ('e, nat) res" where
  "u32_mul checks a b = u32_norm checks (a * b)"

text \<open>The casts \<open>as isize\<close> and \<open>as usize\<close> on a 64-bit target.\<close>

definition cast_isize :: "nat \<Rightarrow> int" where
  "cast_isize n = (if n < 2 ^ 63 then int n else int n - 2 ^ 64)"

definition cast_usize :: "int \<Rightarrow> nat" where
  "cast_usize z = nat (z mod 2 ^ 64)"

text \<open>Addition and subtraction on \<open>u64\<close>.\<close>

definition u64_add :: "bool \<Rightarrow> u64 \<Rightarrow> u64 \<Rightarrow> ('e, u64) res" where
  "u64_add checks a b = (if checks \<and> a + b < a then Panic ''attempt to add with overflow'' else Ok (a + b))"

definition u64_sub :: "bool \<Rightarrow> u64 \<Rightarrow> u64 \<Rightarrow> ('e, u64) res" where
  "u64_sub checks a b = (if checks \<and> a < b then Panic ''attempt to subtract with overflow'' else Ok (a - b))"

section \<open>Slices\<close>

text \<open>\<open>v[a..]\<close>, \<open>v.drain(0..n)\<close> and \<open>v[a..b]\<close>: out of range is a panic.\<close>

definition slice_from :: "nat \<Rightarrow> 'a list \<Rightarrow> ('e, 'a list) res" where
  "slice_from a v =
     (if a \<le> length v then Ok (drop a v) else Panic ''range start index out of range'')"

definition drain_to :: "nat \<Rightarrow> 'a list \<Rightarrow> ('e, 'a list) res" where
  "drain_to n v =
     (if n \<le> length v then Ok (take n v) else Panic ''range end index out of range'')"

definition slice_range :: "nat \<Rightarrow> nat \<Rightarrow> 'a list \<Rightarrow> ('e, 'a list) res" where
  "slice_range a b v =
     (if a \<le> b \<and> b \<le> length v then Ok (take (b - a) (drop a v)) else Panic ''range end index out of range'')"

section \<open>Lemmas on results\<close>

lemma and_then_Ok_iff [res_simps]:
  "(and_then m f = Ok y) = (\<exists>x. m = Ok x \<and> f x = Ok y)"
  by (cases m) auto

lemma and_then_Err_iff [res_simps]:
  "(and_then m f = Err e) = (m = Err e \<or> (\<exists>x. m = Ok x \<and> f x = Err e))"
  by (cases m) auto

lemma and_then_Panic_iff [res_simps]:
  "(and_then m f = Panic s) = (m = Panic s \<or> (\<exists>x. m = Ok x \<and> f x = Panic s))"
  by (cases m) auto

lemma and_then_assoc [simp]:
  "and_then (and_then m f) g = and_then m (\<lambda>x. and_then (f x) g)"
  by (cases m) auto

lemma and_then_Ok_right [simp]: "and_then m Ok = m"
  by (cases m) auto

lemma unwrap_simps [simp]:
  "unwrap msg (Some x) = Ok x" "unwrap msg None = Panic msg"
  by (simp_all add: unwrap_def)

lemma unwrap_Ok_iff [res_simps]: "(unwrap msg v = Ok x) = (v = Some x)"
  by (cases v) auto

lemma foldM_append [simp]:
  "foldM f s (xs @ ys) = and_then (foldM f s xs) (\<lambda>s'. foldM f s' ys)"
  by (induction xs arbitrary: s) auto

text \<open>An invariant kept by every successful step of a loop holds when the loop ends.\<close>

lemma foldM_invariant:
  assumes "foldM f s xs = Ok s'" and "P s"
    and "\<And>s x s'. P s \<Longrightarrow> x \<in> set xs \<Longrightarrow> f s x = Ok s' \<Longrightarrow> P s'"
  shows "P s'"
  using assms
proof (induction xs arbitrary: s)
  case (Cons x xs)
  from Cons.prems(1) obtain s1 where s1: "f s x = Ok s1" "foldM f s1 xs = Ok s'"
    by (auto simp: res_simps)
  have "P s1" by (rule Cons.prems(3) [OF Cons.prems(2) _ s1(1)]) simp
  with s1(2) show ?case
    by (rule Cons.IH) (rule Cons.prems(3), auto)
qed simp

section \<open>Lemmas on arithmetic and slices\<close>

lemma u32_norm_in_range [simp]: "n < 2 ^ 32 \<Longrightarrow> u32_norm c n = Ok n"
  by (simp add: u32_norm_def)

lemma u32_add_in_range [arith_simps]: "a + b < 2 ^ 32 \<Longrightarrow> u32_add c a b = Ok (a + b)"
  by (simp add: u32_add_def)

lemma u32_mul_in_range [arith_simps]: "a * b < 2 ^ 32 \<Longrightarrow> u32_mul c a b = Ok (a * b)"
  by (simp add: u32_mul_def)

lemma u32_norm_bound: "u32_norm c n = Ok m \<Longrightarrow> m < 2 ^ 32"
  by (auto simp: u32_norm_def split: if_splits)

lemma u32_norm_checked: "(u32_norm True n = Ok m) = (m = n \<and> n < 2 ^ 32)"
  by (auto simp: u32_norm_def)

lemma cast_usize_in_range: "0 \<le> z \<Longrightarrow> z < 2 ^ 64 \<Longrightarrow> cast_usize z = nat z"
  by (simp add: cast_usize_def)

lemma cast_back:
  assumes "n < 2 ^ 63" and "k \<le> n"
  shows "cast_usize (cast_isize n + - int k) = n - k"
  using assms by (simp add: cast_isize_def cast_usize_def nat_diff_distrib)

lemma u64_add_checked: "(u64_add True a b = Ok c) = (c = a + b \<and> unat a + unat b < 2 ^ 64)"
proof -
  have "(a + b < a) = (2 ^ 64 \<le> unat a + unat b)"
    using unat_plus_if' [of a b] unsigned_less [of b, where 'a = nat] by (auto simp: word_less_nat_alt)
  then show ?thesis by (auto simp: u64_add_def)
qed

lemma unat_add_checked: "u64_add True a b = Ok c \<Longrightarrow> unat c = unat a + unat b"
  by (simp add: u64_add_checked unat_plus_if')

lemma u64_add_in_range [arith_simps]: "unat a + unat b < 2 ^ 64 \<Longrightarrow> u64_add c a b = Ok (a + b)"
  by (simp add: u64_add_def word_less_nat_alt unat_plus_if')

lemma unat_add_in_range: "unat (a :: u64) + unat b < 2 ^ 64 \<Longrightarrow> unat (a + b) = unat a + unat b"
  by (simp add: unat_plus_if')

lemma drain_to_le [simp]: "n \<le> length v \<Longrightarrow> drain_to n v = Ok (take n v)"
  by (simp add: drain_to_def)

lemma drain_to_gt [simp]:
  "length v < n \<Longrightarrow> drain_to n v = Panic ''range end index out of range''"
  by (simp add: drain_to_def)

lemma slice_from_le [simp]: "a \<le> length v \<Longrightarrow> slice_from a v = Ok (drop a v)"
  by (simp add: slice_from_def)

lemma slice_range_in_range [simp]:
  "a \<le> b \<Longrightarrow> b \<le> length v \<Longrightarrow> slice_range a b v = Ok (take (b - a) (drop a v))"
  by (simp add: slice_range_def)

section \<open>Searching association lists\<close>

lemma find_SomeD: "find P xs = Some x \<Longrightarrow> x \<in> set xs \<and> P x"
  by (auto simp: find_Some_iff)

lemma find_key:
  assumes "(k, v) \<in> set xs" and "\<And>v'. (k, v') \<in> set xs \<Longrightarrow> v' = v"
  shows "find (\<lambda>(k', _). k' = k) xs = Some (k, v)"
proof (cases "find (\<lambda>(k', _). k' = k) xs")
  case None
  with assms(1) show ?thesis by (auto simp: find_None_iff)
next
  case (Some x)
  from find_SomeD [OF Some] assms(2) Some show ?thesis by (cases x) auto
qed

end
