(* ===== verification/BTree_Map.thy ===== *)
theory BTree_Map
  imports Para_Prelude "HOL-Library.Char_ord" "HOL-Library.List_Lexorder"
begin

text \<open>
  The part of \<open>alloc::collections::BTreeMap\<close> that the compiler uses: \<open>new\<close>, \<open>insert\<close>
  (which replaces the value of a key that is present), \<open>get\<close>, and iteration, which runs
  in ascending key order. A map is the list of its entries in that order, so iterating is
  reading the list. The locale \<open>ordered_map\<close> states the contract the clients use; the
  sorted lists are its instance.
\<close>

type_synonym ('k, 'v) btree = "('k \<times> 'v) list"

fun bt_insert :: "'k::linorder \<Rightarrow> 'v \<Rightarrow> ('k, 'v) btree \<Rightarrow> ('k, 'v) btree" where
  "bt_insert k v [] = [(k, v)]"
| "bt_insert k v ((k', v') # m) =
     (if k < k' then (k, v) # (k', v') # m
      else if k = k' then (k, v) # m
      else (k', v') # bt_insert k v m)"

fun bt_get :: "('k, 'v) btree \<Rightarrow> 'k \<Rightarrow> 'v option" where
  "bt_get [] k = None"
| "bt_get ((k', v') # m) k = (if k = k' then Some v' else bt_get m k)"

text \<open>\<open>iter().find_map(f)\<close>: the first entry, in key order, on which \<open>f\<close> gives a value.\<close>

fun find_map :: "('a \<Rightarrow> 'b option) \<Rightarrow> 'a list \<Rightarrow> 'b option" where
  "find_map f [] = None"
| "find_map f (x # xs) = (case f x of None \<Rightarrow> find_map f xs | Some y \<Rightarrow> Some y)"

definition bt_inv :: "('k::linorder, 'v) btree \<Rightarrow> bool" where
  "bt_inv m = sorted_wrt (<) (map fst m)"

locale ordered_map =
  fixes empty :: "'m"
    and ins :: "'k \<Rightarrow> 'v \<Rightarrow> 'm \<Rightarrow> 'm"
    and get :: "'m \<Rightarrow> 'k \<Rightarrow> 'v option"
    and entries :: "'m \<Rightarrow> ('k \<times> 'v) list"
    and inv :: "'m \<Rightarrow> bool"
  assumes get_empty: "get empty k = None"
    and inv_empty: "inv empty"
    and inv_ins: "inv m \<Longrightarrow> inv (ins k v m)"
    and get_ins: "inv m \<Longrightarrow> get (ins k v m) k' = (if k' = k then Some v else get m k')"
    and get_entries: "inv m \<Longrightarrow> ((k, v) \<in> set (entries m)) = (get m k = Some v)"
begin

lemma fold_ins_inv: "inv m \<Longrightarrow> inv (fold (\<lambda>(k, v). ins k v) kvs m)"
  by (induction kvs arbitrary: m) (auto simp: inv_ins)

lemma get_fold_other:
  "inv m \<Longrightarrow> k \<notin> fst ` set kvs \<Longrightarrow> get (fold (\<lambda>(k, v). ins k v) kvs m) k = get m k"
  by (induction kvs arbitrary: m) (auto simp: inv_ins get_ins)

text \<open>After inserting entries with distinct keys, each is found.\<close>

lemma get_fold_distinct:
  assumes "inv m" and "distinct (map fst kvs)" and "(k, v) \<in> set kvs"
  shows "get (fold (\<lambda>(k, v). ins k v) kvs m) k = Some v"
  using assms
proof (induction kvs arbitrary: m)
  case (Cons kv kvs)
  obtain k1 v1 where kv: "kv = (k1, v1)" by (cases kv)
  show ?case
  proof (cases "(k, v) = kv")
    case True
    with Cons.prems kv have "k \<notin> fst ` set kvs" by auto
    with True kv Cons.prems(1) show ?thesis
      by (simp add: get_fold_other inv_ins get_ins)
  next
    case False
    with Cons kv show ?thesis by (auto simp: inv_ins)
  qed
qed simp

end

section \<open>The sorted lists are an instance\<close>

lemma fst_bt_insert [simp]: "fst ` set (bt_insert k v m) = insert k (fst ` set m)"
  by (induction k v m rule: bt_insert.induct) (simp_all add: insert_commute)

lemma bt_inv_Cons: "bt_inv ((k, v) # m) = ((\<forall>k' \<in> fst ` set m. k < k') \<and> bt_inv m)"
  by (auto simp: bt_inv_def)

lemma bt_inv_Nil [simp]: "bt_inv []"
  by (simp add: bt_inv_def)

lemma bt_inv_insert: "bt_inv m \<Longrightarrow> bt_inv (bt_insert k v m)"
  by (induction m) (fastforce simp: bt_inv_Cons)+

lemma bt_get_None: "k \<notin> fst ` set m \<Longrightarrow> bt_get m k = None"
  by (induction m) auto

lemma bt_get_insert: "bt_get (bt_insert k v m) k' = (if k' = k then Some v else bt_get m k')"
  by (induction m) auto

lemma bt_entries: "bt_inv m \<Longrightarrow> ((k, v) \<in> set m) = (bt_get m k = Some v)"
  by (induction m) (fastforce simp: bt_inv_Cons split: if_splits)+

interpretation bt: ordered_map "[]" bt_insert bt_get "\<lambda>m. m" bt_inv
  by unfold_locales (auto simp: bt_inv_insert bt_get_insert bt_entries)

lemma find_map_Some:
  "find_map f xs = Some y \<Longrightarrow> \<exists>pre x post. xs = pre @ x # post \<and> f x = Some y \<and> (\<forall>z\<in>set pre. f z = None)"
proof (induction xs)
  case (Cons x xs)
  show ?case
  proof (cases "f x")
    case None
    with Cons obtain pre z post where
      "xs = pre @ z # post" "f z = Some y" "\<forall>w\<in>set pre. f w = None"
      by auto
    with None have "x # xs = (x # pre) @ z # post \<and> f z = Some y \<and> (\<forall>w\<in>set (x # pre). f w = None)"
      by simp
    then show ?thesis by blast
  next
    case (Some w)
    with Cons.prems have "x # xs = [] @ x # xs \<and> f x = Some y" by simp
    then show ?thesis by fastforce
  qed
qed simp

lemma find_map_None: "(find_map f xs = None) = (\<forall>x\<in>set xs. f x = None)"
  by (induction xs) (auto split: option.splits)

end
