(* ===== verification/Assembler.thy ===== *)
theory Assembler
  imports Para_Prelude
begin

text \<open>
  What the compiler sees of the assembler package \<open>iced-x86\<close> (which is not part of the
  repository): registers, operands, the instructions it asks for, labels, and the
  growing instruction list that it reads back with \<open>instructions\<close> and
  \<open>take_instructions\<close>.

  An \<open>instr\<close> has one constructor per kind of assembler call in
  \<open>src/parawasm/src/x86_64/\<close>. Everything the package decides by itself is the
  parameter \<open>iced\<close>: whether it refuses an instruction or a label, which of the two
  encodings of a register-to-register move it picks, the bytes of the encoded block and
  the address of a label in it. The record fields stand for code that is not modelled;
  properties that need more about them say so in a hypothesis.
\<close>

section \<open>Registers, operands, instructions\<close>

datatype register =
    NoReg | RAX | RBX | RCX | RDX | RSI | RDI | RBP | RSP | R8 | R9 | R10 | R11 | EAX | EBX

fun is_r64 :: "register \<Rightarrow> bool" where
  "is_r64 NoReg = False"
| "is_r64 EAX = False"
| "is_r64 EBX = False"
| "is_r64 _ = True"

type_synonym label = nat

datatype ptr_size = Ptr | Dword_ptr | Qword_ptr

datatype mem_operand =
    Mem ptr_size register int   \<comment> \<open>\<open>ptr(base + displacement)\<close>\<close>
  | MemLabel label              \<comment> \<open>\<open>ptr(label)\<close>\<close>

text \<open>The values of \<open>iced_x86::Code\<close> that the source names; all others are \<open>OtherCode\<close>.\<close>

datatype code =
    Push_r64 | Pop_r64 | Mov_rm64_r64 | Sub_rm64_imm32 | Add_rm64_imm32 | OtherCode

text \<open>The two encodings of a 64-bit register-to-register move.\<close>

datatype mov_encoding = Rm_r | R_rm   \<comment> \<open>\<open>Mov_rm64_r64\<close>, \<open>Mov_r64_rm64\<close>\<close>

datatype instr =
    PUSH register
  | POP register
  | MOV_rr mov_encoding register register
  | MOV_ri register u64
  | MOV_rm register mem_operand
  | MOV_mr mem_operand register
  | ADD_rr register register
  | SUB_rr register register
  | SUB_imm32 register nat
  | ADD_imm32 register nat
  | CALL_label label
  | CALL_r register
  | RET
  | NOP
  | DQ "u64 list"
  | ZERO_BYTES

datatype op_kind = OpRegister | OpMemory | OpOther

fun code_of :: "instr \<Rightarrow> code" where
  "code_of (PUSH r) = (if is_r64 r then Push_r64 else OtherCode)"
| "code_of (POP r) = (if is_r64 r then Pop_r64 else OtherCode)"
| "code_of (MOV_rr c d s) = (if c = Rm_r then Mov_rm64_r64 else OtherCode)"
| "code_of (MOV_mr m s) = (if is_r64 s then Mov_rm64_r64 else OtherCode)"
| "code_of (SUB_imm32 r n) = Sub_rm64_imm32"
| "code_of (ADD_imm32 r n) = Add_rm64_imm32"
| "code_of _ = OtherCode"

fun op0_kind :: "instr \<Rightarrow> op_kind" where
  "op0_kind (PUSH r) = OpRegister"
| "op0_kind (POP r) = OpRegister"
| "op0_kind (MOV_rr c d s) = OpRegister"
| "op0_kind (MOV_ri d v) = OpRegister"
| "op0_kind (MOV_rm d m) = OpRegister"
| "op0_kind (MOV_mr m s) = OpMemory"
| "op0_kind (ADD_rr d s) = OpRegister"
| "op0_kind (SUB_rr d s) = OpRegister"
| "op0_kind (SUB_imm32 d n) = OpRegister"
| "op0_kind (ADD_imm32 d n) = OpRegister"
| "op0_kind (CALL_r r) = OpRegister"
| "op0_kind _ = OpOther"

fun op1_kind :: "instr \<Rightarrow> op_kind" where
  "op1_kind (MOV_rr c d s) = OpRegister"
| "op1_kind (MOV_rm d m) = OpMemory"
| "op1_kind (MOV_mr m s) = OpRegister"
| "op1_kind (ADD_rr d s) = OpRegister"
| "op1_kind (SUB_rr d s) = OpRegister"
| "op1_kind _ = OpOther"

fun op0_register :: "instr \<Rightarrow> register" where
  "op0_register (PUSH r) = r"
| "op0_register (POP r) = r"
| "op0_register (MOV_rr c d s) = d"
| "op0_register (MOV_ri d v) = d"
| "op0_register (MOV_rm d m) = d"
| "op0_register (ADD_rr d s) = d"
| "op0_register (SUB_rr d s) = d"
| "op0_register (SUB_imm32 d n) = d"
| "op0_register (ADD_imm32 d n) = d"
| "op0_register (CALL_r r) = r"
| "op0_register _ = NoReg"

fun op1_register :: "instr \<Rightarrow> register" where
  "op1_register (MOV_rr c d s) = s"
| "op1_register (MOV_mr m s) = s"
| "op1_register (ADD_rr d s) = s"
| "op1_register (SUB_rr d s) = s"
| "op1_register _ = NoReg"

section \<open>The package as a parameter\<close>

type_synonym iced_error = string
type_synonym reader_error = string

text \<open>An instruction of the block, with the label set on it, if any.\<close>

type_synonym line = "label option \<times> instr"

record iced =
  new_assembler :: "iced_error option"    \<comment> \<open>\<open>CodeAssembler::new(64)\<close>\<close>
  mov_rr_code :: mov_encoding             \<comment> \<open>encoding that \<open>mov(r64, r64)\<close> picks\<close>
  refuses :: "instr \<Rightarrow> iced_error option"
  refuses_label :: "line list \<Rightarrow> label option \<Rightarrow> label \<Rightarrow> iced_error option"
  encode :: "line list \<Rightarrow> iced_error + u8 list"
  label_ip :: "line list \<Rightarrow> label \<Rightarrow> iced_error + nat"

text \<open>\<open>enum Error\<close> of \<open>mod.rs\<close>, with the two \<open>From\<close> conversions as its constructors.\<close>

datatype compile_error = WasmReaderError reader_error | AssemblerError iced_error

definition lift_iced :: "iced_error + 'a \<Rightarrow> (compile_error, 'a) res" where
  "lift_iced x = (case x of Inl e \<Rightarrow> Err (AssemblerError e) | Inr v \<Rightarrow> Ok v)"

definition lift_reader :: "reader_error + 'a \<Rightarrow> (compile_error, 'a) res" where
  "lift_reader x = (case x of Inl e \<Rightarrow> Err (WasmReaderError e) | Inr v \<Rightarrow> Ok v)"

definition fails_with :: "iced_error option \<Rightarrow> 'a \<Rightarrow> (compile_error, 'a) res" where
  "fails_with x v = (case x of Some e \<Rightarrow> Err (AssemblerError e) | None \<Rightarrow> Ok v)"

record code_assembler =
  asm_lines :: "line list"
  asm_pending :: "label option"
  asm_next :: label

definition new_asm :: "iced \<Rightarrow> (compile_error, code_assembler) res" where
  "new_asm ic = fails_with (new_assembler ic) \<lparr>asm_lines = [], asm_pending = None, asm_next = 0\<rparr>"

definition instructions :: "code_assembler \<Rightarrow> instr list" where
  "instructions a = map snd (asm_lines a)"

definition add_instruction :: "iced \<Rightarrow> code_assembler \<Rightarrow> instr \<Rightarrow> (compile_error, code_assembler) res" where
  "add_instruction ic a i =
     fails_with (refuses ic i)
       (a\<lparr>asm_lines := asm_lines a @ [(asm_pending a, i)], asm_pending := None\<rparr>)"

text \<open>A run of assembler calls, each ended by \<open>?\<close>.\<close>

definition emit :: "iced \<Rightarrow> instr list \<Rightarrow> code_assembler \<Rightarrow> (compile_error, code_assembler) res" where
  "emit ic is a = foldM (add_instruction ic) a is"

definition create_label :: "code_assembler \<Rightarrow> label \<times> code_assembler" where
  "create_label a = (asm_next a, a\<lparr>asm_next := Suc (asm_next a)\<rparr>)"

definition set_label :: "iced \<Rightarrow> label \<Rightarrow> code_assembler \<Rightarrow> (compile_error, code_assembler) res" where
  "set_label ic l a =
     fails_with (refuses_label ic (asm_lines a) (asm_pending a) l) (a\<lparr>asm_pending := Some l\<rparr>)"

definition take_instructions :: "code_assembler \<Rightarrow> instr list \<times> code_assembler" where
  "take_instructions a = (instructions a, a\<lparr>asm_lines := [], asm_pending := None\<rparr>)"

section \<open>Lemmas\<close>

lemma fails_with_Ok_iff [res_simps]: "(fails_with x v = Ok w) = (x = None \<and> v = w)"
  by (auto simp: fails_with_def split: option.splits)

lemma fails_with_None [simp]: "fails_with None v = Ok v"
  by (simp add: fails_with_def)

lemma fails_with_no_panic [simp]: "fails_with x v \<noteq> Panic s"
  by (simp add: fails_with_def split: option.splits)

lemma lift_iced_simps [simp]:
  "lift_iced (Inr v) = Ok v" "lift_iced (Inl e) = Err (AssemblerError e)"
  by (simp_all add: lift_iced_def)

lemma lift_reader_simps [simp]:
  "lift_reader (Inr v) = Ok v" "lift_reader (Inl e) = Err (WasmReaderError e)"
  by (simp_all add: lift_reader_def)

lemma emit_simps [simp]:
  "emit ic [] a = Ok a"
  "emit ic (i # is) a = and_then (add_instruction ic a i) (emit ic is)"
  by (simp_all add: emit_def) (metis emit_def)

lemma emit_append [simp]: "emit ic (is @ js) a = and_then (emit ic is a) (emit ic js)"
  by (simp add: emit_def) (metis emit_def)

lemma instructions_update [simp]:
  "instructions (a\<lparr>asm_pending := p\<rparr>) = instructions a"
  "instructions (a\<lparr>asm_next := n\<rparr>) = instructions a"
  by (simp_all add: instructions_def)

lemma add_instruction_Ok:
  assumes "add_instruction ic a i = Ok b"
  shows "instructions b = instructions a @ [i]" "asm_next b = asm_next a"
    and "asm_pending b = None" "refuses ic i = None"
    and "asm_lines b = asm_lines a @ [(asm_pending a, i)]"
  using assms by (auto simp: add_instruction_def instructions_def res_simps)

text \<open>A successful run of calls appends exactly the instructions asked for, in order.\<close>

lemma emit_Ok:
  "emit ic is a = Ok b \<Longrightarrow>
     instructions b = instructions a @ is \<and> asm_next b = asm_next a \<and> (\<forall>i\<in>set is. refuses ic i = None)"
proof (induction "is" arbitrary: a)
  case (Cons i "is")
  then obtain c where c: "add_instruction ic a i = Ok c" "emit ic is c = Ok b"
    by (auto simp: res_simps)
  from Cons.IH [OF c(2)] add_instruction_Ok [OF c(1)] show ?case by simp
qed simp

lemma emit_accepted:
  assumes "\<forall>i\<in>set is. refuses ic i = None"
  shows "\<exists>b. emit ic is a = Ok b"
  using assms
  by (induction "is" arbitrary: a) (auto simp: add_instruction_def)

lemma emit_refused:
  assumes "i \<in> set is" and "refuses ic i = Some e"
  shows "\<exists>e'. emit ic is a = Err (AssemblerError e')"
  using assms
proof (induction "is" arbitrary: a)
  case (Cons j "is")
  then show ?case
    by (cases "refuses ic j") (auto simp: add_instruction_def fails_with_def)
qed simp

end
