(* ===== verification/Byte_Order.thy ===== *)
theory Byte_Order
  imports Para_Prelude
begin

text \<open>
  Little-endian byte order. x86-64 stores a quadword with its least significant byte
  first; the linker of \<open>src/parawasm/src/x86_64/mod.rs\<close> (\<open>link_import\<close>) and the stack
  helpers of \<open>src/parawasm_tests/src/testing.rs\<close> use the \<open>byteorder\<close> package to read and
  write quadwords in that order. What they rely on is the locale \<open>byte_order\<close>: eight
  bytes per value, and reading back what was written.
\<close>

unbundle bit_operations_syntax

fun le_encode :: "nat \<Rightarrow> u64 \<Rightarrow> u8 list" where
  "le_encode 0 v = []"
| "le_encode (Suc n) v = ucast v # le_encode n (drop_bit 8 v)"

fun le_decode :: "u8 list \<Rightarrow> u64" where
  "le_decode [] = 0"
| "le_decode (b # bs) = ucast b OR push_bit 8 (le_decode bs)"

abbreviation le64 :: "u64 \<Rightarrow> u8 list" where
  "le64 \<equiv> le_encode 8"

locale byte_order =
  fixes write_u64 :: "u64 \<Rightarrow> u8 list"
    and read_u64 :: "u8 list \<Rightarrow> u64"
  assumes write_len: "length (write_u64 v) = 8"
    and read_write: "read_u64 (write_u64 v) = v"
begin

lemma write_inj: "write_u64 v = write_u64 w \<Longrightarrow> v = w"
  by (metis read_write)

lemma read_patched:
  assumes "off + 8 \<le> length bin"
  shows "read_u64 (take 8 (drop off (take off bin @ write_u64 v @ drop (off + 8) bin))) = v"
  using assms by (simp add: write_len read_write)

lemma patched_length:
  assumes "off + 8 \<le> length bin"
  shows "length (take off bin @ write_u64 v @ drop (off + 8) bin) = length bin"
  using assms by (simp add: write_len)

end

lemma length_le_encode [simp]: "length (le_encode n v) = n"
  by (induction n arbitrary: v) auto

lemma nth_le_encode: "i < n \<Longrightarrow> le_encode n v ! i = ucast (drop_bit (8 * i) v)"
proof (induction n arbitrary: v i)
  case (Suc n)
  then show ?case by (cases i) (simp_all add: add.commute)
qed simp

lemma bit_le_decode:
  "bit (le_decode bs) j = (j < 64 \<and> j div 8 < length bs \<and> bit (bs ! (j div 8)) (j mod 8))"
proof (induction bs arbitrary: j)
  case (Cons b bs)
  show ?case
  proof (cases "j < 8")
    case True
    then show ?thesis by (auto simp: bit_simps)
  next
    case False
    then have "j div 8 = Suc ((j - 8) div 8)" "j mod 8 = (j - 8) mod 8"
      by (simp_all add: le_div_geq le_mod_geq)
    moreover have "\<not> bit (ucast b :: u64) j" using False by (auto simp: bit_simps dest: bit_imp_le_length)
    ultimately show ?thesis using False Cons [of "j - 8"] by (auto simp: bit_simps)
  qed
qed simp

lemma le_decode_encode: "le_decode (le_encode n v) = take_bit (8 * n) v"
proof (induction n arbitrary: v)
  case (Suc n)
  show ?case
    by (rule bit_word_eqI) (auto simp: Suc bit_simps)
qed simp

lemma le_decode_le64 [simp]: "le_decode (le64 v) = v"
proof -
  have "take_bit (8 * 8) v = v"
    by (rule bit_word_eqI) (auto simp: bit_simps)
  then show ?thesis by (simp add: le_decode_encode)
qed

interpretation le: byte_order le64 le_decode
  by unfold_locales simp_all

end
