(* ===== verification/Wasm_Module.thy ===== *)
theory Wasm_Module
  imports BTree_Map Byte_Order Assembler
begin

text \<open>
  The compiled module of \<open>src/parawasm/src/x86_64/mod.rs\<close>: \<open>struct Module\<close>, \<open>trait
  FunctionIdentifier\<close>, \<open>struct AssembledModule\<close> and the linking of imports. Function
  indices and offsets are natural numbers; the \<open>BTreeMap\<close>s are sorted entry lists.
\<close>

section \<open>The code\<close>

record memory_type =
  memory64 :: bool
  shared :: bool
  initial :: nat
  maximum :: "nat option"

record wasm_module =
  m_functions :: "(nat, nat) btree"
  m_function_bodies :: "(nat, nat) btree"
  m_function_stack_heights :: "(nat, nat) btree"
  m_exports :: "(string, nat) btree"
  m_imports :: "(nat, string \<times> string option \<times> nat) btree"
  m_memories :: "memory_type list"

definition new_module :: wasm_module where
  "new_module = \<lparr>m_functions = [], m_function_bodies = [], m_function_stack_heights = [],
     m_exports = [], m_imports = [], m_memories = []\<rparr>"

record assembled_module =
  the_module :: wasm_module
  assembled :: "u8 list"

definition assembled_from :: "wasm_module \<Rightarrow> u8 list \<Rightarrow> assembled_module" where
  "assembled_from m bytes = \<lparr>the_module = m, assembled = bytes\<rparr>"

text \<open>The two implementations of \<open>FunctionIdentifier::find_function\<close>.\<close>

definition find_function_index :: "nat \<Rightarrow> wasm_module \<Rightarrow> nat option" where
  "find_function_index i m = map_option (\<lambda>_. i) (bt_get (m_function_bodies m) i)"

definition find_function_name :: "string \<Rightarrow> wasm_module \<Rightarrow> nat option" where
  "find_function_name n m = Option.bind (bt_get (m_exports m) n) (\<lambda>index. find_function_index index m)"

text \<open>\<open>impl FunctionIdentifier\<close>: an identifier is a number or a name.\<close>

datatype function_identifier = ByIndex nat | ByName string

fun find_function :: "function_identifier \<Rightarrow> wasm_module \<Rightarrow> nat option" where
  "find_function (ByIndex i) m = find_function_index i m"
| "find_function (ByName n) m = find_function_name n m"

definition function_entry_point :: "wasm_module \<Rightarrow> function_identifier \<Rightarrow> nat option" where
  "function_entry_point m identifier =
     Option.bind (find_function identifier m) (\<lambda>idx. bt_get (m_function_bodies m) idx)"

definition function_stack_height :: "wasm_module \<Rightarrow> function_identifier \<Rightarrow> nat option" where
  "function_stack_height m identifier =
     Option.bind (find_function identifier m) (\<lambda>idx. bt_get (m_function_stack_heights m) idx)"

definition memory_types :: "wasm_module \<Rightarrow> memory_type list" where
  "memory_types m = m_memories m"

definition binary :: "assembled_module \<Rightarrow> u8 list" where
  "binary am = assembled am"

fun names_equal :: "string option \<Rightarrow> string option \<Rightarrow> bool" where
  "names_equal None None = False"
| "names_equal None (Some _) = False"
| "names_equal (Some _) None = False"
| "names_equal (Some name) (Some name') = (name = name')"

definition import_matches ::
  "string \<Rightarrow> string option \<Rightarrow> nat \<times> (string \<times> string option \<times> nat) \<Rightarrow> nat option" where
  "import_matches module name entry = (case entry of (_, module', name', offset) \<Rightarrow>
     if module' = module \<and> names_equal name name' then Some offset else None)"

text \<open>
  \<open>link_import\<close>; \<open>write_u64\<close> stands for \<open>LittleEndian::write_u64\<close> of the package \<open>byteorder\<close>
  (the bytes it writes). The slice \<open>offset..offset + 8\<close> is bounds checked.
\<close>

definition link_import ::
  "(u64 \<Rightarrow> u8 list) \<Rightarrow> assembled_module \<Rightarrow> string \<Rightarrow> string option \<Rightarrow> u64 \<Rightarrow> ('e, assembled_module) res"
where
  "link_import write_u64 am module name addr =
     (case find_map (import_matches module name) (m_imports (the_module am)) of
        Some offset \<Rightarrow>
          (if offset + 8 \<le> length (assembled am)
           then Ok (am\<lparr>assembled := take offset (assembled am) @ write_u64 addr
                                     @ drop (offset + 8) (assembled am)\<rparr>)
           else Panic ''range end index out of range'')
      | None \<Rightarrow> Ok am)"

section \<open>Lemmas\<close>

lemma find_function_index_Some:
  "find_function_index i m = Some j \<longleftrightarrow> j = i \<and> bt_get (m_function_bodies m) i \<noteq> None"
  by (auto simp: find_function_index_def)

lemma function_entry_point_index:
  "function_entry_point m (ByIndex i) = bt_get (m_function_bodies m) i"
  by (cases "bt_get (m_function_bodies m) i")
    (simp_all add: function_entry_point_def find_function_index_def)

lemma function_entry_point_name:
  "function_entry_point m (ByName n)
     = Option.bind (bt_get (m_exports m) n) (\<lambda>i. function_entry_point m (ByIndex i))"
  by (cases "bt_get (m_exports m) n")
    (simp_all add: function_entry_point_def find_function_name_def)

lemma import_matches_Some:
  "import_matches module name e = Some off \<longleftrightarrow>
     (\<exists>i n. name = Some n \<and> e = (i, module, Some n, off))"
  by (cases e; cases name) (auto simp: import_matches_def elim: names_equal.elims split: if_splits)

text \<open>The import that is linked: the entry of lowest function index with the two names.\<close>

lemma link_target:
  assumes "find_map (import_matches module name) (m_imports m) = Some off" and "bt_inv (m_imports m)"
  shows "\<exists>i n. name = Some n \<and> bt_get (m_imports m) i = Some (module, Some n, off)
    \<and> (\<forall>j off'. bt_get (m_imports m) j = Some (module, Some n, off') \<longrightarrow> i \<le> j)"
proof -
  from find_map_Some [OF assms(1)] obtain pre e post where
    split: "m_imports m = pre @ e # post" "import_matches module name e = Some off"
      "\<forall>z\<in>set pre. import_matches module name z = None" by blast
  then obtain i n where e: "name = Some n" "e = (i, module, Some n, off)"
    by (auto simp: import_matches_Some)
  have "bt_get (m_imports m) i = Some (module, Some n, off)"
    using split(1) e(2) assms(2) by (subst bt_entries [symmetric]) auto
  moreover have "i \<le> j" if "bt_get (m_imports m) j = Some (module, Some n, off')" for j off'
  proof -
    from that have mem: "(j, module, Some n, off') \<in> set (m_imports m)"
      by (simp add: bt_entries [OF assms(2)])
    have "import_matches module name (j, module, Some n, off') = Some off'"
      using e(1) by (simp add: import_matches_def)
    with split(3) have "(j, module, Some n, off') \<notin> set pre" by auto
    with mem split(1) e(2) have "j = i \<or> (j, module, Some n, off') \<in> set post" by auto
    then show ?thesis
      using assms(2) split(1) e(2)
      by (fastforce simp: bt_inv_def sorted_wrt_append)
  qed
  ultimately show ?thesis using e(1) by blast
qed

context byte_order
begin

text \<open>Linking patches exactly the eight bytes of the slot.\<close>

lemma link_import_patches:
  assumes "find_map (import_matches module name) (m_imports (the_module am)) = Some off"
    and "off + 8 \<le> length (assembled am)"
  shows "\<exists>am'. link_import write_u64 am module name addr = Ok am'
    \<and> the_module am' = the_module am
    \<and> length (assembled am') = length (assembled am)
    \<and> read_u64 (take 8 (drop off (assembled am'))) = addr
    \<and> (\<forall>i. i < off \<or> off + 8 \<le> i \<longrightarrow> i < length (assembled am) \<longrightarrow>
          assembled am' ! i = assembled am ! i)"
  using assms read_patched [OF assms(2)] patched_length [OF assms(2)]
  by (auto simp: link_import_def write_len nth_append)

end

section \<open>Properties\<close>

lemma link_lowest:
  assumes "bt_inv (m_imports m)" and "bt_get (m_imports m) i = Some (module, Some n, off)"
    and "\<forall>j off'. bt_get (m_imports m) j = Some (module, Some n, off') \<longrightarrow> i \<le> j"
  shows "find_map (import_matches module (Some n)) (m_imports m) = Some off"
proof (cases "find_map (import_matches module (Some n)) (m_imports m)")
  case None
  have "(i, module, Some n, off) \<in> set (m_imports m)"
    using assms(1,2) by (simp add: bt_entries)
  with None show ?thesis by (auto simp: find_map_None import_matches_def)
next
  case (Some off')
  from link_target [OF Some assms(1)] obtain i' where
    i': "bt_get (m_imports m) i' = Some (module, Some n, off')"
    "\<forall>j off''. bt_get (m_imports m) j = Some (module, Some n, off'') \<longrightarrow> i' \<le> j" by auto
  with assms(2,3) have "i' = i" by (meson le_antisym)
  with i' assms(2) Some show ?thesis by simp
qed

text \<open>C20. Linking an import writes its address where the code will read it: if function \<open>i\<close> is
  the first import with the two names and its slot lies in the binary, \<open>link_import\<close>
  succeeds, the slot then reads as \<open>addr\<close>, and no other byte and nothing of the module
  changes. In particular a later import with the same names keeps its placeholder.\<close>

theorem link_import_writes_slot:
  assumes "byte_order write_u64 read_u64" and "bt_inv (m_imports (the_module am))"
    and "bt_get (m_imports (the_module am)) i = Some (module, Some n, off)"
    and "\<forall>j off'. bt_get (m_imports (the_module am)) j = Some (module, Some n, off') \<longrightarrow> i \<le> j"
    and "off + 8 \<le> length (assembled am)"
  shows "\<exists>am'. link_import write_u64 am module (Some n) addr = Ok am'
    \<and> the_module am' = the_module am \<and> length (binary am') = length (binary am)
    \<and> read_u64 (take 8 (drop off (binary am'))) = addr
    \<and> (\<forall>k < length (binary am). k < off \<or> off + 8 \<le> k \<longrightarrow> binary am' ! k = binary am ! k)"
proof -
  from byte_order.link_import_patches [OF assms(1) link_lowest [OF assms(2-4)] assms(5), of addr]
  show ?thesis unfolding binary_def by blast
qed

definition linked_twice :: assembled_module where
  "linked_twice = assembled_from
     (new_module\<lparr>m_imports := [(0, ''env'', Some ''f'', 0), (1, ''env'', Some ''f'', 8)]\<rparr>)
     (replicate 16 0)"

theorem link_import_writes_slot_witness:
  "\<exists>am'. link_import le64 linked_twice ''env'' (Some ''f'') 7 = Ok am'
     \<and> le_decode (take 8 (drop 0 (binary am'))) = 7
     \<and> (\<forall>k \<in> {8..<16}. binary am' ! k = 0)"
proof -
  have am: "m_imports (the_module linked_twice) = [(0, ''env'', Some ''f'', 0), (1, ''env'', Some ''f'', 8)]"
    "assembled linked_twice = replicate 16 0" "binary linked_twice = replicate 16 0"
    by (simp_all add: linked_twice_def assembled_from_def binary_def)
  from link_import_writes_slot [OF le.byte_order_axioms, of linked_twice 0 "''env''" "''f''" 0 7] am
  show ?thesis by (auto simp: bt_inv_def split: if_splits)
qed

text \<open>Nothing else is ever linked: without a function name, or when no import has the two
  names, \<open>link_import\<close> leaves the module as it is and reports nothing. An import that has
  no name of its own can therefore not be linked.\<close>

theorem link_import_unmatched:
  assumes "bt_inv (m_imports (the_module am))"
    and "name = None \<or> (\<forall>i off. bt_get (m_imports (the_module am)) i \<noteq> Some (module, name, off))"
  shows "link_import write_u64 am module name addr = Ok am"
proof -
  have "find_map (import_matches module name) (m_imports (the_module am)) = None"
  proof (rule ccontr)
    assume "find_map (import_matches module name) (m_imports (the_module am)) \<noteq> None"
    then obtain off where "find_map (import_matches module name) (m_imports (the_module am)) = Some off"
      by auto
    from link_target [OF this assms(1)] assms(2) show False by auto
  qed
  then show ?thesis by (simp add: link_import_def)
qed

theorem link_import_unmatched_witness:
  "link_import le64 linked_twice ''env'' None 7 = Ok linked_twice
   \<and> link_import le64 linked_twice ''env'' (Some ''g'') 7 = Ok linked_twice"
proof -
  have "bt_inv (m_imports (the_module linked_twice))"
    "\<forall>i off. bt_get (m_imports (the_module linked_twice)) i \<noteq> Some (''env'', Some ''g'', off)"
    by (auto simp: linked_twice_def assembled_from_def bt_inv_def)
  with link_import_unmatched [of linked_twice None "''env''" le64 7]
    link_import_unmatched [of linked_twice "Some ''g''" "''env''" le64 7] show ?thesis by blast
qed

end
