(* ===== verification/Wasm_Reader.thy ===== *)
theory Wasm_Reader
  imports Wasm_Types Wasm_Module
begin

text \<open>
  What the compiler receives from the parser package \<open>wasmparser-nostd\<close>, which is not part
  of the repository: payloads, the items of each section (each item may be an error, as
  the section readers are fallible iterators), function bodies. The parser, the validator
  and the function validator are the parameter \<open>wasmparser\<close>; \<open>'p\<close>, \<open>'v\<close> and \<open>'f\<close> are their
  states.
\<close>

type_synonym 'a item = "reader_error + 'a"

datatype type_def = TypeDef_Func func_type | TypeDef_Other

datatype import_type = Import_Function nat | Import_Other

record import_entry =
  im_module :: string
  im_field :: "string option"
  im_ty :: import_type

datatype external_kind = Kind_Function | Kind_Table | Kind_Memory | Kind_Global | Kind_Other

record export_entry =
  ex_field :: string
  ex_kind :: external_kind
  ex_index :: nat

record func_body =
  fb_locals :: "(nat \<times> val_type) item list item"    \<comment> \<open>\<open>get_locals_reader\<close>\<close>
  fb_operators :: "(operator \<times> nat) item list item"  \<comment> \<open>\<open>get_operators_reader\<close>, with offsets\<close>
  fb_position :: nat                                \<comment> \<open>\<open>get_binary_reader().current_position()\<close>\<close>

datatype payload =
    P_End
  | P_MemorySection "memory_type item list"
  | P_TypeSection "type_def item list"
  | P_ImportSection "import_entry item list"
  | P_FunctionSection "nat item list"
  | P_ExportSection "export_entry item list"
  | P_CodeSectionEntry func_body
  | P_Version nat
  | P_AliasSection
  | P_InstanceSection
  | P_TableSection
  | P_TagSection
  | P_GlobalSection
  | P_StartSection nat
  | P_ElementSection
  | P_DataCountSection nat
  | P_DataSection
  | P_CustomSection
  | P_CodeSectionStart nat
  | P_ModuleSectionStart nat
  | P_ModuleSectionEntry
  | P_UnknownSection nat

datatype chunk = NeedMoreData nat | Parsed nat payload

record wasm_features =
  mutable_global :: bool
  saturating_float_to_int :: bool
  sign_extension :: bool
  reference_types :: bool
  multi_value :: bool
  bulk_memory :: bool
  module_linking :: bool
  simd :: bool
  relaxed_simd :: bool
  threads :: bool
  tail_call :: bool
  deterministic_only :: bool
  multi_memory :: bool
  exceptions :: bool
  use_memory64 :: bool
  extended_const :: bool

record ('p, 'v, 'f) wasmparser =
  new_parser :: 'p
  parse :: "'p \<Rightarrow> u8 list \<Rightarrow> bool \<Rightarrow> ('p \<times> chunk) item"
  new_validator :: "wasm_features \<Rightarrow> 'v"
  validate_section :: "'v \<Rightarrow> payload \<Rightarrow> 'v item"
  module_section_entry :: "'v \<Rightarrow> 'v"
  code_section_entry :: "'v \<Rightarrow> ('f \<times> 'v) item"
  define_locals :: "'f \<Rightarrow> nat \<Rightarrow> nat \<Rightarrow> val_type \<Rightarrow> 'f item"
  check_op :: "'f \<Rightarrow> nat \<Rightarrow> operator \<Rightarrow> 'f item"
  operand_stack_height :: "'f \<Rightarrow> nat"
  finish_function :: "'f \<Rightarrow> nat \<Rightarrow> unit item"

text \<open>The features \<open>compile\<close> turns on.\<close>

definition compiler_features :: wasm_features where
  "compiler_features = \<lparr>
     mutable_global = True, saturating_float_to_int = True, sign_extension = True,
     reference_types = True, multi_value = True, bulk_memory = True, module_linking = True,
     simd = True, relaxed_simd = True, threads = True, tail_call = True,
     deterministic_only = True, multi_memory = True, exceptions = True, use_memory64 = True,
     extended_const = False\<rparr>"

end
