(* ===== verification/X86_Machine.thy ===== *)
theory X86_Machine
  imports Assembler Byte_Order
begin

text \<open>
  The target machine: a reference semantics, after the processor manual, of the x86-64
  instructions the compiler emits. It is the yardstick for the compiler and is not
  modelled from the repository. A state has 64-bit registers and a byte-addressed memory
  whose addresses wrap at \<open>2 ^ 64\<close>; \<open>exec1\<close> is partial, and \<open>None\<close> is an instruction
  that does not exist in 64-bit mode (the 32-bit forms of \<open>push\<close> and \<open>pop\<close>) or that leaves
  straight-line code (\<open>ret\<close>, data).

  What a call does, from the call instruction to its return, is the parameter
  \<open>x86_env\<close>, so that a function body can be studied without the rest of the program; \<open>Program_Sound\<close>
  ties the knot. The environment also says where the stack is.
\<close>

unbundle bit_operations_syntax

section \<open>Memory\<close>

type_synonym memory = "u64 \<Rightarrow> u8"

definition read64 :: "memory \<Rightarrow> u64 \<Rightarrow> u64" where
  "read64 m a = le_decode (map (\<lambda>i. m (a + of_nat i)) [0..<8])"

definition write64 :: "memory \<Rightarrow> u64 \<Rightarrow> u64 \<Rightarrow> memory" where
  "write64 m a v = (\<lambda>b. if unat (b - a) < 8 then le64 v ! unat (b - a) else m b)"

text \<open>Two 8-byte slots that share no byte (in the circular address space).\<close>

definition apart :: "u64 \<Rightarrow> u64 \<Rightarrow> bool" where
  "apart a b = (8 \<le> unat (a - b) \<and> 8 \<le> unat (b - a))"

section \<open>States and instructions\<close>

record x86 =
  regs :: "register \<Rightarrow> u64"
  mem :: memory

record x86_env =
  call_to :: "label \<Rightarrow> x86 \<Rightarrow> x86 option"      \<comment> \<open>a call to a label of the block\<close>
  call_at :: "u64 \<Rightarrow> x86 \<Rightarrow> x86 option"       \<comment> \<open>a call through a register\<close>
  label_address :: "label \<Rightarrow> u64"
  stack_top :: u64                             \<comment> \<open>the memory for the stack: so many 8-byte slots below the top\<close>
  stack_size :: nat

definition set_reg :: "register \<Rightarrow> u64 \<Rightarrow> x86 \<Rightarrow> x86" where
  "set_reg r v s = s\<lparr>regs := (regs s)(r := v)\<rparr>"

definition set_mem :: "u64 \<Rightarrow> u64 \<Rightarrow> x86 \<Rightarrow> x86" where
  "set_mem a v s = s\<lparr>mem := write64 (mem s) a v\<rparr>"

fun address :: "x86_env \<Rightarrow> mem_operand \<Rightarrow> x86 \<Rightarrow> u64" where
  "address env (Mem sz b d) s = regs s b + word_of_int d"
| "address env (MemLabel l) s = label_address env l"

fun mem_ok :: "mem_operand \<Rightarrow> bool" where
  "mem_ok (Mem sz b d) = (sz \<noteq> Dword_ptr \<and> is_r64 b)"
| "mem_ok (MemLabel l) = True"

fun exec1 :: "x86_env \<Rightarrow> instr \<Rightarrow> x86 \<Rightarrow> x86 option" where
  "exec1 env (PUSH r) s =
     (if is_r64 r then Some (set_reg RSP (regs s RSP - 8) (set_mem (regs s RSP - 8) (regs s r) s))
      else None)"
| "exec1 env (POP r) s =
     (if is_r64 r
      then Some (set_reg r (read64 (mem s) (regs s RSP)) (set_reg RSP (regs s RSP + 8) s))
      else None)"
| "exec1 env (MOV_rr c d r) s =
     (if is_r64 d \<and> is_r64 r then Some (set_reg d (regs s r) s) else None)"
| "exec1 env (MOV_ri d v) s = (if is_r64 d then Some (set_reg d v s) else None)"
| "exec1 env (MOV_rm d m) s =
     (if is_r64 d \<and> mem_ok m then Some (set_reg d (read64 (mem s) (address env m s)) s) else None)"
| "exec1 env (MOV_mr m r) s =
     (if is_r64 r \<and> mem_ok m then Some (set_mem (address env m s) (regs s r) s) else None)"
| "exec1 env (ADD_rr d r) s =
     (if is_r64 d \<and> is_r64 r then Some (set_reg d (regs s d + regs s r) s) else None)"
| "exec1 env (SUB_rr d r) s =
     (if is_r64 d \<and> is_r64 r then Some (set_reg d (regs s d - regs s r) s) else None)"
| "exec1 env (SUB_imm32 d n) s =
     (if is_r64 d \<and> n < 2 ^ 31 then Some (set_reg d (regs s d - of_nat n) s) else None)"
| "exec1 env (ADD_imm32 d n) s =
     (if is_r64 d \<and> n < 2 ^ 31 then Some (set_reg d (regs s d + of_nat n) s) else None)"
| "exec1 env (CALL_label l) s = call_to env l s"
| "exec1 env (CALL_r r) s = (if is_r64 r then call_at env (regs s r) s else None)"
| "exec1 env NOP s = Some s"
| "exec1 env ZERO_BYTES s = Some s"
| "exec1 env RET s = None"
| "exec1 env (DQ vs) s = None"

fun run :: "x86_env \<Rightarrow> instr list \<Rightarrow> x86 \<Rightarrow> x86 option" where
  "run env [] s = Some s"
| "run env (i # is) s = (case exec1 env i s of None \<Rightarrow> None | Some s' \<Rightarrow> run env is s')"

text \<open>An environment in which nothing can be called.\<close>

definition no_calls :: x86_env where
  "no_calls = \<lparr>call_to = (\<lambda>l s. None), call_at = (\<lambda>a s. None), label_address = (\<lambda>l. 0),
     stack_top = 0, stack_size = 0\<rparr>"

section \<open>Lemmas\<close>

named_theorems machine_simps \<open>reading registers and memory after updates\<close>

lemma regs_set_reg [machine_simps]: "regs (set_reg r v s) r' = (if r' = r then v else regs s r')"
  by (simp add: set_reg_def)

lemma mem_set_reg [machine_simps]: "mem (set_reg r v s) = mem s"
  by (simp add: set_reg_def)

lemma regs_set_mem [machine_simps]: "regs (set_mem a v s) = regs s"
  by (simp add: set_mem_def)

lemma mem_set_mem [machine_simps]: "mem (set_mem a v s) = write64 (mem s) a v"
  by (simp add: set_mem_def)

lemma run_append:
  "run env (xs @ ys) s = (case run env xs s of None \<Rightarrow> None | Some s' \<Rightarrow> run env ys s')"
  by (induction xs arbitrary: s) (auto split: option.splits)

lemma unat_offset:
  assumes "i < 8"
  shows "unat (a + of_nat i - a :: u64) = i"
  using assms by (simp add: unat_of_nat)

lemma read_write_same [simp]: "read64 (write64 m a v) a = v"
proof -
  have "map (\<lambda>i. write64 m a v (a + of_nat i)) [0..<8] = le64 v"
    by (rule nth_equalityI) (simp_all add: write64_def unat_of_nat)
  then show ?thesis by (simp add: read64_def)
qed

lemma u64_less: "unat (x :: u64) < 18446744073709551616"
  by (rule order_less_le_trans [OF unsigned_less]) simp

lemma apart_sym: "apart a b = apart b a"
  by (auto simp: apart_def)

lemma apart_outside:
  assumes "apart a b" and "i < 8"
  shows "8 \<le> unat (b + of_nat i - a :: u64)"
proof -
  let ?d = "unat (b - a)"
  have "unat (a - b) \<le> 2 ^ 64 - ?d" if "a \<noteq> b"
    using u64_less [of a] u64_less [of b] by (auto simp: unat_sub_if')
  moreover have "a \<noteq> b" using assms(1) by (auto simp: apart_def)
  ultimately have d: "8 \<le> ?d" "?d \<le> 2 ^ 64 - 8"
    using assms(1) by (auto simp: apart_def)
  have "unat ((b - a) + of_nat i :: u64) = ?d + i"
  proof -
    have "?d + unat (of_nat i :: u64) < 2 ^ LENGTH(64)" using d assms(2) by (simp add: unat_of_nat)
    then show ?thesis using assms(2) by (simp add: unat_add_lem [THEN iffD1] unat_of_nat)
  qed
  moreover have "b + of_nat i - a = (b - a) + of_nat i" by simp
  ultimately have "unat (b + of_nat i - a) = ?d + i" by metis
  with d show ?thesis by linarith
qed

lemma read_write_apart: "apart a b \<Longrightarrow> read64 (write64 m a v) b = read64 m b"
  by (simp add: read64_def write64_def) (rule arg_cong [of _ _ le_decode], auto dest: apart_outside)

text \<open>A store that begins \<open>k\<close> bytes below a slot replaces the low part of the slot.\<close>

lemma bit_read64: "bit (read64 m a) j = (j < 64 \<and> bit (m (a + of_nat (j div 8))) (j mod 8))"
  by (auto simp: read64_def bit_le_decode)

lemma read_write_overlap:
  assumes "k \<le> 8"
  shows "read64 (write64 m (a - of_nat k) v) a = (read64 m a AND NOT (mask (8 * (8 - k)))) OR drop_bit (8 * k) v"
proof (rule bit_word_eqI)
  fix j :: nat assume "j < LENGTH(64)"
  then have j: "j < 64" by simp
  then have "unat (a + of_nat (j div 8) - (a - of_nat k) :: u64) = j div 8 + k"
  proof -
    have "a + of_nat (j div 8) - (a - of_nat k) = (of_nat (j div 8 + k) :: u64)" by simp
    moreover have "j div 8 + k < 2 ^ 64" using j assms by simp
    ultimately show ?thesis by (simp only: unat_of_nat) simp
  qed
  moreover have "(j div 8 + k < 8) = (j < 8 * (8 - k))" using assms by auto
  moreover have "\<not> bit v (8 * k + j)" if "8 * (8 - k) \<le> j"
    using that assms by (auto dest!: bit_imp_le_length)
  ultimately show "bit (read64 (write64 m (a - of_nat k) v) a) j
      = bit ((read64 m a AND NOT (mask (8 * (8 - k)))) OR drop_bit (8 * k) v) j"
    using j assms
    by (auto simp: bit_read64 write64_def nth_le_encode bit_simps not_less ac_simps simp del: of_nat_add)
qed

lemma apart_add: "apart (a + c) (b + c) = apart a b"
  by (simp add: apart_def)

end
