(* ===== verification/Optimizer.thy ===== *)
theory Optimizer
  imports Assembler
begin

text \<open>
  \<open>src/parawasm/src/x86_64/optimizer.rs\<close>: the peephole optimiser. \<open>optimize_loop\<close> makes one
  pass over the instruction list with three rules (\<open>PUSH\<close>/\<open>POP\<close> fused into a move, a pair
  of opposite moves dropped, a move to itself dropped) and keeps the label indices in step
  (\<open>update_labels\<close>); \<open>optimize\<close> repeats the pass until nothing changes.

  The first part is the code. The second part is the reference it is compared with:
  \<open>peephole\<close> and \<open>new_index\<close> say, without state, which instructions a pass leaves and
  where it moves a position; \<open>normal_form\<close> and \<open>track\<close> iterate them. The lemmas show
  that the code computes exactly these, that the outer loop ends, and that instructions
  which no rule matches cut the work into independent pieces.
\<close>

section \<open>The code\<close>

type_synonym label_indices = "(nat \<times> label) list"
type_synonym tracked = "(nat \<times> nat \<times> label) list"

definition update_labels :: "tracked \<Rightarrow> nat \<Rightarrow> int \<Rightarrow> tracked" where
  "update_labels labels head_idx count =
     map (\<lambda>(original_index, index, label).
            if original_index \<ge> head_idx
            then (original_index, cast_usize (cast_isize index + count), label)
            else (original_index, index, label)) labels"

text \<open>The three conditions of the pass.\<close>

definition push_pop :: "instr \<Rightarrow> instr \<Rightarrow> bool" where
  "push_pop i0 i1 = (code_of i0 = Push_r64 \<and> code_of i1 = Pop_r64)"

definition mov_swap :: "instr \<Rightarrow> instr \<Rightarrow> bool" where
  "mov_swap i0 i1 =
     (code_of i0 = Mov_rm64_r64 \<and> code_of i1 = Mov_rm64_r64
      \<and> op0_kind i0 = OpRegister \<and> op1_kind i0 = OpRegister
      \<and> op0_kind i1 = OpRegister \<and> op1_kind i1 = OpRegister
      \<and> op0_register i0 = op1_register i1 \<and> op0_register i1 = op1_register i0)"

definition mov_self :: "instr \<Rightarrow> bool" where
  "mov_self i0 =
     (code_of i0 = Mov_rm64_r64 \<and> op0_kind i0 = OpRegister \<and> op1_kind i0 = OpRegister
      \<and> op0_register i0 = op1_register i0)"

text \<open>The \<open>while head.len() > 0\<close> loop: \<open>head\<close>, \<open>head_idx\<close>, \<open>labels_\<close>, \<open>new_instructions\<close>.\<close>

fun optimize_while ::
  "iced \<Rightarrow> instr list \<Rightarrow> nat \<Rightarrow> tracked \<Rightarrow> code_assembler \<Rightarrow> (compile_error, tracked \<times> code_assembler) res"
where
  "optimize_while ic [] head_idx labels out = Ok (labels, out)"
| "optimize_while ic [i0] head_idx labels out =
     (if mov_self i0
      then optimize_while ic [] (head_idx + 1) (update_labels labels (head_idx + 1) (- 1)) out
      else and_then (add_instruction ic out i0)
             (\<lambda>out'. optimize_while ic [] (head_idx + 1) labels out'))"
| "optimize_while ic (i0 # i1 # rest) head_idx labels out =
     (if push_pop i0 i1
      then and_then
             (add_instruction ic out (MOV_rr Rm_r (op0_register i1) (op0_register i0)))
             (\<lambda>out'. optimize_while ic rest (head_idx + 2)
                       (update_labels labels (head_idx + 2) (- 1)) out')
      else if mov_swap i0 i1
      then optimize_while ic rest (head_idx + 2) (update_labels labels (head_idx + 2) (- 2)) out
      else if mov_self i0
      then optimize_while ic (i1 # rest) (head_idx + 1)
             (update_labels labels (head_idx + 1) (- 1)) out
      else and_then (add_instruction ic out i0)
             (\<lambda>out'. optimize_while ic (i1 # rest) (head_idx + 1) labels out'))"

definition optimize_loop ::
  "iced \<Rightarrow> instr list \<Rightarrow> label_indices \<Rightarrow> (compile_error, instr list \<times> label_indices) res" where
  "optimize_loop ic is labels =
     and_then (new_asm ic) (\<lambda>new_instructions.
     and_then (optimize_while ic is 0 (map (\<lambda>(index, label). (index, index, label)) labels)
                 new_instructions)
       (\<lambda>(labels', out). Ok (fst (take_instructions out), map (\<lambda>(_, index, label). (index, label)) labels')))"

section \<open>The reference: what a pass leaves, and where positions go\<close>

fun peephole :: "instr list \<Rightarrow> instr list" where
  "peephole [] = []"
| "peephole [i0] = (if mov_self i0 then [] else [i0])"
| "peephole (i0 # i1 # rest) =
     (if push_pop i0 i1 then MOV_rr Rm_r (op0_register i1) (op0_register i0) # peephole rest
      else if mov_swap i0 i1 then peephole rest
      else if mov_self i0 then peephole (i1 # rest)
      else i0 # peephole (i1 # rest))"

fun new_index :: "instr list \<Rightarrow> nat \<Rightarrow> nat" where
  "new_index [] n = n"
| "new_index [i0] n = (if n = 0 then 0 else if mov_self i0 then n - 1 else n)"
| "new_index (i0 # i1 # rest) n =
     (if push_pop i0 i1 then (if n < 2 then n else Suc (new_index rest (n - 2)))
      else if mov_swap i0 i1 then (if n < 2 then n else new_index rest (n - 2))
      else if n = 0 then 0
      else if mov_self i0 then new_index (i1 # rest) (n - 1)
      else Suc (new_index (i1 # rest) (n - 1)))"

text \<open>Instructions that no rule of the pass matches, in either position.\<close>

definition inert :: "instr \<Rightarrow> bool" where
  "inert i = (code_of i \<noteq> Push_r64 \<and> code_of i \<noteq> Pop_r64
     \<and> \<not> (code_of i = Mov_rm64_r64 \<and> op0_kind i = OpRegister \<and> op1_kind i = OpRegister))"

section \<open>A pass shortens the list or leaves it alone\<close>

lemma peephole_length: "length (peephole is) \<le> length is"
  by (induction "is" rule: peephole.induct) auto

lemma peephole_shorter: "peephole is \<noteq> is \<Longrightarrow> length (peephole is) < length is"
proof (induction "is" rule: peephole.induct)
  case (3 i0 i1 rest)
  then show ?case
    using peephole_length [of rest] peephole_length [of "i1 # rest"]
    by (auto simp: le_imp_less_Suc less_Suc_eq_le split: if_splits)
qed (auto split: if_splits)

lemma optimize_while_instructions:
  "optimize_while ic is h ls a = Ok (ls', b) \<Longrightarrow> instructions b = instructions a @ peephole is"
proof (induction ic "is" h ls a arbitrary: ls' b rule: optimize_while.induct)
  case (3 ic i0 i1 rest h ls a)
  then show ?case
    by (fastforce simp: res_simps dest: add_instruction_Ok(1) split: if_splits)
qed (auto simp: res_simps dest: add_instruction_Ok(1) split: if_splits)

lemma new_asm_Ok: "new_asm ic = Ok a \<Longrightarrow> instructions a = []"
  by (auto simp: new_asm_def instructions_def res_simps)

lemma optimize_loop_instructions:
  "optimize_loop ic is labels = Ok (is', labels') \<Longrightarrow> is' = peephole is"
  by (auto simp: optimize_loop_def take_instructions_def res_simps new_asm_Ok
      dest!: optimize_while_instructions)

section \<open>The outer loop\<close>

function optimize ::
  "iced \<Rightarrow> instr list \<Rightarrow> label_indices \<Rightarrow> (compile_error, instr list \<times> label_indices) res" where
  "optimize ic current labels =
     (case optimize_loop ic current labels of
        Ok (opt_instructions, labels') \<Rightarrow>
          (if opt_instructions = current then Ok (current, labels')
           else optimize ic opt_instructions labels')
      | Err e \<Rightarrow> Err e
      | Panic m \<Rightarrow> Panic m)"
  by pat_completeness auto
termination
  by (relation "measure (\<lambda>(ic, current, labels). length current)")
    (auto dest!: optimize_loop_instructions intro: peephole_shorter)

declare optimize.simps [simp del]

function normal_form :: "instr list \<Rightarrow> instr list" where
  "normal_form is = (if peephole is = is then is else normal_form (peephole is))"
  by pat_completeness auto
termination
  by (relation "measure length") (auto intro: peephole_shorter)

function track :: "instr list \<Rightarrow> nat \<Rightarrow> nat" where
  "track is n = (if peephole is = is then new_index is n else track (peephole is) (new_index is n))"
  by pat_completeness auto
termination
  by (relation "measure (\<lambda>(is, n). length is)") (auto intro: peephole_shorter)

declare normal_form.simps [simp del] track.simps [simp del]

section \<open>Labels stay in step\<close>

text \<open>
  While the pass runs, a label at or after the head has index \<open>c + (original_index - head_idx)\<close>,
  where \<open>c\<close> is the number of instructions emitted so far.
\<close>

definition in_step :: "nat \<Rightarrow> nat \<Rightarrow> tracked \<Rightarrow> bool" where
  "in_step h c ls = (c \<le> h \<and>
     (\<forall>(orig, idx, l) \<in> set ls. orig < 2 ^ 63 \<and> (h \<le> orig \<longrightarrow> idx = c + (orig - h))))"

definition retarget :: "nat \<Rightarrow> nat \<Rightarrow> (nat \<Rightarrow> nat) \<Rightarrow> tracked \<Rightarrow> tracked" where
  "retarget h c f = map (\<lambda>(orig, idx, l).
     if h \<le> orig then (orig, c + f (orig - h), l) else (orig, idx, l))"

lemma update_labels_zero: "in_step h c ls \<Longrightarrow> update_labels ls (h + w) (- int 0) = ls"
  unfolding update_labels_def in_step_def
  by (rule map_idI) (use cast_back [of _ 0] in fastforce)

lemma update_labels_in_step:
  assumes ls: "in_step h c ls" and "k \<le> w"
  shows "in_step (h + w) (c + (w - k)) (update_labels ls (h + w) (- int k))"
proof -
  have step: "cast_usize (cast_isize idx + - int k) = c + (w - k) + (orig - (h + w))"
    if "(orig, idx, l) \<in> set ls" "h + w \<le> orig" for orig idx l
  proof -
    from that ls have "idx = c + (orig - h)" "orig < 2 ^ 63" "c \<le> h"
      by (auto simp: in_step_def)
    with that assms(2) show ?thesis by (subst cast_back) auto
  qed
  from ls have "c \<le> h" by (simp add: in_step_def)
  then have "c + (w - k) \<le> h + w" by linarith
  moreover have "orig < 2 ^ 63 \<and> (h + w \<le> orig \<longrightarrow> idx = c + (w - k) + (orig - (h + w)))"
    if "(orig, idx, l) \<in> set (update_labels ls (h + w) (- int k))" for orig idx l
  proof -
    from that obtain idx0 where mem: "(orig, idx0, l) \<in> set ls"
      and eq: "h + w \<le> orig \<longrightarrow> idx = cast_usize (cast_isize idx0 + - int k)"
      by (auto simp: update_labels_def split: if_splits)
    from mem ls have "orig < 2 ^ 63" by (auto simp: in_step_def)
    with eq step [OF mem] show ?thesis by simp
  qed
  ultimately show ?thesis by (auto simp: in_step_def)
qed

lemma retarget_update:
  assumes ls: "in_step h c ls" and "k \<le> w"
    and low: "\<And>n. n < w \<Longrightarrow> f n = n" and high: "\<And>n. w \<le> n \<Longrightarrow> f n = (w - k) + g (n - w)"
  shows "retarget (h + w) (c + (w - k)) g (update_labels ls (h + w) (- int k)) = retarget h c f ls"
  unfolding retarget_def update_labels_def map_map
proof (rule map_cong [OF refl])
  fix x
  assume x: "x \<in> set ls"
  obtain orig idx l where xeq: "x = (orig, idx, l)" by (cases x)
  with x ls have idx: "h \<le> orig \<longrightarrow> idx = c + (orig - h)" by (auto simp: in_step_def)
  consider "orig < h" | "h \<le> orig" "orig < h + w" | "h + w \<le> orig" by linarith
  then show "((\<lambda>(orig, idx, l). if h + w \<le> orig then (orig, c + (w - k) + g (orig - (h + w)), l) else (orig, idx, l))
      \<circ> (\<lambda>(orig, idx, l). if h + w \<le> orig then (orig, cast_usize (cast_isize idx + - int k), l) else (orig, idx, l))) x
    = (case x of (orig, idx, l) \<Rightarrow> if h \<le> orig then (orig, c + f (orig - h), l) else (orig, idx, l))"
  proof cases
    case 2
    then have "f (orig - h) = orig - h" by (intro low) simp
    with 2 idx xeq show ?thesis by simp
  next
    case 3
    then have "f (orig - h) = (w - k) + g (orig - (h + w))" by (subst high) auto
    with 3 xeq show ?thesis by simp
  qed (simp add: xeq)
qed


lemma retarget_Nil: "in_step h c ls \<Longrightarrow> retarget h c (new_index []) ls = ls"
  by (auto simp: retarget_def in_step_def intro!: map_idI)

lemma optimize_while_labels:
  "optimize_while ic is h ls a = Ok (ls', b) \<Longrightarrow> in_step h c ls \<Longrightarrow> ls' = retarget h c (new_index is) ls"
proof (induction ic "is" h ls a arbitrary: c ls' b rule: optimize_while.induct)
  case (1 ic h ls a)
  then show ?case by (simp add: retarget_Nil del: new_index.simps)
next
  case (2 ic i0 h ls a)
  note step = update_labels_in_step [OF "2.prems"(2)] and zero = update_labels_zero [OF "2.prems"(2)]
  show ?case
  proof (cases "mov_self i0")
    case True
    with 2 have "ls' = update_labels ls (h + 1) (- int 1)" by simp
    also have "\<dots> = retarget (h + 1) (c + (1 - 1)) (new_index []) (update_labels ls (h + 1) (- int 1))"
      by (rule retarget_Nil [OF step, symmetric]) simp
    also have "\<dots> = retarget h c (new_index [i0]) ls"
      by (rule retarget_update) (use 2 True in auto)
    finally show ?thesis .
  next
    case False
    with 2 zero [of 1] have "ls' = update_labels ls (h + 1) (- int 0)" by (auto simp: res_simps)
    also have "\<dots> = retarget (h + 1) (c + (1 - 0)) (new_index []) (update_labels ls (h + 1) (- int 0))"
      by (rule retarget_Nil [OF step, symmetric]) simp
    also have "\<dots> = retarget h c (new_index [i0]) ls"
      by (rule retarget_update) (use 2 False in auto)
    finally show ?thesis .
  qed
next
  case (3 ic i0 i1 rest h ls a)
  note step = update_labels_in_step [OF "3.prems"(2)] and zero = update_labels_zero [OF "3.prems"(2)]
  consider (pp) "push_pop i0 i1" | (sw) "\<not> push_pop i0 i1" "mov_swap i0 i1"
    | (self) "\<not> push_pop i0 i1" "\<not> mov_swap i0 i1" "mov_self i0"
    | (keep) "\<not> push_pop i0 i1" "\<not> mov_swap i0 i1" "\<not> mov_self i0" by blast
  then show ?case
  proof cases
    case pp
    with 3 step [of 1 2]
    have "ls' = retarget (h + 2) (c + (2 - 1)) (new_index rest) (update_labels ls (h + 2) (- int 1))"
      by (auto simp: res_simps)
    also have "\<dots> = retarget h c (new_index (i0 # i1 # rest)) ls"
      by (rule retarget_update) (use 3 pp in auto)
    finally show ?thesis .
  next
    case sw
    with 3 step [of 2 2]
    have "ls' = retarget (h + 2) (c + (2 - 2)) (new_index rest) (update_labels ls (h + 2) (- int 2))"
      by (auto simp: res_simps)
    also have "\<dots> = retarget h c (new_index (i0 # i1 # rest)) ls"
      by (rule retarget_update) (use 3 sw in auto)
    finally show ?thesis .
  next
    case self
    with 3 step [of 1 1]
    have "ls' = retarget (h + 1) (c + (1 - 1)) (new_index (i1 # rest)) (update_labels ls (h + 1) (- int 1))"
      by (auto simp: res_simps)
    also have "\<dots> = retarget h c (new_index (i0 # i1 # rest)) ls"
      by (rule retarget_update) (use 3 self in auto)
    finally show ?thesis .
  next
    case keep
    with 3 step [of 0 1] zero [of 1]
    have "ls' = retarget (h + 1) (c + (1 - 0)) (new_index (i1 # rest)) (update_labels ls (h + 1) (- int 0))"
      by (auto simp: res_simps)
    also have "\<dots> = retarget h c (new_index (i0 # i1 # rest)) ls"
      by (rule retarget_update) (use 3 keep in auto)
    finally show ?thesis .
  qed
qed

definition indices_ok :: "label_indices \<Rightarrow> bool" where
  "indices_ok labels = (\<forall>(i, l) \<in> set labels. i < 2 ^ 63)"

lemma optimize_loop_Ok:
  assumes "optimize_loop ic is labels = Ok (is', labels')" and "indices_ok labels"
  shows "is' = peephole is \<and> labels' = map (\<lambda>(i, l). (new_index is i, l)) labels"
proof -
  let ?ls = "map (\<lambda>(index, label). (index, index, label)) labels"
  from assms obtain a ls' b where a: "new_asm ic = Ok a"
    and w: "optimize_while ic is 0 ?ls a = Ok (ls', b)"
    and eqs: "is' = instructions b" "labels' = map (\<lambda>(_, index, label). (index, label)) ls'"
    by (auto simp: optimize_loop_def take_instructions_def res_simps)
  have "in_step 0 0 ?ls" using assms(2) by (auto simp: in_step_def indices_ok_def)
  from optimize_while_labels [OF w this] eqs(2)
  have "labels' = map (\<lambda>(i, l). (new_index is i, l)) labels"
    by (auto simp: retarget_def)
  with optimize_while_instructions [OF w] new_asm_Ok [OF a] eqs(1) show ?thesis by simp
qed

section \<open>The whole optimiser computes the reference\<close>

lemma new_index_le: "new_index is n \<le> n"
proof (induction "is" n rule: new_index.induct)
  case (3 i0 i1 rest n)
  then show ?case by (fastforce split: if_splits)
qed auto

lemma indices_ok_new_index:
  "indices_ok labels \<Longrightarrow> indices_ok (map (\<lambda>(i, l). (new_index is i, l)) labels)"
  by (auto simp: indices_ok_def intro: le_less_trans [OF new_index_le])

lemma optimize_Ok:
  "optimize ic is labels = Ok (is', labels') \<Longrightarrow> indices_ok labels \<Longrightarrow>
     is' = normal_form is \<and> labels' = map (\<lambda>(i, l). (track is i, l)) labels"
proof (induction ic "is" labels rule: optimize.induct)
  case (1 ic "is" labels)
  from "1.prems"(1) obtain is1 labels1 where pass: "optimize_loop ic is labels = Ok (is1, labels1)"
    by (subst (asm) optimize.simps) (auto split: res.splits)
  from optimize_loop_Ok [OF this "1.prems"(2)] have one:
    "is1 = peephole is" "labels1 = map (\<lambda>(i, l). (new_index is i, l)) labels" by auto
  show ?case
  proof (cases "is1 = is")
    case True
    with "1.prems"(1) pass have "is' = is" "labels' = labels1"
      by (subst (asm) optimize.simps, simp)+
    with one True show ?thesis
      by (auto simp: normal_form.simps [of "is"] track.simps [of "is"])
  next
    case False
    with "1.prems"(1) pass have "optimize ic is1 labels1 = Ok (is', labels')"
      by (subst (asm) optimize.simps) simp
    from "1.IH" [OF pass refl False this] one False "1.prems"(2) indices_ok_new_index show ?thesis
      by (auto simp: normal_form.simps [of "is"] track.simps [of "is"])
  qed
qed

text \<open>What the assembler must take for the optimiser not to fail.\<close>

definition accepts :: "iced \<Rightarrow> instr list \<Rightarrow> bool" where
  "accepts ic is = (new_assembler ic = None \<and> (\<forall>i \<in> set is. refuses ic i = None))"

definition accepts_moves :: "iced \<Rightarrow> bool" where
  "accepts_moves ic = (\<forall>d s. is_r64 d \<longrightarrow> is_r64 s \<longrightarrow> refuses ic (MOV_rr Rm_r d s) = None)"

lemma push_pop_regs: "push_pop i0 i1 \<Longrightarrow> \<exists>s d. i0 = PUSH s \<and> i1 = POP d \<and> is_r64 s \<and> is_r64 d"
  by (cases i0; cases i1) (auto simp: push_pop_def split: if_splits)

lemma optimize_while_total:
  "accepts ic is \<Longrightarrow> accepts_moves ic \<Longrightarrow>
     \<exists>ls' b. optimize_while ic is h ls a = Ok (ls', b) \<and> accepts ic (peephole is)"
proof (induction ic "is" h ls a rule: optimize_while.induct)
  case (3 ic i0 i1 rest h ls a)
  consider (pp) "push_pop i0 i1" | (other) "\<not> push_pop i0 i1" by blast
  then show ?case
  proof cases
    case pp
    then obtain s d where "i0 = PUSH s" "i1 = POP d" "is_r64 s" "is_r64 d"
      using push_pop_regs by blast
    with "3.prems" have acc: "accepts ic rest" "refuses ic (MOV_rr Rm_r d s) = None"
      by (auto simp: accepts_def accepts_moves_def)
    then obtain a1 where a1: "add_instruction ic a (MOV_rr Rm_r d s) = Ok a1"
      by (simp add: add_instruction_def)
    from "3.IH"(1) [OF pp acc(1) "3.prems"(2)]
    have "\<exists>ls' b. optimize_while ic rest (h + 2) (update_labels ls (h + 2) (- 1)) a1 = Ok (ls', b)"
      and "accepts ic (peephole rest)" by blast+
    with a1 acc pp \<open>i0 = PUSH s\<close> \<open>i1 = POP d\<close> show ?thesis by (simp add: accepts_def)
  next
    case other
    with "3.prems" "3.IH"(2-4) show ?thesis
      by (auto simp: accepts_def add_instruction_def)
  qed
qed (auto simp: accepts_def add_instruction_def)

lemma optimize_total:
  "accepts ic is \<Longrightarrow> accepts_moves ic \<Longrightarrow> \<exists>is' labels'. optimize ic is labels = Ok (is', labels')"
proof (induction ic "is" labels rule: optimize.induct)
  case (1 ic "is" labels)
  from optimize_while_total [OF "1.prems"] "1.prems"(1)
  obtain labels1 where pass: "optimize_loop ic is labels = Ok (peephole is, labels1)"
      and acc: "accepts ic (peephole is)"
    by (fastforce simp: optimize_loop_def new_asm_def accepts_def res_simps take_instructions_def
        instructions_def dest: optimize_while_instructions)
  show ?case
  proof (cases "peephole is = is")
    case True
    with pass show ?thesis by (subst optimize.simps) simp
  next
    case False
    from "1.IH" [OF pass refl False acc "1.prems"(2)] pass False show ?thesis
      by (subst optimize.simps) simp
  qed
qed

section \<open>Nothing is left to optimise\<close>

fun redex_free :: "instr list \<Rightarrow> bool" where
  "redex_free [] = True"
| "redex_free [i0] = (\<not> mov_self i0)"
| "redex_free (i0 # i1 # rest) =
     (\<not> push_pop i0 i1 \<and> \<not> mov_swap i0 i1 \<and> \<not> mov_self i0 \<and> redex_free (i1 # rest))"

lemma peephole_fixpoint_iff: "(peephole is = is) = redex_free is"
proof (induction "is" rule: redex_free.induct)
  case (3 i0 i1 rest)
  have "peephole rest \<noteq> i0 # i1 # rest" "peephole (i1 # rest) \<noteq> i0 # i1 # rest"
    "peephole rest \<noteq> i1 # rest"
    using peephole_length [of rest] peephole_length [of "i1 # rest"] by auto
  with 3 show ?case by auto
qed auto

lemma redex_free_normal_form: "redex_free (normal_form is)"
proof (induction "is" rule: normal_form.induct)
  case (1 "is")
  then show ?case
    by (cases "peephole is = is") (auto simp: normal_form.simps [of "is"] peephole_fixpoint_iff)
qed

text \<open>
  What holds of each pass holds of the iteration: a relation that is reflexive and
  transitive and that relates the input of a pass to its output, under a precondition
  that passes keep.
\<close>

locale pass_relation =
  fixes pre :: "instr list \<Rightarrow> bool" and rel :: "instr list \<Rightarrow> instr list \<Rightarrow> bool"
  assumes rel_refl: "rel xs xs"
    and rel_trans: "rel xs ys \<Longrightarrow> rel ys zs \<Longrightarrow> rel xs zs"
    and pre_pass: "pre xs \<Longrightarrow> pre (peephole xs)"
    and rel_pass: "pre xs \<Longrightarrow> rel xs (peephole xs)"
begin

lemma rel_normal_form: "pre xs \<Longrightarrow> pre (normal_form xs) \<and> rel xs (normal_form xs)"
proof (induction xs rule: normal_form.induct)
  case (1 xs)
  show ?case
  proof (cases "peephole xs = xs")
    case True
    with 1 show ?thesis by (simp add: normal_form.simps [of xs] rel_refl)
  next
    case False
    with 1 have "pre (normal_form (peephole xs)) \<and> rel (peephole xs) (normal_form (peephole xs))"
      by (simp add: pre_pass)
    with False rel_trans [OF rel_pass [OF "1.prems"]] show ?thesis
      by (simp add: normal_form.simps [of xs])
  qed
qed

end

interpretation shrinks: pass_relation "\<lambda>_. True" "\<lambda>xs ys. length ys \<le> length xs"
  by unfold_locales (auto intro: peephole_length)

text \<open>Instructions that no rule matches survive, in their order.\<close>

lemma filter_inert_peephole: "filter inert (peephole is) = filter inert is"
proof (induction "is" rule: peephole.induct)
  case (2 i0)
  then show ?case by (auto simp: mov_self_def inert_def)
next
  case (3 i0 i1 rest)
  have "push_pop i0 i1 \<Longrightarrow> \<not> inert i0 \<and> \<not> inert i1" "mov_swap i0 i1 \<Longrightarrow> \<not> inert i0 \<and> \<not> inert i1"
    "mov_self i0 \<Longrightarrow> \<not> inert i0" "\<not> inert (MOV_rr Rm_r d r)" for d r
    by (auto simp: push_pop_def mov_swap_def mov_self_def inert_def)
  with 3 show ?case by auto
qed simp

interpretation keeps_inert: pass_relation "\<lambda>_. True" "\<lambda>xs ys. filter inert ys = filter inert xs"
  by unfold_locales (auto simp: filter_inert_peephole)

lemma new_index_fixpoint: "redex_free is \<Longrightarrow> new_index is n = n"
  by (induction "is" n rule: new_index.induct) auto

lemma normal_form_peephole: "normal_form (peephole is) = normal_form is"
  by (cases "peephole is = is") (simp_all add: normal_form.simps [of "is"])

lemma track_fixpoint: "peephole is = is \<Longrightarrow> track is n = n"
  by (simp add: track.simps [of "is"] new_index_fixpoint peephole_fixpoint_iff)

lemma track_peephole: "track (peephole is) (new_index is n) = track is n"
proof (cases "peephole is = is")
  case True
  then have "new_index is n = n" by (simp add: new_index_fixpoint peephole_fixpoint_iff)
  with True show ?thesis by simp
qed (simp add: track.simps [of "is"])

section \<open>Inert instructions cut the work into pieces\<close>

lemma inert_no_redex:
  assumes "inert b"
  shows "\<not> push_pop b i" "\<not> push_pop i b" "\<not> mov_swap b i" "\<not> mov_swap i b" "\<not> mov_self b"
  using assms by (auto simp: inert_def push_pop_def mov_swap_def mov_self_def)

lemma peephole_inert_Cons: "inert b \<Longrightarrow> peephole (b # ys) = b # peephole ys"
  by (cases ys) (simp_all add: inert_no_redex)

lemma new_index_inert_Cons: "inert b \<Longrightarrow> new_index (b # ys) (Suc j) = Suc (new_index ys j)"
  by (cases ys) (simp_all add: inert_no_redex)

lemma peephole_inert: "inert b \<Longrightarrow> peephole (xs @ b # ys) = peephole xs @ b # peephole ys"
  by (induction xs rule: peephole.induct) (auto simp: peephole_inert_Cons inert_no_redex)

lemma new_index_inert:
  "inert b \<Longrightarrow> new_index (xs @ b # ys) (length xs + Suc j) = length (peephole xs) + Suc (new_index ys j)"
  by (induction xs rule: peephole.induct)
    (auto simp: new_index_inert_Cons peephole_inert_Cons inert_no_redex)

lemma peephole_inert_fixpoint:
  assumes "inert b" and "peephole (xs @ b # ys) = xs @ b # ys"
  shows "peephole xs = xs" "peephole ys = ys"
proof -
  from assms have eq: "peephole xs @ b # peephole ys = xs @ b # ys" by (simp add: peephole_inert)
  have "length (peephole xs) = length xs"
    using arg_cong [OF eq, of length] peephole_length [of xs] peephole_length [of ys] by simp
  with eq show "peephole xs = xs" "peephole ys = ys" by simp_all
qed

lemma optimised_piecewise:
  assumes "inert b"
  shows "normal_form (xs @ b # ys) = normal_form xs @ b # normal_form ys
    \<and> (\<forall>j. track (xs @ b # ys) (length xs + Suc j) = length (normal_form xs) + Suc (track ys j))"
proof (induction "length (xs @ b # ys)" arbitrary: xs ys rule: less_induct)
  case less
  let ?all = "xs @ b # ys"
  show ?case
  proof (cases "peephole ?all = ?all")
    case True
    with assms peephole_inert_fixpoint have "peephole xs = xs" "peephole ys = ys" by blast+
    with True show ?thesis
      by (simp add: normal_form.simps [of ?all] normal_form.simps [of xs] normal_form.simps [of ys]
          track_fixpoint)
  next
    case False
    with peephole_shorter [of ?all] assms have
      "length (peephole xs @ b # peephole ys) < length ?all" by (simp add: peephole_inert)
    from less [OF this] have IH:
      "normal_form (peephole ?all) = normal_form xs @ b # normal_form ys"
      "\<And>j. track (peephole ?all) (length (peephole xs) + Suc j)
         = length (normal_form xs) + Suc (track (peephole ys) j)"
      by (simp_all add: assms peephole_inert normal_form_peephole)
    have "track ?all (length xs + Suc j) = length (normal_form xs) + Suc (track ys j)" for j
      using track_peephole [of ?all "length xs + Suc j"] IH(2) [of "new_index ys j"]
        new_index_inert [OF assms, of xs ys j] track_peephole [of ys j] by argo
    with IH(1) show ?thesis by (simp add: normal_form_peephole)
  qed
qed

lemmas normal_form_inert = optimised_piecewise [THEN conjunct1]
lemmas track_inert = optimised_piecewise [THEN conjunct2, rule_format]

section \<open>Properties of the optimiser\<close>

lemma track_0 [simp]: "track is 0 = 0"
proof (induction "is" "0 :: nat" rule: track.induct)
  case (1 "is")
  have "new_index is 0 = 0" using new_index_le [of "is" 0] by simp
  with 1 show ?case by (simp add: track.simps [of "is" 0])
qed

lemma optimize_computes:
  assumes "accepts ic is" and "accepts_moves ic" and "indices_ok labels"
  shows "optimize ic is labels = Ok (normal_form is, map (\<lambda>(i, l). (track is i, l)) labels)"
  using optimize_total [OF assms(1,2), of labels] optimize_Ok assms(3) by blast

lemma normal_form_idem: "normal_form (normal_form is) = normal_form is"
  using redex_free_normal_form [of "is"] by (simp add: normal_form.simps [of "normal_form is"] peephole_fixpoint_iff)

text \<open>An assembler that takes everything, for the concrete instances.\<close>

definition accepting :: iced where
  "accepting = \<lparr>new_assembler = None, mov_rr_code = Rm_r, refuses = (\<lambda>_. None),
     refuses_label = (\<lambda>_ _ _. None), encode = (\<lambda>_. Inr []), label_ip = (\<lambda>_ _. Inr 0)\<rparr>"

lemma accepting_simps [simp]:
  "new_assembler accepting = None" "mov_rr_code accepting = Rm_r" "refuses accepting i = None"
  "refuses_label accepting ls p l = None" "accepts accepting is" "accepts_moves accepting"
  by (simp_all add: accepting_def accepts_def accepts_moves_def)

text \<open>C6. The optimiser always ends, and with an assembler that takes the instructions it
  returns exactly the reference result: the instructions of the iterated rewriting
  \<open>normal_form\<close>, and for every label the position that \<open>track\<close> follows through the passes.\<close>

theorem optimize_refines_normal_form:
  assumes "accepts ic is" and "accepts_moves ic" and "indices_ok labels"
  shows "optimize ic is labels = Ok (normal_form is, map (\<lambda>(i, l). (track is i, l)) labels)"
  using assms by (rule optimize_computes)

theorem optimize_refines_normal_form_witness:
  "optimize accepting [PUSH RAX, POP RAX, RET, PUSH RBP] [(3, 7)]
     = Ok (normal_form [PUSH RAX, POP RAX, RET, PUSH RBP],
           [(track [PUSH RAX, POP RAX, RET, PUSH RBP] 3, 7)])"
  using optimize_refines_normal_form [of accepting "[PUSH RAX, POP RAX, RET, PUSH RBP]" "[(3, 7)]"]
  by (simp add: indices_ok_def)

text \<open>What the optimiser returns has nothing left to rewrite (no \<open>PUSH\<close> before a \<open>POP\<close>,
  no opposite moves, no move to itself), is not longer than the input, keeps every
  instruction no rule matches in its order, and is returned unchanged by a second run.\<close>

theorem optimize_result:
  assumes "optimize ic is labels = Ok (is', labels')" and "indices_ok labels"
  shows "redex_free is' \<and> length is' \<le> length is \<and> filter inert is' = filter inert is
    \<and> (\<forall>labels2. accepts ic is' \<longrightarrow> accepts_moves ic \<longrightarrow> indices_ok labels2 \<longrightarrow>
         optimize ic is' labels2 = Ok (is', labels2))"
proof -
  have is': "is' = normal_form is" using optimize_Ok [OF assms] by simp
  have fix_is': "peephole is' = is'" by (simp add: is' redex_free_normal_form peephole_fixpoint_iff)
  have "optimize ic is' labels2 = Ok (is', labels2)"
    if "accepts ic is'" "accepts_moves ic" "indices_ok labels2" for labels2
    using optimize_computes [OF that] track_fixpoint [OF fix_is'] normal_form_idem [of "is"]
    by (simp add: is' split_def)
  then show ?thesis
    using shrinks.rel_normal_form [of "is"] keeps_inert.rel_normal_form [of "is"]
    by (simp add: is' redex_free_normal_form)
qed

lemma optimize_example:
  "optimize accepting [PUSH RAX, POP RBX, RET] [(2, 5)] = Ok ([MOV_rr Rm_r RBX RAX, RET], [(1, 5)])"
  by (simp add: optimize.simps optimize_loop_def new_asm_def push_pop_def mov_swap_def mov_self_def
      add_instruction_def update_labels_def take_instructions_def instructions_def cast_isize_def
      cast_usize_def)

theorem optimize_result_witness:
  "redex_free [MOV_rr Rm_r RBX RAX, RET]
   \<and> filter inert [MOV_rr Rm_r RBX RAX, RET] = filter inert [PUSH RAX, POP RBX, RET]
   \<and> optimize accepting [MOV_rr Rm_r RBX RAX, RET] [] = Ok ([MOV_rr Rm_r RBX RAX, RET], [])"
  using optimize_result [OF optimize_example] by (simp add: indices_ok_def)

text \<open>C24. Labels survive the optimiser: where a label marks the instruction after an inert
  one (a function body starts after a \<open>ret\<close> or after the table of quadwords), it marks afterwards the first instruction of what that part of the code became,
  and the two parts are optimised independently.\<close>

theorem optimize_keeps_labels:
  assumes "inert b" and "optimize ic (xs @ b # ys) labels = Ok (is', labels')"
    and "indices_ok labels" and "(Suc (length xs), l) \<in> set labels"
  shows "is' = (normal_form xs @ [b]) @ normal_form ys
    \<and> (length (normal_form xs @ [b]), l) \<in> set labels'"
proof -
  from optimize_Ok [OF assms(2,3)] have eqs: "is' = normal_form (xs @ b # ys)"
    "labels' = map (\<lambda>(i, l). (track (xs @ b # ys) i, l)) labels" by auto
  have "track (xs @ b # ys) (Suc (length xs)) = Suc (length (normal_form xs))"
    using track_inert [OF assms(1), of xs ys 0] by simp
  with assms(4) have "(Suc (length (normal_form xs)), l) \<in> set labels'"
    unfolding eqs(2) by force
  with eqs(1) normal_form_inert [OF assms(1)] show ?thesis by simp
qed

lemma optimize_label_example:
  "optimize accepting ([PUSH RAX, POP RAX] @ RET # [PUSH RBP]) [(3, 5)] = Ok ([RET, PUSH RBP], [(1, 5)])"
  by (simp add: optimize.simps optimize_loop_def new_asm_def push_pop_def mov_swap_def mov_self_def
      add_instruction_def update_labels_def take_instructions_def instructions_def cast_isize_def
      cast_usize_def)

theorem optimize_keeps_labels_witness:
  "(length (normal_form [PUSH RAX, POP RAX] @ [RET]), 5) \<in> set [(1, 5::label)]"
  using optimize_keeps_labels [OF _ optimize_label_example, of 5]
  by (simp add: inert_def indices_ok_def)

end
