(* ===== verification/Peephole_Sound.thy ===== *)
theory Peephole_Sound
  imports Optimizer X86_Machine
begin

text \<open>
  What the optimiser does to the meaning of straight-line code. A fused \<open>PUSH\<close>/\<open>POP\<close> no
  longer writes the stack slot it used to free, so memory may differ there: \<open>agree D s t\<close>
  says that the states have the same registers and the same memory outside the freed
  slots \<open>D\<close>. Code is \<open>disciplined\<close> when it never reads a slot after popping it; \<open>popped\<close>
  keeps the set of such slots. A call may leave anything below the stack pointer, and must not
  depend on what it finds there.

  The rule that drops a pair of opposite moves is sound only where both registers already
  hold the same value; \<open>swap_free\<close> is a condition on the registers of the pushes, pops
  and moves under which the rule never fires on distinct registers, in any pass.
\<close>

section \<open>Freed stack slots\<close>

definition untouched :: "u64 set \<Rightarrow> u64 \<Rightarrow> bool" where
  "untouched D a = (\<forall>b \<in> D. 8 \<le> unat (a - b))"

definition agree :: "u64 set \<Rightarrow> x86 \<Rightarrow> x86 \<Rightarrow> bool" where
  "agree D s t = (regs s = regs t \<and> (\<forall>a. untouched D a \<longrightarrow> mem s a = mem t a))"

definition clean :: "u64 set \<Rightarrow> u64 \<Rightarrow> bool" where
  "clean D a = (\<forall>b \<in> D. apart a b)"

text \<open>The slots of the stack below the stack pointer: called code may have written there.\<close>

definition down :: "u64 \<Rightarrow> nat \<Rightarrow> u64" where
  "down b k = b - 8 * of_nat k"

definition dead :: "x86_env \<Rightarrow> x86 \<Rightarrow> u64 set" where
  "dead env s = {down (stack_top env) k |k j. regs s RSP = down (stack_top env) j \<and> j < k \<and> k \<le> stack_size env}"

fun popped :: "x86_env \<Rightarrow> instr \<Rightarrow> x86 \<Rightarrow> u64 set \<Rightarrow> u64 set" where
  "popped env (PUSH r) s D = D - {regs s RSP - 8}"
| "popped env (POP r) s D = insert (regs s RSP) D"
| "popped env (MOV_mr (Mem sz b d) r) s D = D - {regs s b + word_of_int d}"
| "popped env (CALL_label l) s D = dead env s"
| "popped env (CALL_r r) s D = dead env s"
| "popped env _ s D = D"

text \<open>What is asked of called code: freed slots are below the stack pointer, and the code does not
  look at them.\<close>

definition call_respects :: "(x86 \<Rightarrow> x86 option) \<Rightarrow> x86_env \<Rightarrow> x86 \<Rightarrow> u64 set \<Rightarrow> bool" where
  "call_respects call env s D = (D \<subseteq> dead env s \<and>
     (\<forall>t s'. agree D s t \<longrightarrow> call s = Some s' \<longrightarrow> (\<exists>t'. call t = Some t' \<and> agree (dead env s) s' t')))"

fun reads_ok :: "x86_env \<Rightarrow> instr \<Rightarrow> x86 \<Rightarrow> u64 set \<Rightarrow> bool" where
  "reads_ok env (POP r) s D = clean D (regs s RSP)"
| "reads_ok env (MOV_rm d m) s D = clean D (address env m s)"
| "reads_ok env (CALL_label l) s D = call_respects (call_to env l) env s D"
| "reads_ok env (CALL_r r) s D = call_respects (call_at env (regs s r)) env s D"
| "reads_ok env _ s D = True"

fun disciplined :: "x86_env \<Rightarrow> instr list \<Rightarrow> x86 \<Rightarrow> u64 set \<Rightarrow> bool" where
  "disciplined env [] s D = True"
| "disciplined env (i # is) s D =
     (reads_ok env i s D \<and>
      (case exec1 env i s of None \<Rightarrow> True | Some s' \<Rightarrow> disciplined env is s' (popped env i s D)))"

fun popped_all :: "x86_env \<Rightarrow> instr list \<Rightarrow> x86 \<Rightarrow> u64 set \<Rightarrow> u64 set" where
  "popped_all env [] s D = D"
| "popped_all env (i # is) s D =
     (case exec1 env i s of None \<Rightarrow> D | Some s' \<Rightarrow> popped_all env is s' (popped env i s D))"

section \<open>Moves the optimiser can see\<close>

definition moves :: "instr list \<Rightarrow> (register \<times> register) set" where
  "moves is = {(d, s). MOV_rr Rm_r d s \<in> set is} \<union> {(d, s). POP d \<in> set is \<and> PUSH s \<in> set is}"

definition swap_free :: "instr list \<Rightarrow> bool" where
  "swap_free is = (POP RSP \<notin> set is \<and>
     (\<forall>(d, s) \<in> moves is. d \<noteq> s \<longrightarrow> (s, d) \<notin> moves is))"

section \<open>Agreement\<close>

lemma agree_regs: "agree D s t \<Longrightarrow> regs t = regs s"
  by (simp add: agree_def)

lemma agree_refl [simp]: "agree D s s"
  by (simp add: agree_def)

lemma agree_mono: "agree D s t \<Longrightarrow> D \<subseteq> D' \<Longrightarrow> agree D' s t"
  by (auto simp: agree_def untouched_def)

lemma clean_mono: "clean D a \<Longrightarrow> D' \<subseteq> D \<Longrightarrow> clean D' a"
  by (auto simp: clean_def)

lemma agree_read:
  assumes "agree D s t" and "clean D a"
  shows "read64 (mem t) a = read64 (mem s) a"
proof -
  have "mem t (a + of_nat i) = mem s (a + of_nat i)" if "i < 8" for i :: nat
  proof -
    have "untouched D (a + of_nat i)"
      using assms(2) that by (auto simp: untouched_def clean_def apart_sym intro: apart_outside)
    with assms(1) show ?thesis by (simp add: agree_def)
  qed
  then have "map (\<lambda>i. mem t (a + of_nat i)) [0..<8] = map (\<lambda>i. mem s (a + of_nat i)) [0..<8]"
    by simp
  then show ?thesis by (simp only: read64_def)
qed

lemma agree_set_reg: "agree D s t \<Longrightarrow> agree D (set_reg r v s) (set_reg r v t)"
  by (simp add: agree_def set_reg_def)

lemma agree_set_mem: "agree D s t \<Longrightarrow> agree D (set_mem a v s) (set_mem a v t)"
  by (auto simp: agree_def set_mem_def write64_def)

lemma agree_push:
  assumes "agree D s t"
  shows "agree (D - {a}) (set_mem a v s) (set_mem a v t)"
proof -
  have "mem s b = mem t b" if "untouched (D - {a}) b" "\<not> unat (b - a) < 8" for b
  proof -
    from that have "untouched D b" by (auto simp: untouched_def)
    with assms show ?thesis by (simp add: agree_def)
  qed
  with assms show ?thesis by (auto simp: agree_def set_mem_def write64_def)
qed

lemma agree_dead_write: "agree (insert a D) (set_mem a v s) s"
  by (auto simp: agree_def set_mem_def write64_def untouched_def)

lemma agree_trans: "agree D s t \<Longrightarrow> agree D t u \<Longrightarrow> agree D s u"
  by (simp add: agree_def)

text \<open>One instruction, run on two states that agree.\<close>

lemma agree_sym: "agree D s t \<Longrightarrow> agree D t s"
  by (simp add: agree_def)

lemma agree_call:
  assumes ag: "agree D s t" and "D' \<subseteq> D" and ok: "call_respects call env s D" and "call s = Some s'"
  shows "\<exists>t'. call t = Some t' \<and> agree (dead env s) s' t' \<and> call_respects call env t D' \<and> dead env t = dead env s"
proof -
  have same: "dead env t = dead env s" by (simp add: dead_def agree_regs [OF ag])
  obtain t' where t': "call t = Some t'" "agree (dead env s) s' t'"
    using ok ag assms(4) by (auto simp: call_respects_def)
  have "\<exists>u'. call u = Some u' \<and> agree (dead env s) t' u'" if "agree D' t u" for u
  proof -
    have "agree D s u" using agree_trans [OF ag agree_mono [OF that assms(2)]] .
    with ok assms(4) obtain u' where "call u = Some u'" "agree (dead env s) s' u'" by (auto simp: call_respects_def)
    with t'(2) show ?thesis by (blast intro: agree_trans agree_sym)
  qed
  with t' same ok assms(2) show ?thesis by (auto simp: call_respects_def)
qed

lemma exec1_agree:
  assumes ag: "agree D s t" and "D' \<subseteq> D" and "reads_ok env i s D"
    and ex: "exec1 env i s = Some s'"
  shows "\<exists>t'. exec1 env i t = Some t' \<and> agree (popped env i s D) s' t'
    \<and> reads_ok env i t D' \<and> popped env i t D' \<subseteq> popped env i s D"
proof -
  note regs = agree_regs [OF ag]
  have addr: "address env m t = address env m s" for m
    by (cases m) (simp_all add: regs)
  show ?thesis
  proof (cases i)
    case (CALL_label l)
    with agree_call [OF ag assms(2), of "call_to env l" env s'] assms(3) ex show ?thesis by auto
  next
    case (CALL_r r)
    with agree_call [OF ag assms(2), of "call_at env (regs s r)" env s'] assms(3) ex regs show ?thesis
      by (auto split: if_splits)
  next
    case (MOV_mr m r)
    with ex ag regs addr assms(2) show ?thesis
      by (cases m) (auto split: if_splits intro!: agree_set_mem agree_push)
  qed (use assms in \<open>auto simp: regs addr agree_read split: if_splits
        intro!: agree_set_reg agree_set_mem agree_push agree_mono [OF ag] dest: clean_mono\<close>)
qed

section \<open>One pass\<close>

lemma swap_free_subset: "swap_free xs \<Longrightarrow> set ys \<subseteq> set xs \<Longrightarrow> swap_free ys"
  unfolding swap_free_def moves_def by fast

lemma mov_self_shape: "mov_self i \<Longrightarrow> \<exists>r. i = MOV_rr Rm_r r r"
  by (cases i) (auto simp: mov_self_def split: if_splits)

lemma mov_swap_shape: "mov_swap i j \<Longrightarrow> \<exists>d r. i = MOV_rr Rm_r d r \<and> j = MOV_rr Rm_r r d"
  by (cases i; cases j) (auto simp: mov_swap_def split: if_splits)

lemma exec_mov_self: "exec1 env (MOV_rr c r r) s = Some s' \<Longrightarrow> s' = s"
  by (auto simp: set_reg_def split: if_splits)

text \<open>The fused window: same registers, memory apart from the slot that was freed.\<close>

lemma window_push_pop:
  assumes ag: "agree D s t" and "d \<noteq> RSP"
    and s1: "exec1 env (PUSH a) s = Some s1" and s2: "exec1 env (POP d) s1 = Some s2"
  shows "\<exists>t'. exec1 env (MOV_rr Rm_r d a) t = Some t' \<and> agree (insert (regs s RSP - 8) D) s2 t'
    \<and> popped env (POP d) s1 (popped env (PUSH a) s D) = insert (regs s RSP - 8) D"
proof -
  let ?sp = "regs s RSP - 8" and ?v = "regs s a"
  from s1 have s1': "s1 = set_reg RSP ?sp (set_mem ?sp ?v s)" and "is_r64 a"
    by (auto split: if_splits)
  from s2 s1' have s2': "s2 = set_reg d ?v (set_mem ?sp ?v s)" and "is_r64 d"
    using \<open>d \<noteq> RSP\<close> by (auto simp: machine_simps set_reg_def set_mem_def split: if_splits)
  have "agree (insert ?sp D) (set_mem ?sp ?v s) t"
    using agree_trans [OF agree_dead_write agree_mono [OF ag]] by blast
  then have "agree (insert ?sp D) s2 (set_reg d ?v t)"
    unfolding s2' by (rule agree_set_reg)
  moreover have "exec1 env (MOV_rr Rm_r d a) t = Some (set_reg d ?v t)"
    using \<open>is_r64 a\<close> \<open>is_r64 d\<close> agree_regs [OF ag] by simp
  moreover have "popped env (POP d) s1 (popped env (PUSH a) s D) = insert ?sp D"
    by (auto simp: s1' machine_simps)
  ultimately show ?thesis by blast
qed

text \<open>The statement of soundness for one list and its replacement.\<close>

definition simulates :: "x86_env \<Rightarrow> instr list \<Rightarrow> instr list \<Rightarrow> bool" where
  "simulates env xs ys = (\<forall>D D' s t s'.
     agree D s t \<longrightarrow> D' \<subseteq> D \<longrightarrow> disciplined env xs s D \<longrightarrow> run env xs s = Some s' \<longrightarrow>
     (\<exists>t'. run env ys t = Some t' \<and> agree (popped_all env xs s D) s' t'
        \<and> disciplined env ys t D' \<and> popped_all env ys t D' \<subseteq> popped_all env xs s D))"

lemma simulatesD:
  assumes "simulates env xs ys" and "agree D s t" and "D' \<subseteq> D" and "disciplined env xs s D"
    and "run env xs s = Some s'"
  shows "\<exists>t'. run env ys t = Some t' \<and> agree (popped_all env xs s D) s' t'
    \<and> disciplined env ys t D' \<and> popped_all env ys t D' \<subseteq> popped_all env xs s D"
  using assms unfolding simulates_def by blast

lemma simulates_Nil: "simulates env [] []"
  by (auto simp: simulates_def)

lemma simulates_Cons:
  assumes IH: "simulates env xs ys"
  shows "simulates env (i # xs) (i # ys)"
  unfolding simulates_def
proof (intro allI impI)
  fix D D' s t s'
  assume ag: "agree D s t" and sub: "D' \<subseteq> D" and di: "disciplined env (i # xs) s D"
    and ru: "run env (i # xs) s = Some s'"
  then obtain s1 where s1: "exec1 env i s = Some s1" "run env xs s1 = Some s'"
    by (auto split: option.splits)
  from exec1_agree [OF ag sub _ s1(1)] di obtain t1 where t1:
    "exec1 env i t = Some t1" "agree (popped env i s D) s1 t1" "reads_ok env i t D'"
    "popped env i t D' \<subseteq> popped env i s D" by auto
  from di s1 have "disciplined env xs s1 (popped env i s D)" by simp
  from simulatesD [OF IH t1(2) t1(4) this s1(2)] show "\<exists>t'. run env (i # ys) t = Some t'
      \<and> agree (popped_all env (i # xs) s D) s' t' \<and> disciplined env (i # ys) t D'
      \<and> popped_all env (i # ys) t D' \<subseteq> popped_all env (i # xs) s D"
    using t1 s1(1) by auto
qed

lemma simulates_mov_self:
  assumes "simulates env xs ys"
  shows "simulates env (MOV_rr c r r # xs) ys"
  unfolding simulates_def
proof (intro allI impI)
  fix D D' s t s'
  assume ag: "agree D s t" and sub: "D' \<subseteq> D" and di: "disciplined env (MOV_rr c r r # xs) s D"
    and ru: "run env (MOV_rr c r r # xs) s = Some s'"
  then have ex: "exec1 env (MOV_rr c r r) s = Some s" and rest: "run env xs s = Some s'"
    by (auto split: option.splits simp del: exec1.simps dest: exec_mov_self)
  with di have "disciplined env xs s D" by (simp del: exec1.simps)
  from simulatesD [OF assms ag sub this rest] ex show "\<exists>t'. run env ys t = Some t'
      \<and> agree (popped_all env (MOV_rr c r r # xs) s D) s' t' \<and> disciplined env ys t D'
      \<and> popped_all env ys t D' \<subseteq> popped_all env (MOV_rr c r r # xs) s D"
    by (auto simp del: exec1.simps)
qed

lemma simulates_push_pop:
  assumes IH: "simulates env xs ys" and "d \<noteq> RSP"
  shows "simulates env (PUSH a # POP d # xs) (MOV_rr Rm_r d a # ys)"
  unfolding simulates_def
proof (intro allI impI)
  fix D D' s t s'
  assume ag: "agree D s t" and sub: "D' \<subseteq> D" and di: "disciplined env (PUSH a # POP d # xs) s D"
    and ru: "run env (PUSH a # POP d # xs) s = Some s'"
  then obtain s1 s2 where s: "exec1 env (PUSH a) s = Some s1" "exec1 env (POP d) s1 = Some s2"
      "run env xs s2 = Some s'"
    by (auto split: option.splits simp del: exec1.simps)
  from window_push_pop [OF ag \<open>d \<noteq> RSP\<close> s(1,2)] obtain t1 where t1:
    "exec1 env (MOV_rr Rm_r d a) t = Some t1" "agree (insert (regs s RSP - 8) D) s2 t1"
    and D2: "popped env (POP d) s1 (popped env (PUSH a) s D) = insert (regs s RSP - 8) D" by blast
  from di s D2 have "disciplined env xs s2 (insert (regs s RSP - 8) D)"
    by (simp del: exec1.simps popped.simps)
  from simulatesD [OF IH t1(2) _ this s(3), of D'] sub
  show "\<exists>t'. run env (MOV_rr Rm_r d a # ys) t = Some t'
      \<and> agree (popped_all env (PUSH a # POP d # xs) s D) s' t'
      \<and> disciplined env (MOV_rr Rm_r d a # ys) t D'
      \<and> popped_all env (MOV_rr Rm_r d a # ys) t D' \<subseteq> popped_all env (PUSH a # POP d # xs) s D"
    using t1(1) s(1,2) D2 by (fastforce simp del: exec1.simps popped.simps(1,2))
qed

lemma swap_free_mov_swap:
  assumes "swap_free (MOV_rr Rm_r d r # MOV_rr Rm_r r d # rest)"
  shows "d = r"
  using assms by (auto simp: swap_free_def moves_def)

lemma peephole_simulates: "swap_free is \<Longrightarrow> simulates env is (peephole is)"
proof (induction "is" rule: peephole.induct)
  case 1
  show ?case by (simp add: simulates_Nil)
next
  case (2 i0)
  then show ?case
    using mov_self_shape [of i0] simulates_mov_self simulates_Nil simulates_Cons by fastforce
next
  case (3 i0 i1 rest)
  have sf: "swap_free rest" "swap_free (i1 # rest)"
    by (rule swap_free_subset [OF "3.prems"], auto)+
  consider (pp) "push_pop i0 i1" | (sw) "\<not> push_pop i0 i1" "mov_swap i0 i1"
    | (self) "\<not> push_pop i0 i1" "\<not> mov_swap i0 i1" "mov_self i0"
    | (keep) "\<not> push_pop i0 i1" "\<not> mov_swap i0 i1" "\<not> mov_self i0" by blast
  then show ?case
  proof cases
    case pp
    then obtain a d where i: "i0 = PUSH a" "i1 = POP d" using push_pop_regs by blast
    with "3.prems" have "d \<noteq> RSP" by (auto simp: swap_free_def)
    with 3 pp i sf(1) simulates_push_pop show ?thesis by simp
  next
    case sw
    then obtain d r where i: "i0 = MOV_rr Rm_r d r" "i1 = MOV_rr Rm_r r d"
      using mov_swap_shape by blast
    with "3.prems" swap_free_mov_swap have "d = r" by blast
    with 3 sw i sf(1) simulates_mov_self show ?thesis by simp
  next
    case self
    then obtain r where "i0 = MOV_rr Rm_r r r" using mov_self_shape by blast
    with 3 self sf(2) simulates_mov_self show ?thesis by simp
  next
    case keep
    with 3 sf(2) simulates_Cons show ?thesis by simp
  qed
qed

section \<open>All passes\<close>

lemma set_peephole:
  "set (peephole is) \<subseteq> set is \<union> {MOV_rr Rm_r d s |d s. POP d \<in> set is \<and> PUSH s \<in> set is}"
proof (induction "is" rule: peephole.induct)
  case (3 i0 i1 rest)
  show ?case
  proof (cases "push_pop i0 i1")
    case True
    then obtain a d where "i0 = PUSH a" "i1 = POP d" using push_pop_regs by blast
    with 3(1) [OF True] True show ?thesis by auto
  next
    case False
    with 3 show ?thesis by (fastforce split: if_splits)
  qed
qed auto

lemma swap_free_peephole:
  assumes "swap_free is"
  shows "swap_free (peephole is)"
proof -
  have "moves (peephole is) \<subseteq> moves is"
    using set_peephole [of "is"] unfolding moves_def by auto
  moreover have "POP RSP \<notin> set (peephole is)"
    using set_peephole [of "is"] assms by (auto simp: swap_free_def)
  ultimately show ?thesis using assms unfolding swap_free_def by blast
qed

lemma simulates_refl: "simulates env is is"
  by (induction "is") (auto intro: simulates_Nil simulates_Cons)

lemma simulates_trans:
  assumes "simulates env xs ys" and "simulates env ys zs"
  shows "simulates env xs zs"
  unfolding simulates_def
proof (intro allI impI)
  fix D D' s t s'
  assume ag: "agree D s t" and sub: "D' \<subseteq> D" and di: "disciplined env xs s D"
    and ru: "run env xs s = Some s'"
  from simulatesD [OF assms(1) agree_refl subset_refl di ru] obtain u' where u:
    "run env ys s = Some u'" "agree (popped_all env xs s D) s' u'" "disciplined env ys s D"
    "popped_all env ys s D \<subseteq> popped_all env xs s D" by blast
  from simulatesD [OF assms(2) ag sub u(3,1)] u(2,4)
  show "\<exists>t'. run env zs t = Some t' \<and> agree (popped_all env xs s D) s' t'
      \<and> disciplined env zs t D' \<and> popped_all env zs t D' \<subseteq> popped_all env xs s D"
    by (blast intro: agree_trans agree_mono)
qed

text \<open>The optimiser as a whole simulates its input, by the lemma on iterated passes.\<close>

interpretation preserves: pass_relation swap_free
    "\<lambda>xs ys. \<forall>env. simulates env xs ys"
  by unfold_locales (auto intro: simulates_refl simulates_trans swap_free_peephole peephole_simulates)

lemma normal_form_simulates:
  "swap_free is \<Longrightarrow> simulates env is (normal_form is)"
  using preserves.rel_normal_form by blast

section \<open>Pieces\<close>

lemma disciplined_append:
  "disciplined env (xs @ ys) s D =
     (disciplined env xs s D \<and>
      (case run env xs s of None \<Rightarrow> True | Some s' \<Rightarrow> disciplined env ys s' (popped_all env xs s D)))"
  by (induction xs arbitrary: s D) (auto split: option.splits)

lemma popped_all_append:
  "run env xs s = Some s' \<Longrightarrow>
     popped_all env (xs @ ys) s D = popped_all env ys s' (popped_all env xs s D)"
  by (induction xs arbitrary: s D) (auto split: option.splits)

lemma simulates_append:
  assumes "simulates env xs xs'" and "simulates env ys ys'"
  shows "simulates env (xs @ ys) (xs' @ ys')"
  unfolding simulates_def
proof (intro allI impI)
  fix D D' s t s'
  assume ag: "agree D s t" and sub: "D' \<subseteq> D" and di: "disciplined env (xs @ ys) s D"
    and ru: "run env (xs @ ys) s = Some s'"
  then obtain s1 where s1: "run env xs s = Some s1" "run env ys s1 = Some s'"
    by (auto simp: run_append split: option.splits)
  with di have d: "disciplined env xs s D" "disciplined env ys s1 (popped_all env xs s D)"
    by (auto simp: disciplined_append)
  from simulatesD [OF assms(1) ag sub d(1) s1(1)] obtain t1 where t1: "run env xs' t = Some t1"
    "agree (popped_all env xs s D) s1 t1" "disciplined env xs' t D'"
    "popped_all env xs' t D' \<subseteq> popped_all env xs s D" by blast
  from simulatesD [OF assms(2) t1(2,4) d(2) s1(2)] t1 s1
  show "\<exists>t'. run env (xs' @ ys') t = Some t' \<and> agree (popped_all env (xs @ ys) s D) s' t'
      \<and> disciplined env (xs' @ ys') t D'
      \<and> popped_all env (xs' @ ys') t D' \<subseteq> popped_all env (xs @ ys) s D"
    by (auto simp: run_append disciplined_append popped_all_append)
qed

text \<open>Optimising around an inert instruction: each side needs only its own condition.\<close>

lemma normal_form_simulates_pieces:
  assumes "inert b" and "simulates env xs (normal_form xs)"
    and "simulates env ys (normal_form ys)"
  shows "simulates env (xs @ b # ys) (normal_form (xs @ b # ys))"
  using assms by (simp add: normal_form_inert simulates_append simulates_Cons)

section \<open>Properties\<close>

text \<open>C7. Optimised code behaves as the original: from any state in which the original runs
  without reading a stack slot it has popped (and calls only code that does not look below the stack pointer), and where no two of its pushes, pops and
  moves can make up opposite moves (\<open>swap_free\<close>), the optimised code runs too, ends with
  the same registers and with the same memory outside the popped slots.\<close>

theorem optimize_preserves_behaviour:
  assumes "optimize ic is labels = Ok (is', labels')" and "indices_ok labels"
    and "swap_free is"
    and "run env is s = Some s'" and "disciplined env is s {}"
  shows "\<exists>t'. run env is' s = Some t' \<and> regs t' = regs s'
    \<and> (\<forall>a. clean (popped_all env is s {}) a \<longrightarrow> read64 (mem t') a = read64 (mem s') a)"
proof -
  have "is' = normal_form is" using optimize_Ok [OF assms(1,2)] by simp
  with normal_form_simulates [OF assms(3)] have "simulates env is is'" by simp
  from simulatesD [OF this agree_refl subset_refl assms(5,4)] obtain t' where
    "run env is' s = Some t'" "agree (popped_all env is s {}) s' t'" by blast
  then show ?thesis by (auto dest: agree_regs agree_read)
qed

definition zero_state :: x86 where
  "zero_state = \<lparr>regs = (\<lambda>_. 0), mem = (\<lambda>_. 0)\<rparr>"

lemma push_pop_example:
  "run no_calls [MOV_ri RAX 5, PUSH RAX, POP RBX] zero_state
     = Some (set_reg RBX 5 (set_mem (- 8) 5 (set_reg RAX 5 zero_state)))"
  "disciplined no_calls [MOV_ri RAX 5, PUSH RAX, POP RBX] zero_state {}"
  by (simp_all add: machine_simps zero_state_def clean_def)
    (auto simp: set_reg_def set_mem_def)

lemma push_pop_optimised:
  "optimize accepting [MOV_ri RAX 5, PUSH RAX, POP RBX] [] = Ok ([MOV_ri RAX 5, MOV_rr Rm_r RBX RAX], [])"
  by (simp add: optimize.simps optimize_loop_def new_asm_def push_pop_def mov_swap_def mov_self_def
      add_instruction_def update_labels_def take_instructions_def instructions_def)

theorem optimize_preserves_behaviour_witness:
  "\<exists>t'. run no_calls [MOV_ri RAX 5, MOV_rr Rm_r RBX RAX] zero_state = Some t' \<and> regs t' RBX = 5"
  using optimize_preserves_behaviour [OF push_pop_optimised _ _ push_pop_example]
  by (auto simp: indices_ok_def swap_free_def moves_def machine_simps)

text \<open>C36. The rule for opposite moves is not sound in general: \<open>mov d, r; mov r, d\<close> leaves
  the value of \<open>r\<close> in both registers and is not an exchange; the optimiser drops both
  moves, and that preserves the run exactly when the two registers held the same value.\<close>

theorem opposite_moves_dropped:
  assumes "is_r64 d" and "is_r64 r"
  shows "optimize accepting [MOV_rr Rm_r d r, MOV_rr Rm_r r d] [] = Ok ([], [])
    \<and> (run env [MOV_rr Rm_r d r, MOV_rr Rm_r r d] s = run env [] s \<longleftrightarrow> regs s d = regs s r)"
proof -
  have "optimize accepting [MOV_rr Rm_r d r, MOV_rr Rm_r r d] [] = Ok ([], [])"
    by (simp add: optimize.simps optimize_loop_def new_asm_def push_pop_def mov_swap_def mov_self_def
        update_labels_def take_instructions_def instructions_def)
  moreover have "run env [MOV_rr Rm_r d r, MOV_rr Rm_r r d] s = Some (set_reg d (regs s r) s)"
  proof -
    have "(regs s)(d := regs s r, r := regs s r) = (regs s)(d := regs s r)" by auto
    with assms show ?thesis by (simp add: set_reg_def)
  qed
  moreover have "set_reg d (regs s r) s = s \<longleftrightarrow> regs s d = regs s r"
  proof
    assume "set_reg d (regs s r) s = s"
    then have "regs (set_reg d (regs s r) s) d = regs s d" by simp
    then show "regs s d = regs s r" by (simp add: machine_simps)
  next
    assume "regs s d = regs s r"
    then have "(regs s)(d := regs s r) = regs s" by auto
    then show "set_reg d (regs s r) s = s" by (simp add: set_reg_def)
  qed
  ultimately show ?thesis by simp
qed

theorem opposite_moves_dropped_witness:
  "optimize accepting [MOV_rr Rm_r RAX RBX, MOV_rr Rm_r RBX RAX] [] = Ok ([], [])
   \<and> run no_calls [MOV_rr Rm_r RAX RBX, MOV_rr Rm_r RBX RAX] (set_reg RBX 1 zero_state)
       \<noteq> run no_calls [] (set_reg RBX 1 zero_state)"
  using opposite_moves_dropped [of RAX RBX no_calls "set_reg RBX 1 zero_state"]
  by (simp add: machine_simps zero_state_def del: run.simps)

end
