(* ===== verification/Operator_Sound.thy ===== *)
theory Operator_Sound
  imports Instructions Peephole_Sound
begin

text \<open>
  The code of an operator simulates the operator. A \<open>frame\<close> fixes, for one activation of a
  function, the frame pointer, the address just above the operand stack, the offsets of
  the locals and how high the operand stack may grow. \<open>represents\<close> says that a machine
  state holds a given operand stack and given locals; memory that belongs to neither is
  \<open>outside\<close> and is shown to be left alone.
\<close>

record frame =
  fr_rbp :: u64
  fr_base :: u64
  fr_locals :: "nat list"
  fr_height :: nat

definition stack_slot :: "frame \<Rightarrow> nat \<Rightarrow> u64" where
  "stack_slot f k = fr_base f - 8 * of_nat k"

definition local_slot :: "frame \<Rightarrow> nat \<Rightarrow> u64" where
  "local_slot f j = fr_rbp f - of_nat (fr_locals f ! j)"

text \<open>Slots of the frame do not overlap.\<close>

definition frame_ok :: "frame \<Rightarrow> bool" where
  "frame_ok f = (fr_height f < 2 ^ 60
     \<and> (\<forall>j < length (fr_locals f). \<forall>k \<in> {1..fr_height f}. apart (local_slot f j) (stack_slot f k))
     \<and> (\<forall>j < length (fr_locals f). \<forall>j' < length (fr_locals f).
          j \<noteq> j' \<longrightarrow> apart (local_slot f j) (local_slot f j')))"

definition outside :: "frame \<Rightarrow> u64 \<Rightarrow> bool" where
  "outside f x = ((\<forall>j < length (fr_locals f). apart (local_slot f j) x)
     \<and> (\<forall>k \<in> {1..fr_height f}. apart (stack_slot f k) x))"

definition represents :: "frame \<Rightarrow> wasm_config \<Rightarrow> x86 \<Rightarrow> bool" where
  "represents f c s = (case c of (st, ls) \<Rightarrow>
     regs s RBP = fr_rbp f \<and> regs s RSP = stack_slot f (length st) \<and> length st \<le> fr_height f
     \<and> (\<forall>i < length st. read64 (mem s) (stack_slot f (length st - i)) = st ! i)
     \<and> length ls = length (fr_locals f)
     \<and> (\<forall>j < length ls. read64 (mem s) (local_slot f j) = ls ! j))"

definition same_outside :: "frame \<Rightarrow> x86 \<Rightarrow> x86 \<Rightarrow> bool" where
  "same_outside f s s' = (\<forall>x. outside f x \<longrightarrow> read64 (mem s') x = read64 (mem s) x)"

section \<open>Slots\<close>

lemma stack_slot_apart:
  assumes "k < 2 ^ 60" and "k' < 2 ^ 60" and "k \<noteq> k'"
  shows "apart (stack_slot f k) (stack_slot f k')"
proof -
  have *: "8 \<le> unat (8 * of_nat m - 8 * of_nat n :: u64) \<and> 8 \<le> unat (8 * of_nat n - 8 * of_nat m :: u64)"
    if "n < m" "m < 2 ^ 60" for m n :: nat
  proof -
    have u: "unat (8 * of_nat i :: u64) = 8 * i" if "i < 2 ^ 60" for i :: nat
    proof -
      have "8 * of_nat i = (of_nat (8 * i) :: u64)" by simp
      then show ?thesis using that by (simp add: unat_of_nat del: of_nat_mult)
    qed
    from that have "n < 2 ^ 60" by simp
    with that show ?thesis by (simp add: unat_sub_if' u) linarith
  qed
  have "stack_slot f k - stack_slot f k' = 8 * of_nat k' - 8 * of_nat k"
    "stack_slot f k' - stack_slot f k = 8 * of_nat k - 8 * of_nat k'"
    by (simp_all add: stack_slot_def)
  with * [of k k'] * [of k' k] assms show ?thesis
    unfolding apart_def by (metis linorder_neqE_nat)
qed

lemma stack_slot_Suc: "stack_slot f (Suc k) = stack_slot f k - 8"
  by (simp add: stack_slot_def algebra_simps)

lemma frame_local_stack:
  "frame_ok f \<Longrightarrow> j < length (fr_locals f) \<Longrightarrow> 1 \<le> k \<Longrightarrow> k \<le> fr_height f \<Longrightarrow>
     apart (local_slot f j) (stack_slot f k)"
  by (simp add: frame_ok_def)

lemma frame_local_local:
  "frame_ok f \<Longrightarrow> j < length (fr_locals f) \<Longrightarrow> j' < length (fr_locals f) \<Longrightarrow> j \<noteq> j' \<Longrightarrow>
     apart (local_slot f j) (local_slot f j')"
  by (simp add: frame_ok_def)

section \<open>The four moves\<close>

lemma same_outside_refl [simp]: "same_outside f s s"
  by (simp add: same_outside_def)

lemma same_outside_trans: "same_outside f s t \<Longrightarrow> same_outside f t u \<Longrightarrow> same_outside f s u"
  by (simp add: same_outside_def)

lemma same_outside_mem: "mem s' = mem s \<Longrightarrow> same_outside f s s'"
  by (simp add: same_outside_def)

lemma represents_set_reg:
  "represents f c s \<Longrightarrow> r \<noteq> RSP \<Longrightarrow> r \<noteq> RBP \<Longrightarrow> represents f c (set_reg r v s)"
  by (auto simp: represents_def machine_simps)

lemma sim_push:
  assumes fr: "frame_ok f" and rep: "represents f (st, ls) s" and "length st < fr_height f"
    and "is_r64 r"
  shows "\<exists>s'. exec1 env (PUSH r) s = Some s' \<and> represents f (regs s r # st, ls) s' \<and> same_outside f s s'"
proof -
  let ?a = "stack_slot f (Suc (length st))"
  let ?s = "set_reg RSP ?a (set_mem ?a (regs s r) s)"
  have ex: "exec1 env (PUSH r) s = Some ?s"
    using rep assms(4) by (simp add: represents_def stack_slot_Suc)
  have low: "fr_height f < 2 ^ 60" using fr by (simp add: frame_ok_def)
  have "read64 (mem ?s) (stack_slot f (Suc (length st) - i)) = (regs s r # st) ! i"
    if "i < Suc (length st)" for i
  proof (cases i)
    case 0
    then show ?thesis by (simp add: machine_simps)
  next
    case (Suc k)
    have "apart ?a (stack_slot f (length st - k))"
      by (rule stack_slot_apart) (use that Suc assms(3) low in auto)
    with Suc that rep show ?thesis by (simp add: machine_simps represents_def read_write_apart)
  qed
  moreover have "read64 (mem ?s) (local_slot f j) = ls ! j" if "j < length ls" for j
    using that rep frame_local_stack [OF fr, of j "Suc (length st)"] assms(3)
    by (simp add: machine_simps represents_def read_write_apart apart_sym)
  moreover have "same_outside f s ?s"
    using assms(3) by (auto simp: same_outside_def outside_def machine_simps read_write_apart)
  ultimately show ?thesis
    using rep assms(3,4) by (simp add: ex represents_def machine_simps del: exec1.simps)
qed

lemma sim_pop:
  assumes rep: "represents f (v # st, ls) s" and r: "is_r64 r" "r \<noteq> RSP" "r \<noteq> RBP"
  shows "\<exists>s'. exec1 env (POP r) s = Some s' \<and> represents f (st, ls) s' \<and> regs s' r = v
    \<and> (\<forall>q. q \<noteq> r \<longrightarrow> q \<noteq> RSP \<longrightarrow> regs s' q = regs s q) \<and> mem s' = mem s"
proof -
  let ?s = "set_reg r (read64 (mem s) (regs s RSP)) (set_reg RSP (regs s RSP + 8) s)"
  have "read64 (mem s) (regs s RSP) = v"
    using rep by (auto simp: represents_def)
  moreover have "represents f (st, ls) ?s"
    using rep r by (fastforce simp: represents_def machine_simps stack_slot_Suc)
  ultimately show ?thesis using r by (simp add: machine_simps)
qed

lemma address_local:
  "represents f c s \<Longrightarrow> j < length (fr_locals f) \<Longrightarrow>
     address env (Mem Ptr RBP (- int (fr_locals f ! j))) s = local_slot f j"
  by (cases c) (simp add: represents_def local_slot_def)

lemma sim_load_local:
  assumes rep: "represents f (st, ls) s" and "j < length ls"
  shows "exec1 env (MOV_rm RAX (Mem Ptr RBP (- int (fr_locals f ! j)))) s = Some (set_reg RAX (ls ! j) s)"
  using assms address_local [OF rep, of j env]
  by (simp add: represents_def)

lemma sim_store_local:
  assumes fr: "frame_ok f" and rep: "represents f (st, ls) s" and j: "j < length ls"
  shows "\<exists>s'. exec1 env (MOV_mr (Mem Ptr RBP (- int (fr_locals f ! j))) RAX) s = Some s'
    \<and> represents f (st, ls[j := regs s RAX]) s' \<and> same_outside f s s'"
proof -
  let ?s = "set_mem (local_slot f j) (regs s RAX) s"
  have n: "length ls = length (fr_locals f)" using rep by (simp add: represents_def)
  have "read64 (mem ?s) (local_slot f k) = ls[j := regs s RAX] ! k" if "k < length ls" for k
    using that rep j n frame_local_local [OF fr, of j k]
    by (cases "k = j") (auto simp: machine_simps represents_def read_write_apart)
  moreover have "read64 (mem ?s) (stack_slot f (length st - i)) = st ! i" if "i < length st" for i
    using that rep j n frame_local_stack [OF fr, of j "length st - i"]
    by (auto simp: machine_simps represents_def read_write_apart)
  moreover have "same_outside f s ?s"
    using j n by (auto simp: same_outside_def outside_def machine_simps read_write_apart)
  ultimately show ?thesis
    using rep j n address_local [OF rep, of j env]
    by (simp add: represents_def machine_simps)
qed

section \<open>Runs of code\<close>

text \<open>
  \<open>reaches\<close> collects what is kept along a run: the new configuration is represented, memory
  outside the frame is as before, and no freed stack slot is read (which is what the
  optimiser needs). Freed slots are always above the current height.
\<close>

definition free_slots :: "frame \<Rightarrow> wasm_config \<Rightarrow> u64 set" where
  "free_slots f c = stack_slot f ` {length (fst c) <.. fr_height f}"

definition reaches ::
  "frame \<Rightarrow> x86_env \<Rightarrow> instr list \<Rightarrow> wasm_config \<Rightarrow> x86 \<Rightarrow> wasm_config \<Rightarrow> x86 \<Rightarrow> bool" where
  "reaches f env is c s c' s' = (run env is s = Some s' \<and> represents f c' s' \<and> same_outside f s s'
     \<and> (\<forall>D. D \<subseteq> free_slots f c \<longrightarrow>
          disciplined env is s D \<and> popped_all env is s D \<subseteq> free_slots f c'))"

lemma reaches_Nil: "represents f c s \<Longrightarrow> reaches f env [] c s c s"
  by (simp add: reaches_def)

lemma reaches_append:
  "reaches f env xs c s c1 s1 \<Longrightarrow> reaches f env ys c1 s1 c' s' \<Longrightarrow> reaches f env (xs @ ys) c s c' s'"
  by (auto simp: reaches_def run_append disciplined_append popped_all_append
      intro: same_outside_trans)

lemma reaches_Cons:
  "reaches f env [i] c s c1 s1 \<Longrightarrow> reaches f env is c1 s1 c' s' \<Longrightarrow> reaches f env (i # is) c s c' s'"
  using reaches_append [of f env "[i]"] by simp

lemma reaches_quiet:
  assumes "exec1 env i s = Some s'" and "represents f c s'" and "same_outside f s s'"
    and "\<And>D. D \<subseteq> free_slots f c \<Longrightarrow> reads_ok env i s D" and "\<And>D. popped env i s D = D"
  shows "reaches f env [i] c s c s'"
  using assms by (simp add: reaches_def)

lemma clean_free_slots:
  assumes "D \<subseteq> free_slots f c" and "\<And>k. length (fst c) < k \<Longrightarrow> k \<le> fr_height f \<Longrightarrow> apart a (stack_slot f k)"
  shows "clean D a"
  using assms by (auto simp: clean_def free_slots_def)

lemma reaches_push:
  assumes fr: "frame_ok f" and rep: "represents f (st, ls) s" and "length st < fr_height f"
    and "is_r64 r"
  shows "\<exists>s'. reaches f env [PUSH r] (st, ls) s (regs s r # st, ls) s'"
proof -
  from sim_push [OF assms] obtain s' where s': "exec1 env (PUSH r) s = Some s'"
    "represents f (regs s r # st, ls) s'" "same_outside f s s'" by blast
  have "regs s RSP - 8 = stack_slot f (Suc (length st))"
    using rep by (simp add: represents_def stack_slot_Suc)
  then have "popped env (PUSH r) s D \<subseteq> free_slots f (regs s r # st, ls)"
    if "D \<subseteq> free_slots f (st, ls)" for D
  proof -
    have "{length st <.. fr_height f} \<subseteq> insert (Suc (length st)) {Suc (length st) <.. fr_height f}"
      by auto
    then have "free_slots f (st, ls) \<subseteq> insert (stack_slot f (Suc (length st))) (free_slots f (regs s r # st, ls))"
      by (auto simp: free_slots_def)
    with that \<open>regs s RSP - 8 = _\<close> show ?thesis by auto
  qed
  with s' show ?thesis by (auto simp: reaches_def simp del: exec1.simps popped.simps)
qed

lemma reaches_pop:
  assumes fr: "frame_ok f" and rep: "represents f (v # st, ls) s" and "is_r64 r" "r \<noteq> RSP" "r \<noteq> RBP"
  shows "\<exists>s'. reaches f env [POP r] (v # st, ls) s (st, ls) s' \<and> regs s' r = v
    \<and> (\<forall>q. q \<noteq> r \<longrightarrow> q \<noteq> RSP \<longrightarrow> regs s' q = regs s q)"
proof -
  from sim_pop [OF rep assms(3-5)] obtain s' where s': "exec1 env (POP r) s = Some s'"
    "represents f (st, ls) s'" "regs s' r = v"
    "\<forall>q. q \<noteq> r \<longrightarrow> q \<noteq> RSP \<longrightarrow> regs s' q = regs s q" "mem s' = mem s" by blast
  have sp: "regs s RSP = stack_slot f (Suc (length st))" "Suc (length st) \<le> fr_height f"
    "fr_height f < 2 ^ 60"
    using rep fr by (simp_all add: represents_def frame_ok_def)
  have "reads_ok env (POP r) s D" if "D \<subseteq> free_slots f (v # st, ls)" for D
    using sp by (auto intro!: clean_free_slots [OF that] stack_slot_apart)
  moreover have "popped env (POP r) s D \<subseteq> free_slots f (st, ls)"
    if "D \<subseteq> free_slots f (v # st, ls)" for D
    using that sp by (auto simp: free_slots_def)
  ultimately show ?thesis
    using s' by (auto simp: reaches_def same_outside_mem simp del: exec1.simps popped.simps reads_ok.simps)
qed

section \<open>Operators\<close>

text \<open>What the emitted code computes: the operands of \<open>i64.sub\<close> are exchanged.\<close>

fun compiled_step :: "operator \<Rightarrow> wasm_config \<Rightarrow> wasm_config option" where
  "compiled_step I64Sub (b # a # st, ls) = Some ((b - a) # st, ls)"
| "compiled_step op c = wasm_step op c"

fun run_ops ::
  "(operator \<Rightarrow> wasm_config \<Rightarrow> wasm_config option) \<Rightarrow> nat \<Rightarrow> operator list \<Rightarrow> wasm_config \<Rightarrow> wasm_config option"
where
  "run_ops step h [] c = Some c"
| "run_ops step h (op # ops) c =
     (case step op c of None \<Rightarrow> None
      | Some c' \<Rightarrow> if length (fst c') \<le> h then run_ops step h ops c' else None)"

text \<open>The code of a body, given the code of its operators; \<open>body_code\<close> is that of a body without calls.\<close>

fun ops_code :: "(operator \<Rightarrow> instr list option) \<Rightarrow> operator list \<Rightarrow> instr list option" where
  "ops_code oc [] = Some []"
| "ops_code oc (op # ops) =
     (case (oc op, ops_code oc ops) of
        (Some xs, Some ys) \<Rightarrow> Some (xs @ ys) | _ \<Rightarrow> None)"

abbreviation body_code :: "nat list \<Rightarrow> operator list \<Rightarrow> instr list option" where
  "body_code locals \<equiv> ops_code (op_code locals)"

lemma binop_sim:
  assumes fr: "frame_ok f" and rep: "represents f (b # a # st, ls) s"
    and ex: "\<And>s. exec1 env i s = Some (set_reg RAX (g (regs s RAX) (regs s RBX)) s)"
    and quiet: "\<And>s D. reads_ok env i s D" "\<And>s D. popped env i s D = D"
  shows "\<exists>s'. reaches f env [POP RAX, POP RBX, i, PUSH RAX] (b # a # st, ls) s (g b a # st, ls) s'"
proof -
  from reaches_pop [OF fr rep, of RAX env] obtain s1 where s1:
    "reaches f env [POP RAX] (b # a # st, ls) s (a # st, ls) s1" "regs s1 RAX = b" by auto
  then have "represents f (a # st, ls) s1" by (simp add: reaches_def)
  from reaches_pop [OF fr this, of RBX env] obtain s2 where s2:
    "reaches f env [POP RBX] (a # st, ls) s1 (st, ls) s2" "regs s2 RBX = a" "regs s2 RAX = b"
    using s1 by auto
  let ?s3 = "set_reg RAX (g b a) s2"
  have rep3: "represents f (st, ls) ?s3"
    using s2(1) by (auto simp: reaches_def intro: represents_set_reg)
  have s3: "reaches f env [i] (st, ls) s2 (st, ls) ?s3"
    by (rule reaches_quiet) (auto simp: ex s2 quiet rep3 machine_simps same_outside_mem)
  have "length st < fr_height f" using rep by (simp add: represents_def)
  from reaches_push [OF fr rep3 this, of RAX env] obtain s4 where
    "reaches f env [PUSH RAX] (st, ls) ?s3 (g b a # st, ls) s4"
    by (auto simp: machine_simps)
  with s1 s2 s3 show ?thesis by (blast intro: reaches_Cons)
qed

lemma set_then_push_sim:
  assumes fr: "frame_ok f" and rep: "represents f (st, ls) s" and room: "length st < fr_height f"
    and ex: "exec1 env i s = Some (set_reg RAX v s)"
    and quiet: "\<And>D. D \<subseteq> free_slots f (st, ls) \<Longrightarrow> reads_ok env i s D" "\<And>D. popped env i s D = D"
  shows "\<exists>s'. reaches f env [i, PUSH RAX] (st, ls) s (v # st, ls) s'"
proof -
  let ?s1 = "set_reg RAX v s"
  have rep1: "represents f (st, ls) ?s1" using rep by (auto intro: represents_set_reg)
  have s1: "reaches f env [i] (st, ls) s (st, ls) ?s1"
    by (rule reaches_quiet) (auto simp: ex quiet rep1 machine_simps same_outside_mem)
  from reaches_push [OF fr rep1 room, of RAX env] s1 show ?thesis
    by (auto simp: machine_simps intro: reaches_Cons)
qed

lemma local_get_sim:
  assumes fr: "frame_ok f" and rep: "represents f (st, ls) s" and "length st < fr_height f"
    and j: "j < length ls"
  shows "\<exists>s'. reaches f env [MOV_rm RAX (Mem Ptr RBP (- int (fr_locals f ! j))), PUSH RAX]
    (st, ls) s (ls ! j # st, ls) s'"
proof (rule set_then_push_sim [OF fr rep assms(3) sim_load_local [OF rep j]])
  have n: "j < length (fr_locals f)" using rep j by (simp add: represents_def)
  show "reads_ok env (MOV_rm RAX (Mem Ptr RBP (- int (fr_locals f ! j)))) s D"
    if "D \<subseteq> free_slots f (st, ls)" for D
    using clean_free_slots [OF that, of "local_slot f j"] frame_local_stack [OF fr n]
      address_local [OF rep n, of env] by (simp del: address.simps)
qed simp

lemma local_set_sim:
  assumes fr: "frame_ok f" and rep: "represents f (v # st, ls) s" and j: "j < length ls"
  shows "\<exists>s'. reaches f env [POP RAX, MOV_mr (Mem Ptr RBP (- int (fr_locals f ! j))) RAX]
    (v # st, ls) s (st, ls[j := v]) s'"
proof -
  from reaches_pop [OF fr rep, of RAX env] obtain s1 where s1:
    "reaches f env [POP RAX] (v # st, ls) s (st, ls) s1" "regs s1 RAX = v" by auto
  then have "represents f (st, ls) s1" by (simp add: reaches_def)
  from sim_store_local [OF fr this j, of env] s1(2) obtain s2 where s2:
    "exec1 env (MOV_mr (Mem Ptr RBP (- int (fr_locals f ! j))) RAX) s1 = Some s2"
    "represents f (st, ls[j := v]) s2" "same_outside f s1 s2" by auto
  then have "reaches f env [MOV_mr (Mem Ptr RBP (- int (fr_locals f ! j))) RAX] (st, ls) s1 (st, ls[j := v]) s2"
    by (auto simp: reaches_def free_slots_def simp del: exec1.simps)
  with s1 show ?thesis by (blast intro: reaches_Cons)
qed

lemma op_sim:
  assumes fr: "frame_ok f" and rep: "represents f c s" and st: "compiled_step op c = Some c'"
    and room: "length (fst c') \<le> fr_height f" and code: "op_code (fr_locals f) op = Some is"
  shows "\<exists>s'. reaches f env is c s c' s'"
proof -
  obtain st0 ls where c: "c = (st0, ls)" by (cases c)
  have n: "length ls = length (fr_locals f)" using rep by (simp add: represents_def c)
  show ?thesis
  proof (cases op)
    case (I64Const v)
    with st code room c have "c' = (v # st0, ls)" "is = [MOV_ri RAX v, PUSH RAX]" "length st0 < fr_height f"
      by auto
    with set_then_push_sim [OF fr, of st0 ls s env "MOV_ri RAX v" v] rep c show ?thesis by simp
  next
    case I64Add
    with st c obtain b a st1 where "st0 = b # a # st1" "c' = ((a + b) # st1, ls)"
      by (auto elim!: compiled_step.elims wasm_step.elims)
    with binop_sim [OF fr, of b a st1 ls s env "ADD_rr RAX RBX" "(+)"] rep c code I64Add
    show ?thesis by (simp add: add.commute)
  next
    case I64Sub
    with st c obtain b a st1 where "st0 = b # a # st1" "c' = ((b - a) # st1, ls)"
      by (auto elim!: compiled_step.elims wasm_step.elims)
    with binop_sim [OF fr, of b a st1 ls s env "SUB_rr RAX RBX" "(-)"] rep c code I64Sub
    show ?thesis by simp
  next
    case Nop
    with st c code have "c' = c" "is = [NOP]" by auto
    with reaches_quiet [of env NOP s s f c] rep show ?thesis by auto
  next
    case End
    with st c code have "c' = c" "is = []" by auto
    with reaches_Nil [OF rep] show ?thesis by auto
  next
    case (LocalGet j)
    with st code room c n have "c' = (ls ! j # st0, ls)" "j < length ls" "length st0 < fr_height f"
      "is = [MOV_rm RAX (Mem Ptr RBP (- int (fr_locals f ! j))), PUSH RAX]"
      by (auto split: if_splits)
    with local_get_sim [OF fr, of st0 ls s j env] rep c show ?thesis by simp
  next
    case (LocalSet j)
    with st c obtain v st1 where "st0 = v # st1" "c' = (st1, ls[j := v])" "j < length ls"
      by (auto elim!: compiled_step.elims wasm_step.elims split: if_splits)
    with local_set_sim [OF fr, of v st1 ls s j env] rep c code n LocalSet show ?thesis
      by (auto split: if_splits)
  qed (use st code c in auto)
qed

text \<open>\<open>I\<close> is what the operators rely on of the rest of the memory.\<close>

lemma ops_sim:
  assumes sim: "\<And>op c c' s is. I s \<Longrightarrow> represents f c s \<Longrightarrow> step op c = Some c' \<Longrightarrow> length (fst c') \<le> fr_height f \<Longrightarrow>
      oc op = Some is \<Longrightarrow> \<exists>s'. reaches f env is c s c' s'"
    and kept: "\<And>s s'. I s \<Longrightarrow> same_outside f s s' \<Longrightarrow> I s'"
    and "I s" and "represents f c s" and "run_ops step (fr_height f) ops c = Some c'" and "ops_code oc ops = Some is"
  shows "\<exists>s'. reaches f env is c s c' s'"
  using assms(3-6)
proof (induction ops arbitrary: c s "is")
  case Nil
  then show ?case by (auto intro: reaches_Nil)
next
  case (Cons op ops)
  then obtain xs ys c1 where parts: "oc op = Some xs" "ops_code oc ops = Some ys" "is = xs @ ys" "step op c = Some c1"
      "length (fst c1) \<le> fr_height f" "run_ops step (fr_height f) ops c1 = Some c'"
    by (auto split: option.splits if_splits)
  from sim [OF Cons.prems(1,2) parts(4,5,1)] obtain s1 where s1: "reaches f env xs c s c1 s1"
    by blast
  then have "represents f c1 s1" "I s1" using kept [OF Cons.prems(1)] by (simp_all add: reaches_def)
  from Cons.IH [OF this(2,1) parts(6,2)] s1 parts(3) show ?case
    by (blast intro: reaches_append)
qed

lemma body_sim:
  "frame_ok f \<Longrightarrow> represents f c s \<Longrightarrow> run_ops compiled_step (fr_height f) ops c = Some c' \<Longrightarrow>
     body_code (fr_locals f) ops = Some is \<Longrightarrow> \<exists>s'. reaches f env is c s c' s'"
  by (rule ops_sim [where I = "\<lambda>_. True"]) (simp_all add: op_sim)

text \<open>Without \<open>i64.sub\<close> the two step functions are the same.\<close>

lemma compiled_step_wasm: "op \<noteq> I64Sub \<Longrightarrow> compiled_step op c = wasm_step op c"
  by (cases "(op, c)" rule: compiled_step.cases) auto

lemma run_ops_cong:
  "(\<And>op c. op \<in> set ops \<Longrightarrow> f op c = g op c) \<Longrightarrow> run_ops f h ops c = run_ops g h ops c"
  by (induction ops arbitrary: c) (auto split: option.splits)

lemma run_ops_compiled: "I64Sub \<notin> set ops \<Longrightarrow> run_ops compiled_step h ops c = run_ops wasm_step h ops c"
  by (rule run_ops_cong) (auto intro: compiled_step_wasm)

text \<open>The emission loop over the operators of a body.\<close>

lemma handle_ops:
  assumes oc: "\<And>op is a. oc op = Some is \<Longrightarrow> handle_instruction ic tb locals op a = emit ic is a"
  shows "ops_code oc ops = Some is \<Longrightarrow> foldM (\<lambda>a op. handle_instruction ic tb locals op a) a ops = emit ic is a"
proof (induction ops arbitrary: a "is")
  case (Cons op ops)
  then obtain xs ys where "oc op = Some xs" "ops_code oc ops = Some ys" "is = xs @ ys"
    by (auto split: option.splits)
  with Cons.IH oc show ?case by simp
qed simp

lemma handle_body:
  "body_code locals ops = Some is \<Longrightarrow>
     foldM (\<lambda>a op. handle_instruction ic tb locals op a) a ops = emit ic is a"
  by (rule handle_ops) (rule handle_instruction_op_code)

section \<open>Which operators the compiler takes\<close>

text \<open>Everything a step can do is compiled: a run of the reference has code.\<close>

lemma compiled_step_code:
  assumes "compiled_step op c = Some c'" and "length (snd c) = length locals"
  shows "(\<exists>is. op_code locals op = Some is) \<and> length (snd c') = length locals"
  using assms
  by (cases "(op, c)" rule: compiled_step.cases)
    (auto elim!: wasm_step.elims split: if_splits)

lemma run_ops_code:
  "run_ops compiled_step h ops c = Some c' \<Longrightarrow> length (snd c) = length locals \<Longrightarrow>
     \<exists>is. body_code locals ops = Some is"
proof (induction ops arbitrary: c)
  case (Cons op ops)
  then obtain c1 where "compiled_step op c = Some c1" "run_ops compiled_step h ops c1 = Some c'"
    by (auto split: option.splits if_splits)
  with Cons compiled_step_code [of op c c1 locals] show ?case by fastforce
qed simp

text \<open>The calls and operators for which code is emitted.\<close>

definition integer_typed :: "val_type list \<Rightarrow> bool" where
  "integer_typed ts = (\<forall>t \<in> set ts. t = I64 \<or> t = I32)"

fun supported :: "tables \<Rightarrow> nat list \<Rightarrow> operator \<Rightarrow> bool" where
  "supported tb locals (Op_todo name) = False"
| "supported tb locals (LocalGet i) = (i < length locals)"
| "supported tb locals (LocalSet i) = (i < length locals)"
| "supported tb locals (Call f) =
     (case function_type_of tb f of
        None \<Rightarrow> False
      | Some ft \<Rightarrow> length (ft_params ft) \<le> 6 \<and> integer_typed (ft_params ft) \<and> integer_typed (ft_returns ft))"
| "supported tb locals _ = True"

fun is_panic :: "('e, 'a) res \<Rightarrow> bool" where
  "is_panic (Panic m) = True"
| "is_panic _ = False"

lemma emit_refuses_nothing: "(\<And>i. refuses ic i = None) \<Longrightarrow> \<exists>b. emit ic is a = Ok b"
  by (rule emit_accepted) simp

lemma pop_arguments_outcome:
  assumes "\<And>i. refuses ic i = None" and "length order = length params"
  shows "if integer_typed params then \<exists>b. pop_arguments ic params order a = Ok b
    else is_panic (pop_arguments ic params order a)"
  using assms(2)
proof (induction params arbitrary: order a)
  case (Cons p params)
  then obtain r order' where order: "order = order' @ [r]" "length order' = length params"
    by (cases order rule: rev_cases) auto
  from Cons.IH [OF order(2)] assms(1) show ?case
    by (auto simp: order integer_typed_def pop_back_def add_instruction_def split: if_splits)
qed (simp add: integer_typed_def)

lemma push_results_outcome:
  assumes "\<And>i. refuses ic i = None"
  shows "if integer_typed rets then \<exists>b. push_results ic rets order a = Ok b
    else is_panic (push_results ic rets order a)"
proof (induction rets arbitrary: order a)
  case (Cons t rets)
  from Cons.IH assms show ?case
    by (cases order) (auto simp: integer_typed_def pop_front_def add_instruction_def split: if_splits)
qed (simp add: integer_typed_def)

lemma emit_call_total: "(\<And>i. refuses ic i = None) \<Longrightarrow> \<exists>b. emit_call ic tb f a = Ok b"
  by (auto simp: emit_call_def add_instruction_def split: option.splits)

lemma call_outcome:
  assumes "\<And>i. refuses ic i = None"
  shows "if supported tb locals (Call f) then \<exists>b. handle_instruction ic tb locals (Call f) a = Ok b
    else is_panic (handle_instruction ic tb locals (Call f) a)"
proof (cases "function_type_of tb f")
  case (Some ft)
  show ?thesis
  proof (cases "length (ft_params ft) \<le> 6")
    case True
    let ?order = "take (length (ft_params ft)) integer_registers"
    have order: "length ?order = length (ft_params ft)"
      "drain_to (length (ft_params ft)) integer_registers = Ok ?order"
      using True by (simp_all add: integer_registers_def)
    note args = pop_arguments_outcome [OF assms order(1), of a]
    show ?thesis
    proof (cases "integer_typed (ft_params ft)")
      case typed: True
      with args obtain b c where "pop_arguments ic (ft_params ft) ?order a = Ok b"
          "emit_call ic tb f b = Ok c" using emit_call_total [OF assms] by metis
      with push_results_outcome [OF assms, of "ft_returns ft" "[RAX, RDX]" c] True Some order typed
      show ?thesis by simp
    next
      case False
      with args Some order True show ?thesis
        by (cases "pop_arguments ic (ft_params ft) ?order a") auto
    qed
  qed (simp add: Some integer_registers_def)
qed simp

section \<open>Properties\<close>

text \<open>C8. The code emitted for the operators of a body computes what the operators mean: if
  the WebAssembly semantics takes operand stack and locals \<open>c\<close> to \<open>c'\<close> (with room on the
  stack, without \<open>i64.sub\<close>, and without calls and 32-bit operators, to which \<open>wasm_step\<close> gives no
  meaning), then the emitted instructions, run from any machine state
  that holds \<open>c\<close> in a frame, end in a state that holds \<open>c'\<close> and touch nothing outside the
  frame.\<close>

theorem operators_simulate:
  assumes "foldM (\<lambda>a op. handle_instruction ic tb (fr_locals f) op a) a ops = Ok a'"
    and "run_ops wasm_step (fr_height f) ops c = Some c'" and "I64Sub \<notin> set ops"
    and "frame_ok f" and "represents f c s"
  shows "\<exists>is s'. instructions a' = instructions a @ is \<and> run env is s = Some s'
    \<and> represents f c' s' \<and> same_outside f s s'"
proof -
  have runs: "run_ops compiled_step (fr_height f) ops c = Some c'"
    using assms(2,3) by (simp add: run_ops_compiled)
  have "length (snd c) = length (fr_locals f)"
    using assms(5) by (cases c) (simp add: represents_def)
  from run_ops_code [OF runs this] obtain "is" where code: "body_code (fr_locals f) ops = Some is" by blast
  with assms(1) have "emit ic is a = Ok a'" by (simp add: handle_body)
  from emit_Ok [OF this] body_sim [OF assms(4,5) runs code, of env] show ?thesis
    by (auto simp: reaches_def)
qed

definition sample_frame :: frame where
  "sample_frame = \<lparr>fr_rbp = 4096, fr_base = 4096, fr_locals = [], fr_height = 2\<rparr>"

definition sample_state :: x86 where
  "sample_state = set_reg RSP 4096 (set_reg RBP 4096 zero_state)"

definition empty_asm :: code_assembler where
  "empty_asm = \<lparr>asm_lines = [], asm_pending = None, asm_next = 0\<rparr>"

lemma sample_frame_ok: "frame_ok sample_frame" "represents sample_frame ([], []) sample_state"
  by (simp_all add: frame_ok_def represents_def sample_frame_def sample_state_def stack_slot_def machine_simps)

definition no_tables :: tables where
  "no_tables = \<lparr>got = [], ils = [], function_typedefs = [], function_types = []\<rparr>"

lemma sample_body:
  "\<exists>a'. foldM (\<lambda>a op. handle_instruction accepting no_tables (fr_locals sample_frame) op a) empty_asm
     [I64Const 2, I64Const 3, I64Add] = Ok a'"
  by (simp add: add_instruction_def)

theorem operators_simulate_witness:
  "\<exists>is s'. run no_calls is sample_state = Some s' \<and> represents sample_frame ([5], []) s'"
proof -
  from sample_body obtain a' where a': "foldM (\<lambda>a op. handle_instruction accepting no_tables
    (fr_locals sample_frame) op a) empty_asm [I64Const 2, I64Const 3, I64Add] = Ok a'" by blast
  from operators_simulate [OF a' _ _ sample_frame_ok, of "([5], [])" no_calls] show ?thesis
    by (auto simp: sample_frame_def)
qed

text \<open>C33. The operands of \<open>i64.sub\<close> are exchanged: where WebAssembly computes \<open>a - b\<close> (with \<open>b\<close>
  on top of the stack), the emitted code leaves \<open>b - a\<close>.\<close>

theorem i64_sub_reversed:
  assumes "handle_instruction ic tb (fr_locals f) I64Sub asm = Ok asm'"
    and "frame_ok f" and "represents f (b # a # st, ls) s"
  shows "wasm_step I64Sub (b # a # st, ls) = Some ((a - b) # st, ls)
    \<and> (\<exists>is s'. instructions asm' = instructions asm @ is \<and> run env is s = Some s'
         \<and> represents f ((b - a) # st, ls) s' \<and> same_outside f s s')"
proof -
  let ?is = "[POP RAX, POP RBX, SUB_rr RAX RBX, PUSH RAX]"
  from assms(1) have "emit ic ?is asm = Ok asm'" by (simp only: handle_instruction.simps)
  from emit_Ok [OF this] have "instructions asm' = instructions asm @ ?is" by simp
  moreover have "length st < fr_height f" using assms(3) by (simp add: represents_def)
  then obtain s' where "reaches f env ?is (b # a # st, ls) s ((b - a) # st, ls) s'"
    using op_sim [OF assms(2,3), of I64Sub] by fastforce
  ultimately show ?thesis by (auto simp: reaches_def)
qed

definition sub_state :: x86 where
  "sub_state = set_reg RSP 4080 (set_reg RBP 4096 (set_mem 4080 1 (set_mem 4088 3 zero_state)))"

lemma sub_state_represents: "represents sample_frame ([1, 3], []) sub_state"
  by (simp add: represents_def sample_frame_def sub_state_def stack_slot_def machine_simps less_Suc_eq
      read_write_apart apart_def)

theorem i64_sub_reversed_witness:
  "wasm_step I64Sub ([1, 3], []) = Some ([2], [])
   \<and> (\<exists>is s'. run no_calls is sub_state = Some s' \<and> represents sample_frame ([- 2], []) s')"
proof -
  have "\<exists>asm'. handle_instruction accepting no_tables (fr_locals sample_frame) I64Sub empty_asm = Ok asm'"
    by (simp add: add_instruction_def)
  with i64_sub_reversed [OF _ sample_frame_ok(1) sub_state_represents, of accepting no_tables _ _ no_calls]
  show ?thesis by fastforce
qed

text \<open>C29. Exactly which operators compile: with an assembler that takes every instruction,
  \<open>handle_instruction\<close> succeeds on the operators of \<open>supported\<close> (a local must exist; a
  called function must have a type with at most six integer parameters and integer
  results) and panics on every other one, among them the 519 operators of the match whose
  arm is \<open>todo!()\<close>.\<close>

theorem handle_instruction_outcome:
  assumes "\<And>i. refuses ic i = None"
  shows "(if supported tb locals op then \<exists>b. handle_instruction ic tb locals op a = Ok b
      else is_panic (handle_instruction ic tb locals op a))
    \<and> length todo_operators = 519
    \<and> (\<forall>name \<in> set todo_operators. is_panic (handle_instruction ic tb locals (Op_todo name) a))"
proof -
  have "if supported tb locals op then \<exists>b. handle_instruction ic tb locals op a = Ok b
    else is_panic (handle_instruction ic tb locals op a)"
  proof (cases op)
    case (Call f)
    show ?thesis unfolding Call by (rule call_outcome [OF assms])
  qed (use assms in \<open>auto simp: add_instruction_def\<close>)
  then show ?thesis by (simp add: todo_operators_count)
qed

theorem handle_instruction_outcome_witness:
  "is_panic (handle_instruction accepting no_tables [8] (Op_todo ''I32Eqz'') empty_asm)
   \<and> is_panic (handle_instruction accepting no_tables [8] (LocalGet 1) empty_asm)
   \<and> (\<exists>b. handle_instruction accepting no_tables [8] (LocalGet 0) empty_asm = Ok b)"
  using handle_instruction_outcome [of accepting no_tables "[8]" "Op_todo ''I32Eqz''" empty_asm]
    handle_instruction_outcome [of accepting no_tables "[8]" "LocalGet 1" empty_asm]
    handle_instruction_outcome [of accepting no_tables "[8]" "LocalGet 0" empty_asm]
  by (simp del: handle_instruction.simps)

end
