(* ===== verification/Function_Body.thy ===== *)
theory Function_Body
  imports Wasm_Reader Operator_Sound Optimizer
begin

text \<open>
  The code section of \<open>compile\<close> (\<open>src/parawasm/src/x86_64/mod.rs\<close>): what is emitted for one
  function. The prologue saves the frame pointer, lays the parameters and locals out
  below it, reserves their space and stores the parameter registers; the body is the code
  of its operators; the epilogue pops the results into registers and restores the frame.
\<close>

section \<open>The code\<close>

text \<open>Offsets of the parameters: each ends where the next begins.\<close>

definition layout_param :: "bool \<Rightarrow> nat list \<times> nat \<Rightarrow> val_type \<Rightarrow> ('e, nat list \<times> nat) res" where
  "layout_param checks acc param = (case acc of (locals, locals_size) \<Rightarrow>
     and_then (encoding_size param) (\<lambda>sz.
     and_then (u32_add checks locals_size sz) (\<lambda>off.
     and_then (u32_add checks locals_size sz) (\<lambda>size'.
       Ok (locals @ [off], size')))))"

definition layout_params :: "bool \<Rightarrow> val_type list \<Rightarrow> ('e, nat list \<times> nat) res" where
  "layout_params checks params = foldM (layout_param checks) ([], 0) params"

text \<open>The inner loop \<open>for i in 0..count\<close> over the locals of one declaration.\<close>

definition layout_run :: "bool \<Rightarrow> nat \<Rightarrow> nat \<Rightarrow> nat \<Rightarrow> nat list \<Rightarrow> ('e, nat list) res" where
  "layout_run checks locals_size sz count locals =
     foldM (\<lambda>locals i.
       and_then (u32_mul checks sz i) (\<lambda>p.
       and_then (u32_add checks locals_size p) (\<lambda>off. Ok (locals @ [off])))) locals [0..<count]"

definition layout_local ::
  "bool \<Rightarrow> ('p, 'v, 'f) wasmparser \<Rightarrow> func_body \<Rightarrow> nat list \<times> nat \<times> 'f \<Rightarrow> (nat \<times> val_type) item
     \<Rightarrow> (compile_error, nat list \<times> nat \<times> 'f) res" where
  "layout_local checks wp cs acc local = (case acc of (locals, locals_size, fv) \<Rightarrow>
     and_then (lift_reader local) (\<lambda>(count, ty).
     and_then (encoding_size ty) (\<lambda>sz.
     and_then (layout_run checks locals_size sz count locals) (\<lambda>locals'.
     and_then (u32_mul checks sz count) (\<lambda>p.
     and_then (u32_add checks locals_size p) (\<lambda>size'.
     and_then (lift_reader (define_locals wp fv (fb_position cs) count ty)) (\<lambda>fv'.
       Ok (locals', size', fv'))))))))"

text \<open>Storing the parameters: one register each, or an argument on the stack.\<close>

fun spill_params ::
  "bool \<Rightarrow> iced \<Rightarrow> nat list \<Rightarrow> nat \<Rightarrow> val_type list \<Rightarrow> register list \<Rightarrow> nat \<Rightarrow> code_assembler
     \<Rightarrow> (compile_error, code_assembler) res"
where
  "spill_params checks ic locals index [] integer_order extra_args_offset a = Ok a"
| "spill_params checks ic locals index (param # params) integer_order extra_args_offset a =
     (if param = I64 \<or> param = I32
      then (case pop_back integer_order of
              Some (reg, integer_order') \<Rightarrow>
                and_then (add_instruction ic a (MOV_mr (Mem Ptr RBP (- int (locals ! index))) reg))
                  (spill_params checks ic locals (Suc index) params integer_order' extra_args_offset)
            | None \<Rightarrow>
                and_then (emit ic
                   [MOV_rm R11 (Mem (if param = I64 then Qword_ptr else Dword_ptr) RBP
                                  (int extra_args_offset)),
                    MOV_mr (Mem Ptr RBP (- int (locals ! index))) R11] a) (\<lambda>a.
                and_then (encoding_size param) (\<lambda>sz.
                and_then (u32_add checks extra_args_offset sz) (\<lambda>extra'.
                  spill_params checks ic locals (Suc index) params integer_order extra' a))))
      else Panic ''not yet implemented'')"

text \<open>The operators: read, validate, note the stack height, emit.\<close>

definition compile_operator ::
  "iced \<Rightarrow> ('p, 'v, 'f) wasmparser \<Rightarrow> tables \<Rightarrow> nat list \<Rightarrow> 'f \<times> nat \<times> code_assembler
     \<Rightarrow> (operator \<times> nat) item \<Rightarrow> (compile_error, 'f \<times> nat \<times> code_assembler) res" where
  "compile_operator ic wp tb locals acc item = (case acc of (fv, height, a) \<Rightarrow>
     and_then (lift_reader item) (\<lambda>(op, offset).
     and_then (lift_reader (check_op wp fv offset op)) (\<lambda>fv'.
     and_then (handle_instruction ic tb locals op a) (\<lambda>a'.
       Ok (fv', max height (operand_stack_height wp fv'), a')))))"

text \<open>The results: popped into \<open>rax\<close>, then \<open>rdx\<close>; further results stay on the stack.\<close>

fun pop_results ::
  "iced \<Rightarrow> val_type list \<Rightarrow> register list \<Rightarrow> code_assembler \<Rightarrow> (compile_error, code_assembler) res"
where
  "pop_results ic [] integer_order a = Ok a"
| "pop_results ic (ret # rets) integer_order a =
     (if ret = I64 \<or> ret = I32
      then (case pop_front integer_order of
              Some (reg, integer_order') \<Rightarrow>
                and_then (add_instruction ic a (POP reg)) (pop_results ic rets integer_order')
            | None \<Rightarrow> pop_results ic rets integer_order a)
      else Panic ''not yet implemented'')"

text \<open>Everything emitted for a function, and its stack height.\<close>

definition compile_function ::
  "bool \<Rightarrow> iced \<Rightarrow> ('p, 'v, 'f) wasmparser \<Rightarrow> tables \<Rightarrow> func_type \<Rightarrow> func_body \<Rightarrow> 'f \<Rightarrow> code_assembler
     \<Rightarrow> (compile_error, nat \<times> code_assembler) res" where
  "compile_function checks ic wp tb function_type cs fv a =
     and_then (lift_reader (fb_operators cs)) (\<lambda>rd.
     and_then (emit ic [PUSH RBP, MOV_rr (mov_rr_code ic) RBP RSP] a) (\<lambda>a.
     and_then (drain_to (length (ft_params function_type)) integer_registers) (\<lambda>integer_order.
     and_then (layout_params checks (ft_params function_type)) (\<lambda>(locals, locals_size).
     and_then (lift_reader (fb_locals cs)) (\<lambda>local_items.
     and_then (foldM (layout_local checks wp cs) (locals, locals_size, fv) local_items)
       (\<lambda>(locals, locals_size, fv).
     and_then (if locals_size > 0 then emit ic [SUB_imm32 RSP locals_size] a else Ok a) (\<lambda>a.
     and_then (spill_params checks ic locals 0 (ft_params function_type) integer_order 8 a) (\<lambda>a.
     and_then (foldM (compile_operator ic wp tb locals) (fv, operand_stack_height wp fv, a) rd)
       (\<lambda>(fv, height, a).
     and_then (lift_reader (finish_function wp fv (fb_position cs))) (\<lambda>_.
     and_then (pop_results ic (ft_returns function_type) [RAX, RDX] a) (\<lambda>a.
     and_then (if locals_size > 0 then emit ic [ADD_imm32 RSP locals_size] a else Ok a) (\<lambda>a.
     and_then (emit ic [MOV_rr (mov_rr_code ic) RSP RBP, POP RBP, RET] a) (\<lambda>a.
       Ok (height, a))))))))))))))"

end
