(* ===== verification/Compile.thy ===== *)
theory Compile
  imports Function_Body
begin

text \<open>
  \<open>X86_64Compiler::compile\<close> (\<open>src/parawasm/src/x86_64/mod.rs\<close>): the loop over the payloads of a
  module, one handler per section, then optimising, binding the labels and encoding.

  The local variables of \<open>compile\<close> are the record \<open>cstate\<close>. The loop is a
  \<open>partial_function\<close>: \<open>None\<close> is a run that never ends.
\<close>

section \<open>State\<close>

record 'v cstate =
  c_validator :: 'v
  c_asm :: code_assembler
  c_tables :: tables
  c_module :: wasm_module
  c_function_index :: nat
  c_function_body_index :: nat
  c_function_type_index :: nat
  c_label_indices :: label_indices
  c_function_bodies :: "(label \<times> nat) list"

definition initial_state :: "iced \<Rightarrow> ('p, 'v, 'f) wasmparser \<Rightarrow> (compile_error, 'v cstate) res" where
  "initial_state ic wp =
     and_then (new_asm ic) (\<lambda>assembler. Ok \<lparr>
       c_validator = new_validator wp compiler_features, c_asm = assembler,
       c_tables = \<lparr>got = [], ils = [], function_typedefs = [], function_types = []\<rparr>,
       c_module = new_module, c_function_index = 0, c_function_body_index = 0,
       c_function_type_index = 0, c_label_indices = [], c_function_bodies = []\<rparr>)"

section \<open>Section handlers\<close>

definition validate :: "('p, 'v, 'f) wasmparser \<Rightarrow> payload \<Rightarrow> 'v cstate \<Rightarrow> (compile_error, 'v cstate) res" where
  "validate wp payload cs =
     and_then (lift_reader (validate_section wp (c_validator cs) payload))
       (\<lambda>v. Ok (cs\<lparr>c_validator := v\<rparr>))"

definition on_memory :: "'v cstate \<Rightarrow> memory_type item \<Rightarrow> (compile_error, 'v cstate) res" where
  "on_memory cs m =
     and_then (lift_reader m) (\<lambda>mem.
       Ok (cs\<lparr>c_module := (c_module cs)\<lparr>m_memories := m_memories (c_module cs) @ [mem]\<rparr>\<rparr>))"

definition on_type :: "bool \<Rightarrow> 'v cstate \<Rightarrow> type_def item \<Rightarrow> (compile_error, 'v cstate) res" where
  "on_type checks cs t =
     and_then (lift_reader t) (\<lambda>typedef.
       case typedef of
         TypeDef_Func func_type \<Rightarrow>
           and_then (u32_add checks (c_function_type_index cs) 1) (\<lambda>next_index.
             Ok (cs\<lparr>c_tables := (c_tables cs)\<lparr>function_typedefs :=
                       bt_insert (c_function_type_index cs) func_type (function_typedefs (c_tables cs))\<rparr>,
                    c_function_type_index := next_index\<rparr>))
       | TypeDef_Other \<Rightarrow> Ok cs)"

text \<open>\<open>assemble_options(0, RETURN_NEW_INSTRUCTION_OFFSETS)?.label_ip(label)?\<close>\<close>

definition current_ip :: "iced \<Rightarrow> code_assembler \<Rightarrow> label \<Rightarrow> (compile_error, nat) res" where
  "current_ip ic a label =
     and_then (lift_iced (encode ic (asm_lines a))) (\<lambda>_. lift_iced (label_ip ic (asm_lines a) label))"

definition import_placeholder :: u64 where
  "import_placeholder = 0xBADC0FFEE0DDF00D"

definition on_import :: "bool \<Rightarrow> iced \<Rightarrow> 'v cstate \<Rightarrow> import_entry item \<Rightarrow> (compile_error, 'v cstate) res" where
  "on_import checks ic cs i =
     and_then (lift_reader i) (\<lambda>import.
     let (current_label, a) = create_label (c_asm cs) in
     and_then (set_label ic current_label a) (\<lambda>a.
     and_then (add_instruction ic a ZERO_BYTES) (\<lambda>a.
     and_then (current_ip ic a current_label) (\<lambda>offset.
     case im_ty import of
       Import_Function function_type \<Rightarrow>
         (let (label, a') = create_label a;
              at = length (instructions a') in
          and_then (add_instruction ic a' (DQ [import_placeholder])) (\<lambda>a''.
          and_then (u32_add checks (c_function_index cs) 1) (\<lambda>next_index.
          and_then (u32_add checks (c_function_body_index cs) 1) (\<lambda>next_body.
            Ok (cs\<lparr>c_asm := a'',
                   c_module := (c_module cs)\<lparr>m_imports :=
                     bt_insert (c_function_index cs) (im_module import, im_field import, offset)
                       (m_imports (c_module cs))\<rparr>,
                   c_tables := (c_tables cs)\<lparr>
                     ils := bt_insert (c_function_index cs) label (ils (c_tables cs)),
                     function_types := bt_insert (c_function_index cs) function_type
                                         (function_types (c_tables cs))\<rparr>,
                   c_label_indices := c_label_indices cs @ [(at, label)],
                   c_function_index := next_index,
                   c_function_body_index := next_body\<rparr>)))))
     | Import_Other \<Rightarrow> Ok (cs\<lparr>c_asm := a\<rparr>)))))"

definition on_function :: "bool \<Rightarrow> iced \<Rightarrow> 'v cstate \<Rightarrow> nat item \<Rightarrow> (compile_error, 'v cstate) res" where
  "on_function checks ic cs function_type =
     (let (label, a) = create_label (c_asm cs);
          offset = length (instructions a) in
      and_then (add_instruction ic a (DQ [0])) (\<lambda>a.
      let (got_label, a) = create_label a in
      and_then (lift_reader function_type) (\<lambda>t.
      and_then (u32_add checks (c_function_index cs) 1) (\<lambda>next_index.
        Ok (cs\<lparr>c_asm := a,
               c_module := (c_module cs)\<lparr>m_functions :=
                 bt_insert (c_function_index cs) offset (m_functions (c_module cs))\<rparr>,
               c_tables := (c_tables cs)\<lparr>
                 got := bt_insert (c_function_index cs) got_label (got (c_tables cs)),
                 function_types := bt_insert (c_function_index cs) t (function_types (c_tables cs))\<rparr>,
               c_label_indices := c_label_indices cs @ [(offset, label)],
               c_function_index := next_index\<rparr>)))))"

definition on_export :: "'v cstate \<Rightarrow> export_entry item \<Rightarrow> (compile_error, 'v cstate) res" where
  "on_export cs e =
     and_then (lift_reader e) (\<lambda>export.
       Ok (cs\<lparr>c_module := (c_module cs)\<lparr>m_exports :=
                bt_insert (ex_field export) (ex_index export) (m_exports (c_module cs))\<rparr>\<rparr>))"

definition on_code ::
  "bool \<Rightarrow> iced \<Rightarrow> ('p, 'v, 'f) wasmparser \<Rightarrow> func_body \<Rightarrow> 'v cstate \<Rightarrow> (compile_error, 'v cstate) res" where
  "on_code checks ic wp body cs =
     and_then (lift_reader (code_section_entry wp (c_validator cs))) (\<lambda>(fv, v).
     and_then (unwrap ''called `Option::unwrap()` on a `None` value''
                 (function_type_of (c_tables cs) (c_function_body_index cs))) (\<lambda>function_type.
     and_then (unwrap ''called `Option::unwrap()` on a `None` value''
                 (bt_get (got (c_tables cs)) (c_function_body_index cs))) (\<lambda>fun_label.
     and_then (compile_function checks ic wp (c_tables cs) function_type body fv (c_asm cs))
       (\<lambda>(height, a).
     and_then (u32_add checks (c_function_body_index cs) 1) (\<lambda>next_body.
       Ok (cs\<lparr>c_validator := v, c_asm := a,
              c_module := (c_module cs)\<lparr>m_function_stack_heights :=
                bt_insert (c_function_body_index cs) height (m_function_stack_heights (c_module cs))\<rparr>,
              c_label_indices := c_label_indices cs @ [(length (instructions (c_asm cs)), fun_label)],
              c_function_bodies := c_function_bodies cs @ [(fun_label, c_function_body_index cs)],
              c_function_body_index := next_body\<rparr>))))))"

fun handle_payload ::
  "bool \<Rightarrow> iced \<Rightarrow> ('p, 'v, 'f) wasmparser \<Rightarrow> payload \<Rightarrow> 'v cstate \<Rightarrow> (compile_error, 'v cstate) res"
where
  "handle_payload checks ic wp (P_MemorySection r) cs =
     and_then (validate wp (P_MemorySection r) cs) (\<lambda>cs. foldM on_memory cs r)"
| "handle_payload checks ic wp (P_TypeSection ts) cs =
     and_then (validate wp (P_TypeSection ts) cs) (\<lambda>cs. foldM (on_type checks) cs ts)"
| "handle_payload checks ic wp (P_ImportSection is) cs =
     and_then (validate wp (P_ImportSection is) cs) (\<lambda>cs. foldM (on_import checks ic) cs is)"
| "handle_payload checks ic wp (P_FunctionSection fs) cs =
     and_then (validate wp (P_FunctionSection fs) cs) (\<lambda>cs. foldM (on_function checks ic) cs fs)"
| "handle_payload checks ic wp (P_ExportSection es) cs =
     and_then (validate wp (P_ExportSection es) cs) (\<lambda>cs. foldM on_export cs es)"
| "handle_payload checks ic wp (P_CodeSectionEntry body) cs = on_code checks ic wp body cs"
| "handle_payload checks ic wp P_CustomSection cs = Ok cs"
| "handle_payload checks ic wp P_ModuleSectionEntry cs =
     Ok (cs\<lparr>c_validator := module_section_entry wp (c_validator cs)\<rparr>)"
| "handle_payload checks ic wp payload cs = validate wp payload cs"

section \<open>The payload loop\<close>

partial_function (option) parse_loop ::
  "bool \<Rightarrow> iced \<Rightarrow> ('p, 'v, 'f) wasmparser \<Rightarrow> 'p \<Rightarrow> u8 list \<Rightarrow> bool \<Rightarrow> 'v cstate
     \<Rightarrow> (compile_error, 'v cstate) res option"
where
  "parse_loop checks ic wp parser data eof cs =
     (case parse wp parser data eof of
        Inl e \<Rightarrow> Some (Err (WasmReaderError e))
      | Inr (parser', NeedMoreData _) \<Rightarrow> parse_loop checks ic wp parser' data eof cs
      | Inr (parser', Parsed consumed payload) \<Rightarrow>
          (case handle_payload checks ic wp payload cs of
             Err e \<Rightarrow> Some (Err e)
           | Panic m \<Rightarrow> Some (Panic m)
           | Ok cs' \<Rightarrow>
               (if payload = P_End then Some (Ok cs')
                else if length data < consumed then Some (Panic ''range start index out of range'')
                else parse_loop checks ic wp parser' (drop consumed data)
                       (length (drop consumed data) = 0) cs')))"

section \<open>Optimising, binding labels, encoding\<close>

definition bind_label ::
  "iced \<Rightarrow> (label \<times> nat) list \<Rightarrow> label_indices \<Rightarrow> code_assembler \<times> wasm_module \<Rightarrow> nat \<times> instr
     \<Rightarrow> (compile_error, code_assembler \<times> wasm_module) res" where
  "bind_label ic bodies labels acc entry = (case (acc, entry) of ((a, m), (idx, i)) \<Rightarrow>
     and_then
       (case find (\<lambda>(k, _). k = idx) labels of
          None \<Rightarrow> Ok (a, m)
        | Some (_, label) \<Rightarrow>
            and_then (set_label ic label a) (\<lambda>a.
            and_then (add_instruction ic a ZERO_BYTES) (\<lambda>a.
            case find (\<lambda>(l, _). l = label) bodies of
              None \<Rightarrow> Ok (a, m)
            | Some (_, index) \<Rightarrow>
                and_then (current_ip ic a label) (\<lambda>ip.
                  Ok (a, m\<lparr>m_function_bodies := bt_insert index ip (m_function_bodies m)\<rparr>)))))
       (\<lambda>(a, m). and_then (add_instruction ic a i) (\<lambda>a. Ok (a, m))))"

definition finish_module :: "iced \<Rightarrow> 'v cstate \<Rightarrow> (compile_error, assembled_module) res" where
  "finish_module ic cs =
     (let (instructions0, a) = take_instructions (c_asm cs) in
      and_then (optimize ic instructions0 (c_label_indices cs)) (\<lambda>(optimized, labels).
      and_then (emit ic optimized a) (\<lambda>a.
      let (instructions1, a) = take_instructions a in
      and_then (foldM (bind_label ic (c_function_bodies cs) labels) (a, c_module cs)
                  (enumerate 0 instructions1)) (\<lambda>(a, m).
      and_then (lift_iced (encode ic (asm_lines a))) (\<lambda>bytes.
        Ok (assembled_from m bytes))))))"

definition compile ::
  "bool \<Rightarrow> iced \<Rightarrow> ('p, 'v, 'f) wasmparser \<Rightarrow> u8 list \<Rightarrow> (compile_error, assembled_module) res option" where
  "compile checks ic wp module =
     (case initial_state ic wp of
        Err e \<Rightarrow> Some (Err e)
      | Panic m \<Rightarrow> Some (Panic m)
      | Ok cs \<Rightarrow> map_option (\<lambda>r. and_then r (finish_module ic))
                    (parse_loop checks ic wp (new_parser wp) module False cs))"

end
