(* ===== verification/Function_Layout.thy ===== *)
theory Function_Layout
  imports Function_Body
begin

text \<open>
  Where the compiler puts parameters and locals, and which registers it stores where:
  lemmas on \<open>layout_params\<close>, \<open>layout_local\<close>, \<open>spill_params\<close>, \<open>pop_arguments\<close>, \<open>push_results\<close>
  and \<open>pop_results\<close> of the theories \<open>Function_Body\<close> and \<open>Instructions\<close>.
\<close>

section \<open>Offsets of the parameters\<close>

fun type_size :: "val_type \<Rightarrow> nat option" where
  "type_size I32 = Some 4"
| "type_size I64 = Some 8"
| "type_size F32 = Some 4"
| "type_size F64 = Some 8"
| "type_size V128 = Some 16"
| "type_size _ = None"

definition has_size :: "val_type \<Rightarrow> bool" where
  "has_size t = (type_size t \<noteq> None)"

definition size_of :: "val_type \<Rightarrow> nat" where
  "size_of t = the (type_size t)"

lemma encoding_size_cases:
  "encoding_size t = (if has_size t then Ok (size_of t) else Panic ''not yet implemented'')"
  by (cases t) (simp_all add: has_size_def size_of_def)

text \<open>The running totals of a list of sizes.\<close>

definition totals :: "nat \<Rightarrow> nat list \<Rightarrow> nat list" where
  "totals start szs = map (\<lambda>i. start + sum_list (take (Suc i) szs)) [0..<length szs]"

lemma upt_Suc_conv: "[0..<Suc n] = 0 # map Suc [0..<n]"
  by (simp add: upt_conv_Cons map_Suc_upt del: upt_Suc)

lemma totals_Cons: "totals start (z # szs) = (start + z) # totals (start + z) szs"
  unfolding totals_def by (simp del: upt_Suc add: upt_Suc_conv comp_def add.assoc)

lemma totals_Nil [simp]: "totals start [] = []"
  by (simp add: totals_def)

lemma length_totals [simp]: "length (totals start szs) = length szs"
  by (simp add: totals_def)

lemma nth_totals: "i < length szs \<Longrightarrow> totals start szs ! i = start + sum_list (take (Suc i) szs)"
  by (simp add: totals_def)

lemma layout_params_from:
  assumes "\<forall>p \<in> set params. has_size p" and "start + sum_list (map size_of params) < 2 ^ 32"
  shows "foldM (layout_param checks) (locals, start) params
    = Ok (locals @ totals start (map size_of params), start + sum_list (map size_of params))"
  using assms
proof (induction params arbitrary: locals start)
  case (Cons p params)
  then show ?case
    by (simp add: layout_param_def encoding_size_cases arith_simps totals_Cons add.assoc)
qed simp

lemma layout_params_Ok:
  assumes "\<forall>p \<in> set params. has_size p" and "sum_list (map size_of params) < 2 ^ 32"
  shows "layout_params checks params
    = Ok (totals 0 (map size_of params), sum_list (map size_of params))"
  using layout_params_from [of params 0 checks "[]"] assms by (simp add: layout_params_def)

text \<open>The first parameter without a size stops the loop, unless the sum overflowed before.\<close>

lemma layout_params_unsized:
  assumes "\<not> (\<forall>p \<in> set params. has_size p)" and "sum_list (map size_of params) < 2 ^ 32"
  shows "layout_params checks params = Panic ''not yet implemented''"
proof -
  from assms(1) obtain pre p post where split: "params = pre @ p # post" "\<not> has_size p" "\<forall>q \<in> set pre. has_size q"
    using split_list_first_prop [of params "\<lambda>p. \<not> has_size p"] by auto
  moreover have "sum_list (map size_of pre) < 2 ^ 32" using assms(2) split(1) by simp
  ultimately show ?thesis
    by (simp add: layout_params_def layout_params_from) (simp add: layout_param_def encoding_size_cases)
qed

section \<open>Offsets of the declared locals\<close>

lemma layout_run_Ok:
  assumes "locals_size + sz * count < 2 ^ 32"
  shows "layout_run checks locals_size sz count locals
    = Ok (locals @ map (\<lambda>i. locals_size + sz * i) [0..<count])"
  using assms
proof (induction count arbitrary: locals)
  case (Suc count)
  then have "locals_size + sz * count < 2 ^ 32" "sz * count < 2 ^ 32" by auto
  with Suc.IH [of locals] show ?case
    by (simp add: layout_run_def arith_simps)
qed (simp add: layout_run_def)

lemma layout_local_Ok:
  assumes "has_size ty" and "locals_size + size_of ty * count < 2 ^ 32"
    and "define_locals wp fv (fb_position cs) count ty = Inr fv'"
  shows "layout_local checks wp cs (locals, locals_size, fv) (Inr (count, ty))
    = Ok (locals @ map (\<lambda>i. locals_size + size_of ty * i) [0..<count],
          locals_size + size_of ty * count, fv')"
proof -
  from assms(2) have "size_of ty * count < 2 ^ 32" by simp
  with assms show ?thesis
    by (simp add: layout_local_def encoding_size_cases layout_run_Ok arith_simps)
qed

section \<open>Registers of parameters, arguments and results\<close>

definition is_int :: "val_type \<Rightarrow> bool" where
  "is_int t = (t = I64 \<or> t = I32)"

lemma is_int_has_size: "is_int t \<Longrightarrow> has_size t"
  by (auto simp: is_int_def has_size_def)

lemma pop_back_snoc [simp]: "pop_back (xs @ [x]) = Some (x, xs)"
  by (simp add: pop_back_def)

text \<open>With a register per parameter, the parameters are stored from the last register down.\<close>

lemma spill_params_registers:
  assumes "\<forall>p \<in> set params. is_int p" and "length order = length params"
  shows "spill_params checks ic locals index params order extra
    = emit ic (map (\<lambda>k. MOV_mr (Mem Ptr RBP (- int (locals ! (index + k)))) (rev order ! k))
                 [0..<length params])"
  using assms
proof (induction params arbitrary: index order)
  case (Cons p params)
  from Cons.prems obtain r order' where order: "order = order' @ [r]" "length order' = length params"
    by (cases order rule: rev_cases) auto
  from Cons.prems have p: "p = I64 \<or> p = I32" by (simp add: is_int_def)
  from Cons.IH [of order' "Suc index"] Cons.prems order have
    IH: "spill_params checks ic locals (Suc index) params order' extra
      = emit ic (map (\<lambda>k. MOV_mr (Mem Ptr RBP (- int (locals ! (Suc index + k)))) (rev order' ! k))
                 [0..<length params])" by simp
  show ?case
    by (rule ext) (simp add: order p IH upt_Suc_conv comp_def del: upt_Suc)
qed (simp add: fun_eq_iff)

lemma pop_arguments_registers:
  assumes "\<forall>p \<in> set params. is_int p" and "length order = length params"
  shows "pop_arguments ic params order = emit ic (map POP (rev order))"
  using assms
proof (induction params arbitrary: order)
  case (Cons p params)
  from Cons.prems obtain r order' where order: "order = order' @ [r]" "length order' = length params"
    by (cases order rule: rev_cases) auto
  from Cons.prems have "p = I64 \<or> p = I32" by (simp add: is_int_def)
  with Cons.IH [of order'] Cons.prems order show ?case by (intro ext) simp
qed (simp add: fun_eq_iff)

lemma push_results_registers:
  "\<forall>t \<in> set rets. is_int t \<Longrightarrow> push_results ic rets order = emit ic (map PUSH (take (length rets) order))"
proof (induction rets arbitrary: order)
  case (Cons t rets)
  then have "t = I64 \<or> t = I32" by (simp add: is_int_def)
  with Cons show ?case by (intro ext, cases order) (simp_all add: pop_front_def)
qed (simp add: fun_eq_iff)

lemma pop_results_registers:
  "\<forall>t \<in> set rets. is_int t \<Longrightarrow> pop_results ic rets order = emit ic (map POP (take (length rets) order))"
proof (induction rets arbitrary: order)
  case (Cons t rets)
  then have "t = I64 \<or> t = I32" by (simp add: is_int_def)
  with Cons show ?case by (intro ext, cases order) (simp_all add: pop_front_def)
qed (simp add: fun_eq_iff)

section \<open>Properties of the layout\<close>

lemma totals_step:
  assumes "Suc i < length szs"
  shows "totals start szs ! Suc i = totals start szs ! i + szs ! Suc i"
  using assms by (simp add: nth_totals take_Suc_conv_app_nth)

lemma totals_mono:
  assumes "i < j" and "j < length szs"
  shows "totals start szs ! i + szs ! j \<le> totals start szs ! j"
  using assms
proof (induction j)
  case (Suc j)
  then show ?case
    using totals_step [of j szs start] by (cases "i = j") auto
qed simp

lemma totals_last_le: "i < length szs \<Longrightarrow> totals start szs ! i \<le> start + sum_list szs"
proof -
  assume "i < length szs"
  moreover have "sum_list (take (Suc i) szs) \<le> sum_list (take (Suc i) szs) + sum_list (drop (Suc i) szs)"
    by simp
  ultimately show ?thesis
    by (simp add: nth_totals) (metis append_take_drop_id le_add1 sum_list_append)
qed



lemma layout_declared:
  assumes "layout_params checks params = Ok (locals, locals_size)"
    and "layout_local checks wp cs (locals, locals_size, fv) (Inr (count, ty)) = Ok (locals', size', fv')"
    and "has_size ty" and "locals_size + size_of ty * count < 2 ^ 32"
  shows "locals' = locals @ map (\<lambda>i. locals_size + size_of ty * i) [0..<count]"
proof -
  have "\<exists>x. define_locals wp fv (fb_position cs) count ty = Inr x"
  proof (cases "define_locals wp fv (fb_position cs) count ty")
    case (Inl e)
    with assms(2) show ?thesis by (auto simp: layout_local_def res_simps lift_reader_def)
  qed simp
  with layout_local_Ok [OF assms(3,4)] assms(2) show ?thesis by fastforce
qed

text \<open>A declared local is not given a slot of its own: the first one gets the offset of
  the last parameter, so both are the same memory; in a function without parameters
  its offset is 0, the place where the prologue saved the caller's \<open>rbp\<close>.\<close>

theorem declared_local_aliases:
  assumes "layout_params checks params = Ok (locals, locals_size)"
    and "\<forall>p \<in> set params. has_size p" and "sum_list (map size_of params) < 2 ^ 32"
    and "layout_local checks wp cs (locals, locals_size, fv) (Inr (count, ty)) = Ok (locals', size', fv')"
    and "has_size ty" and "locals_size + size_of ty * count < 2 ^ 32" and "0 < count"
  shows "locals' ! length params = (if params = [] then 0 else locals' ! (length params - 1))"
proof -
  have locals: "locals = totals 0 (map size_of params)" "locals_size = sum_list (map size_of params)"
    using assms(1) by (auto simp: layout_params_Ok [OF assms(2,3)])
  have new: "locals' = locals @ map (\<lambda>i. locals_size + size_of ty * i) [0..<count]"
    by (rule layout_declared [OF assms(1,4-6)])
  then have "locals' ! length params = locals_size"
    using assms(7) locals(1) by (simp add: nth_append)
  moreover have "locals' ! (length params - 1) = locals_size" if "params \<noteq> []"
    using that new locals by (simp add: nth_append nth_totals)
  ultimately show ?thesis using locals by auto
qed

text \<open>A reader and validator that accept everything, for concrete instances: the parser state
  is the list of payloads still to come.\<close>

definition permissive :: "(payload list, unit, nat) wasmparser" where
  "permissive = \<lparr>new_parser = [],
     parse = (\<lambda>ps data eof. case ps of [] \<Rightarrow> Inr ([], NeedMoreData 1) | p # ps' \<Rightarrow> Inr (ps', Parsed 0 p)),
     new_validator = (\<lambda>_. ()), validate_section = (\<lambda>v p. Inr v), module_section_entry = (\<lambda>v. v),
     code_section_entry = (\<lambda>v. Inr (0, v)), define_locals = (\<lambda>fv off count ty. Inr fv),
     check_op = (\<lambda>fv off op. Inr (Suc fv)), operand_stack_height = (\<lambda>fv. fv),
     finish_function = (\<lambda>fv pos. Inr ())\<rparr>"

lemma permissive_simps [simp]:
  "validate_section permissive v p = Inr v" "code_section_entry permissive v = Inr (0, v)"
  "define_locals permissive fv off count ty = Inr fv" "check_op permissive fv off op = Inr (Suc fv)"
  "operand_stack_height permissive fv = fv" "finish_function permissive fv pos = Inr ()"
  by (simp_all add: permissive_def)

definition empty_body :: func_body where
  "empty_body = \<lparr>fb_locals = Inr [], fb_operators = Inr [], fb_position = 0\<rparr>"

lemma declared_local_example:
  "layout_params True [I64] = Ok ([8], 8)"
  "layout_local True permissive empty_body ([8], 8, 0) (Inr (1, I64)) = Ok ([8, 8], 16, 0)"
  by (simp_all add: layout_params_def layout_param_def layout_local_def layout_run_def arith_simps)

theorem declared_local_aliases_witness: "[8, 8 :: nat] ! length [I64] = [8, 8] ! (length [I64] - 1)"
  using declared_local_aliases [OF declared_local_example(1) _ _ declared_local_example(2)]
  by (simp add: has_size_def size_of_def)

end
