(* ===== verification/Parse_Loop.thy ===== *)
theory Parse_Loop
  imports Compile Function_Layout
begin

text \<open>
  The payload loop of \<open>compile\<close> (\<open>src/parawasm/src/x86_64/mod.rs\<close>). When the parser delivers a
  finite series of payloads up to the end of the module, the loop is a fold of the
  section handlers over them (\<open>delivers\<close> describes what the parser does). When the parser
  keeps asking for more data, which the loop never supplies, the loop does not end.
\<close>

section \<open>What the parser delivers\<close>

inductive delivers ::
  "('p, 'v, 'f) wasmparser \<Rightarrow> 'p \<Rightarrow> u8 list \<Rightarrow> bool \<Rightarrow> payload list \<Rightarrow> bool"
where
  delivers_end:
    "parse wp p data eof = Inr (p', Parsed consumed P_End) \<Longrightarrow> delivers wp p data eof [P_End]"
| delivers_payload:
    "parse wp p data eof = Inr (p', Parsed consumed payload) \<Longrightarrow> payload \<noteq> P_End \<Longrightarrow>
     consumed \<le> length data \<Longrightarrow>
     delivers wp p' (drop consumed data) (length (drop consumed data) = 0) payloads \<Longrightarrow>
     delivers wp p data eof (payload # payloads)"
| delivers_wait:
    "parse wp p data eof = Inr (p', NeedMoreData hint) \<Longrightarrow> delivers wp p' data eof payloads \<Longrightarrow>
     delivers wp p data eof payloads"

inductive_cases delivers_NilE: "delivers wp p data eof []"

definition handle_all ::
  "bool \<Rightarrow> iced \<Rightarrow> ('p, 'v, 'f) wasmparser \<Rightarrow> 'v cstate \<Rightarrow> payload list \<Rightarrow> (compile_error, 'v cstate) res"
where
  "handle_all checks ic wp = foldM (\<lambda>cs payload. handle_payload checks ic wp payload cs)"

lemma handle_all_simps [simp]:
  "handle_all checks ic wp cs [] = Ok cs"
  "handle_all checks ic wp cs (p # ps) =
     and_then (handle_payload checks ic wp p cs) (\<lambda>cs'. handle_all checks ic wp cs' ps)"
  by (simp_all add: handle_all_def)

lemma parse_loop_delivers:
  "delivers wp p data eof payloads \<Longrightarrow>
     parse_loop checks ic wp p data eof cs = Some (handle_all checks ic wp cs payloads)"
proof (induction arbitrary: cs rule: delivers.induct)
  case (delivers_end wp p data eof p' consumed)
  then show ?case
    by (subst parse_loop.simps) (simp split: res.split del: handle_payload.simps)
next
  case (delivers_payload wp p data eof p' consumed payload payloads)
  then show ?case
    by (subst parse_loop.simps) (simp split: res.split del: handle_payload.simps)
next
  case (delivers_wait wp p data eof p' hint payloads)
  then show ?case by (subst parse_loop.simps) simp
qed

text \<open>A set of parser states from which the parser only ever asks for more data.\<close>

definition starved :: "('p, 'v, 'f) wasmparser \<Rightarrow> u8 list \<Rightarrow> bool \<Rightarrow> 'p set \<Rightarrow> bool" where
  "starved wp data eof S = (\<forall>p \<in> S. \<exists>p' \<in> S. \<exists>hint. parse wp p data eof = Inr (p', NeedMoreData hint))"

lemma parse_loop_unstarved:
  assumes "starved wp data eof S"
    and "parse_loop checks' ic' wp' p' data' eof' cs' = Some r'"
  shows "wp' = wp \<and> data' = data \<and> eof' = eof \<longrightarrow> p' \<notin> S"
proof (rule parse_loop.raw_induct [OF _ assms(2), where P = "\<lambda>_ _ wp' p' data' eof' _ _.
      wp' = wp \<and> data' = data \<and> eof' = eof \<longrightarrow> p' \<notin> S"], intro impI notI)
  fix loop checks ic and wp' :: "('a, 'b, 'c) wasmparser" and p' data' eof' cs r
  assume IH: "\<And>checks ic (wp' :: ('a, 'b, 'c) wasmparser) p' data' eof' cs r.
      loop checks ic wp' p' data' eof' cs = Some r \<Longrightarrow> wp' = wp \<and> data' = data \<and> eof' = eof \<longrightarrow> p' \<notin> S"
    and step: "(case parse wp' p' data' eof' of
        Inl e \<Rightarrow> Some (Err (WasmReaderError e))
      | Inr (parser', NeedMoreData _) \<Rightarrow> loop checks ic wp' parser' data' eof' cs
      | Inr (parser', Parsed consumed payload) \<Rightarrow>
          (case handle_payload checks ic wp' payload cs of
             Ok cs' \<Rightarrow>
               (if payload = P_End then Some (Ok cs')
                else if length data' < consumed then Some (Panic ''range start index out of range'')
                else loop checks ic wp' parser' (drop consumed data')
                       (length (drop consumed data') = 0) cs')
           | Err e \<Rightarrow> Some (Err e)
           | Panic m \<Rightarrow> Some (Panic m))) = Some r"
    and eqs: "wp' = wp \<and> data' = data \<and> eof' = eof" and "p' \<in> S"
  from assms(1) eqs \<open>p' \<in> S\<close> obtain q hint where
    q: "q \<in> S" "parse wp' p' data' eof' = Inr (q, NeedMoreData hint)" by (auto simp: starved_def)
  with step have "loop checks ic wp' q data' eof' cs = Some r" by simp
  from IH [OF this] eqs q(1) show False by simp
qed

lemma parse_loop_starved:
  assumes "starved wp data eof S" and "p \<in> S"
  shows "parse_loop checks ic wp p data eof cs = None"
proof (cases "parse_loop checks ic wp p data eof cs")
  case (Some r)
  from parse_loop_unstarved [OF assms(1) this] assms(2) show ?thesis by simp
qed

section \<open>Properties\<close>

text \<open>C21. The payload loop ends on every module the parser can read to the end, and
  \<open>compile\<close> then is: the handlers of the payloads in order, stopping at the first error
  or panic, followed by optimising, binding and encoding.\<close>

theorem compile_is_fold:
  assumes "delivers wp (new_parser wp) module False payloads" and "new_assembler ic = None"
  shows "\<exists>cs. initial_state ic wp = Ok cs
    \<and> compile checks ic wp module = Some (and_then (handle_all checks ic wp cs payloads) (finish_module ic))"
  using assms parse_loop_delivers [OF assms(1)]
  by (simp add: compile_def initial_state_def new_asm_def)

definition scripted :: "payload list \<Rightarrow> (payload list, unit, nat) wasmparser" where
  "scripted payloads = permissive\<lparr>new_parser := payloads\<rparr>"

lemma scripted_delivers:
  "P_End \<notin> set ps \<Longrightarrow> delivers (scripted qs) (ps @ [P_End]) data eof (ps @ [P_End])"
proof (induction ps arbitrary: data eof)
  case Nil
  show ?case by (simp, rule delivers_end [of _ _ _ _ "[]" 0]) (simp add: scripted_def permissive_def)
next
  case (Cons p ps)
  have "parse (scripted qs) ((p # ps) @ [P_End]) data eof = Inr (ps @ [P_End], Parsed 0 p)"
    by (simp add: scripted_def permissive_def)
  with Cons show ?case using delivers_payload [of "scripted qs" "(p # ps) @ [P_End]" data eof] by fastforce
qed

theorem compile_is_fold_witness:
  "\<exists>cs. compile True accepting (scripted [P_CustomSection, P_End]) []
     = Some (and_then (handle_all True accepting (scripted [P_CustomSection, P_End]) cs [P_CustomSection, P_End])
               (finish_module accepting))"
proof -
  have "delivers (scripted [P_CustomSection, P_End]) (new_parser (scripted [P_CustomSection, P_End])) [] False
    [P_CustomSection, P_End]"
    using scripted_delivers [of "[P_CustomSection]" "[P_CustomSection, P_End]" "[]" False]
    by (simp add: scripted_def)
  from compile_is_fold [OF this, of accepting True] show ?thesis by auto
qed

text \<open>C31. On input that stops short the compiler hangs: the loop answers a request for more
  data by calling the parser again with the same slice, so if the parser keeps asking,
  \<open>compile\<close> never returns, with an error or otherwise.\<close>

theorem compile_hangs_when_starved:
  assumes "starved wp module False S" and "new_parser wp \<in> S" and "new_assembler ic = None"
  shows "compile checks ic wp module = None"
  using assms parse_loop_starved [OF assms(1,2)]
  by (simp add: compile_def initial_state_def new_asm_def)

theorem compile_hangs_when_starved_witness: "compile True accepting permissive [] = None"
proof -
  have "starved permissive [] False {[]}" "new_parser permissive \<in> {[]}"
    by (simp_all add: starved_def permissive_def)
  from compile_hangs_when_starved [OF this] show ?thesis by simp
qed

end
