(* ===== verification/Function_Sound.thy ===== *)
theory Function_Sound
  imports Function_Layout
begin

text \<open>
  A whole compiled function, before and after optimising, run on the machine: the prologue
  builds the frame that \<open>Operator_Sound\<close> assumes, the body simulates its operators, the
  epilogue returns the result in \<open>rax\<close> with the stack and frame pointers restored. The
  functions covered take up to six \<open>i64\<close> parameters, declare no locals, call nothing and
  return one value.
\<close>

section \<open>The code of such a function\<close>

definition param_offsets :: "nat \<Rightarrow> nat list" where
  "param_offsets n = map (\<lambda>k. 8 * Suc k) [0..<n]"

definition spills :: "nat \<Rightarrow> instr list" where
  "spills n = map (\<lambda>k. MOV_mr (Mem Ptr RBP (- int (8 * Suc k))) (rev (take n integer_registers) ! k)) [0..<n]"

definition prologue :: "mov_encoding \<Rightarrow> nat \<Rightarrow> instr list" where
  "prologue enc n = [PUSH RBP, MOV_rr enc RBP RSP]
     @ (if 0 < 8 * n then [SUB_imm32 RSP (8 * n)] else []) @ spills n"

definition epilogue :: "mov_encoding \<Rightarrow> nat \<Rightarrow> instr list" where
  "epilogue enc n = [POP RAX] @ (if 0 < 8 * n then [ADD_imm32 RSP (8 * n)] else [])
     @ [MOV_rr enc RSP RBP, POP RBP]"

definition leaf_code :: "mov_encoding \<Rightarrow> nat \<Rightarrow> instr list \<Rightarrow> instr list" where
  "leaf_code enc n body = prologue enc n @ body @ epilogue enc n"

text \<open>The operators of a body whose reader reported no error.\<close>

definition operators_of :: "(operator \<times> nat) item list \<Rightarrow> operator list" where
  "operators_of rd = map (\<lambda>x. fst (projr x)) rd"

lemma length_param_offsets [simp]: "length (param_offsets n) = n"
  by (simp add: param_offsets_def)

lemma totals_replicate: "totals 0 (replicate n 8) = param_offsets n"
proof -
  have "sum_list (take (Suc i) (replicate n (8::nat))) = 8 * Suc i" if "i < n" for i
    using that by (simp add: sum_list_replicate min_def)
  then show ?thesis by (auto simp: totals_def param_offsets_def)
qed

lemma layout_i64:
  assumes "8 * n < 2 ^ 32"
  shows "layout_params checks (replicate n I64) = Ok (param_offsets n, 8 * n)"
proof -
  have "size_of I64 = 8" by (simp add: size_of_def)
  then show ?thesis
    using layout_params_Ok [of "replicate n I64" checks] assms
    by (simp add: has_size_def sum_list_replicate totals_replicate mult.commute)
qed

lemma compile_operator_Ok:
  assumes "compile_operator ic wp tb locals (fv, h, a) x = Ok y"
  shows "\<exists>op off fv' a'. x = Inr (op, off) \<and> check_op wp fv off op = Inr fv'
    \<and> handle_instruction ic tb locals op a = Ok a' \<and> y = (fv', max h (operand_stack_height wp fv'), a')"
  using assms unfolding compile_operator_def
  by (cases x) (auto simp: res_simps lift_reader_def split: sum.splits)

lemma compile_operators_emit:
  assumes oc: "\<And>op is a. oc op = Some is \<Longrightarrow> handle_instruction ic tb locals op a = emit ic is a"
  shows "foldM (compile_operator ic wp tb locals) (fv, h, a) rd = Ok (fv', h', a') \<Longrightarrow>
     ops_code oc (operators_of rd) = Some is \<Longrightarrow> emit ic is a = Ok a'"
proof (induction rd arbitrary: fv h a "is")
  case (Cons x rd)
  from Cons.prems(1) obtain y where y: "compile_operator ic wp tb locals (fv, h, a) x = Ok y"
    "foldM (compile_operator ic wp tb locals) y rd = Ok (fv', h', a')" by (auto simp: res_simps)
  from compile_operator_Ok [OF y(1)] y(2) obtain op off fv1 h1 a1 where x: "x = Inr (op, off)"
    and one: "handle_instruction ic tb locals op a = Ok a1"
    and rest: "foldM (compile_operator ic wp tb locals) (fv1, h1, a1) rd = Ok (fv', h', a')"
    by blast
  from Cons.prems(2) x obtain xs ys where code: "oc op = Some xs"
    "ops_code oc (operators_of rd) = Some ys" "is = xs @ ys"
    by (auto simp: operators_of_def split: option.splits)
  from Cons.IH [OF rest code(2)] one code oc [OF code(1)] show ?case by simp
qed (simp add: operators_of_def)

text \<open>\<open>compile_function\<close> emits this code.\<close>

lemma compile_function_emits:
  assumes oc: "\<And>op is a. oc op = Some is \<Longrightarrow> handle_instruction ic tb (param_offsets n) op a = emit ic is a"
    and ok: "compile_function checks ic wp tb ft cs fv a = Ok (h, a')"
    and ft: "ft_params ft = replicate n I64" "ft_returns ft = [t]" and t: "is_int t" and n: "n \<le> 6"
    and cs: "fb_locals cs = Inr []" "fb_operators cs = Inr rd"
    and body: "ops_code oc (operators_of rd) = Some is"
  shows "emit ic (leaf_code (mov_rr_code ic) n is @ [RET]) a = Ok a'"
proof -
  let ?enc = "mov_rr_code ic"
  have order: "drain_to n integer_registers = Ok (take n integer_registers)"
    "length (take n integer_registers) = n"
    using n by (simp_all add: integer_registers_def)
  have lay: "layout_params checks (replicate n I64) = Ok (param_offsets n, 8 * n)"
    using n by (intro layout_i64) simp
  have spill: "spill_params checks ic (param_offsets n) 0 (replicate n I64) (take n integer_registers) 8
    = emit ic (spills n)"
  proof -
    have "map (\<lambda>k. MOV_mr (Mem Ptr RBP (- int (param_offsets n ! (0 + k)))) (rev (take n integer_registers) ! k))
        [0..<length (replicate n I64)] = spills n"
      by (auto simp: spills_def param_offsets_def)
    then show ?thesis
      using spill_params_registers [of "replicate n I64" "take n integer_registers"] order(2)
      by (simp add: is_int_def)
  qed
  have rets: "pop_results ic [t] [RAX, RDX] = emit ic [POP RAX]"
    using pop_results_registers [of "[t]" ic "[RAX, RDX]"] t by simp
  from ok obtain a1 a2 a3 fv1 h1 a4 a5 a6 where run:
    "emit ic [PUSH RBP, MOV_rr ?enc RBP RSP] a = Ok a1"
    "(if 0 < 8 * n then emit ic [SUB_imm32 RSP (8 * n)] a1 else Ok a1) = Ok a2"
    "emit ic (spills n) a2 = Ok a3"
    "foldM (compile_operator ic wp tb (param_offsets n)) (fv, operand_stack_height wp fv, a3) rd = Ok (fv1, h1, a4)"
    "emit ic [POP RAX] a4 = Ok a5"
    "(if 0 < 8 * n then emit ic [ADD_imm32 RSP (8 * n)] a5 else Ok a5) = Ok a6"
    "emit ic [MOV_rr ?enc RSP RBP, POP RBP, RET] a6 = Ok a'"
    unfolding compile_function_def ft cs
    by (auto simp: res_simps order lay spill rets simp del: emit_simps)
  let ?grow = "if 0 < 8 * n then [SUB_imm32 RSP (8 * n)] else []"
  let ?shrink = "if 0 < 8 * n then [ADD_imm32 RSP (8 * n)] else []"
  have mid: "emit ic ?grow a1 = Ok a2" "emit ic ?shrink a5 = Ok a6" "emit ic is a3 = Ok a4"
    using run(2,6) compile_operators_emit [OF oc run(4) body] by (auto split: if_splits)
  have "leaf_code ?enc n is @ [RET] = [PUSH RBP, MOV_rr ?enc RBP RSP] @ ?grow @ spills n @ is
      @ [POP RAX] @ ?shrink @ [MOV_rr ?enc RSP RBP, POP RBP, RET]"
    by (simp add: leaf_code_def prologue_def epilogue_def)
  then show ?thesis
    by (simp only: emit_append run mid and_then.simps)
qed

section \<open>The frame\<close>

definition leaf_frame :: "u64 \<Rightarrow> nat \<Rightarrow> nat \<Rightarrow> frame" where
  "leaf_frame fp n h =
     \<lparr>fr_rbp = fp, fr_base = fp - 8 * of_nat n, fr_locals = param_offsets n, fr_height = h\<rparr>"

lemma down_apart: "i < 2 ^ 60 \<Longrightarrow> j < 2 ^ 60 \<Longrightarrow> i \<noteq> j \<Longrightarrow> apart (down b i) (down b j)"
  using stack_slot_apart [of i j "\<lparr>fr_rbp = 0, fr_base = b, fr_locals = [], fr_height = 0\<rparr>"]
  by (simp add: stack_slot_def down_def)

lemma down_0: "down b 0 = b"
  by (simp add: down_def)

lemma down_Suc: "down (b + 8) (Suc k) = down b k"
  by (simp add: down_def algebra_simps)

lemma leaf_stack_slot: "stack_slot (leaf_frame fp n h) k = down fp (n + k)"
  by (simp add: stack_slot_def leaf_frame_def down_def algebra_simps)

lemma leaf_local_slot: "j < n \<Longrightarrow> local_slot (leaf_frame fp n h) j = down fp (Suc j)"
  by (simp add: local_slot_def leaf_frame_def down_def param_offsets_def del: upt_Suc)

lemma leaf_simps [simp]:
  "fr_rbp (leaf_frame fp n h) = fp" "fr_height (leaf_frame fp n h) = h"
  "length (fr_locals (leaf_frame fp n h)) = n" "fr_locals (leaf_frame fp n h) = param_offsets n"
  by (simp_all add: leaf_frame_def param_offsets_def)

lemma leaf_frame_ok: "n + h < 2 ^ 60 \<Longrightarrow> frame_ok (leaf_frame fp n h)"
  unfolding frame_ok_def leaf_simps(2,3)
  by (auto simp: leaf_stack_slot leaf_local_slot intro!: down_apart)

text \<open>The saved frame pointer and everything above it are outside the frame.\<close>

lemma leaf_outside:
  assumes "n + h < 2 ^ 60 - 1"
  shows "outside (leaf_frame fp n h) fp" "outside (leaf_frame fp n h) (fp + 8)"
proof -
  have "apart (down fp k) fp" if "1 \<le> k" "k \<le> n + h" for k
    using down_apart [of k 0 fp] that assms by (simp add: down_0)
  moreover have "apart (down fp k) (fp + 8)" if "1 \<le> k" "k \<le> n + h" for k
    using down_apart [of "Suc k" 0 "fp + 8"] that assms by (simp add: down_0 down_Suc)
  ultimately show "outside (leaf_frame fp n h) fp" "outside (leaf_frame fp n h) (fp + 8)"
    unfolding outside_def leaf_simps(2,3)
    by (auto simp: leaf_stack_slot leaf_local_slot)
qed

section \<open>Prologue\<close>

lemma run_stores:
  assumes "\<forall>k < m. is_r64 (R k)" and "regs s RBP = fp" and "m < 2 ^ 59"
  shows "\<exists>s'. run env (map (\<lambda>k. MOV_mr (Mem Ptr RBP (- int (8 * Suc k))) (R k)) [0..<m]) s = Some s'
    \<and> regs s' = regs s \<and> (\<forall>k < m. read64 (mem s') (down fp (Suc k)) = regs s (R k))
    \<and> (\<forall>x. (\<forall>k < m. apart (down fp (Suc k)) x) \<longrightarrow> read64 (mem s') x = read64 (mem s) x)
    \<and> disciplined env (map (\<lambda>k. MOV_mr (Mem Ptr RBP (- int (8 * Suc k))) (R k)) [0..<m]) s D
    \<and> popped_all env (map (\<lambda>k. MOV_mr (Mem Ptr RBP (- int (8 * Suc k))) (R k)) [0..<m]) s D
        = D - (\<lambda>k. down fp (Suc k)) ` {..<m}"
  using assms
proof (induction m)
  case (Suc m)
  let ?stores = "\<lambda>m. map (\<lambda>k. MOV_mr (Mem Ptr RBP (- int (8 * Suc k))) (R k)) [0..<m]"
  from Suc obtain s1 where s1: "run env (map (\<lambda>k. MOV_mr (Mem Ptr RBP (- int (8 * Suc k))) (R k)) [0..<m]) s = Some s1"
    "regs s1 = regs s" "\<forall>k < m. read64 (mem s1) (down fp (Suc k)) = regs s (R k)"
    "\<forall>x. (\<forall>k < m. apart (down fp (Suc k)) x) \<longrightarrow> read64 (mem s1) x = read64 (mem s) x"
    "disciplined env (?stores m) s D" "popped_all env (?stores m) s D = D - (\<lambda>k. down fp (Suc k)) ` {..<m}"
    by auto
  let ?s = "set_mem (down fp (Suc m)) (regs s (R m)) s1"
  have addr: "regs s1 RBP + word_of_int (- int (8 * Suc m)) = down fp (Suc m)"
    using s1(2) Suc.prems(2) by (simp add: down_def)
  have ex: "exec1 env (MOV_mr (Mem Ptr RBP (- int (8 * Suc m))) (R m)) s1 = Some ?s"
    using Suc.prems(1) s1(2) addr by simp
  have "run env (map (\<lambda>k. MOV_mr (Mem Ptr RBP (- int (8 * Suc k))) (R k)) [0..<Suc m]) s = Some ?s"
    using s1(1) ex by (simp add: run_append del: exec1.simps of_nat_mult)
  moreover have "read64 (mem ?s) (down fp (Suc k)) = regs s (R k)" if "k < Suc m" for k
    using that s1(3) down_apart [of "Suc m" "Suc k" fp] Suc.prems(3)
    by (cases "k = m") (auto simp: machine_simps read_write_apart)
  moreover have "read64 (mem ?s) x = read64 (mem s) x" if "\<forall>k < Suc m. apart (down fp (Suc k)) x" for x
    using that s1(4) by (auto simp: machine_simps read_write_apart)
  moreover have "disciplined env (?stores (Suc m)) s D"
    using s1(1,5) by (auto simp: disciplined_append split: option.splits)
  moreover have "popped_all env (?stores (Suc m)) s D = D - (\<lambda>k. down fp (Suc k)) ` {..<Suc m}"
  proof -
    have "popped_all env [MOV_mr (Mem Ptr RBP (- int (8 * Suc m))) (R m)] s1 E = E - {down fp (Suc m)}" for E
      by (simp only: popped_all.simps ex option.case popped.simps addr)
    moreover have "?stores (Suc m) = ?stores m @ [MOV_mr (Mem Ptr RBP (- int (8 * Suc m))) (R m)]" by simp
    ultimately show ?thesis by (simp only: popped_all_append [OF s1(1)] s1(6)) (auto simp: lessThan_Suc)
  qed
  ultimately show ?case using s1(2) by (auto simp: machine_simps simp del: upt_Suc)
qed simp

text \<open>The arguments as the function will see them: local \<open>k\<close> is the register \<open>n - 1 - k\<close>.\<close>

definition arguments :: "nat \<Rightarrow> x86 \<Rightarrow> u64 list" where
  "arguments n s = map (regs s) (take n integer_registers)"

lemma integer_registers_plain:
  "r \<in> set integer_registers \<Longrightarrow> is_r64 r \<and> r \<noteq> RSP \<and> r \<noteq> RBP"
  by (auto simp: integer_registers_def)

lemma run_frame_setup:
  assumes "n \<le> 6"
  shows "run env ([PUSH RBP, MOV_rr enc RBP RSP] @ (if 0 < 8 * n then [SUB_imm32 RSP (8 * n)] else [])) s
    = Some (set_reg RSP (down (regs s RSP - 8) n) (set_reg RBP (regs s RSP - 8)
        (set_mem (regs s RSP - 8) (regs s RBP) s)))"
  using assms by (auto simp: machine_simps down_def set_reg_def set_mem_def fun_upd_twist)

lemma run_prologue:
  assumes n: "n \<le> 6" and h: "h < 2 ^ 59" and fp: "fp = regs s RSP - 8"
  shows "\<exists>s'. run env (prologue enc n) s = Some s'
    \<and> represents (leaf_frame fp n h) ([], rev (arguments n s)) s'
    \<and> read64 (mem s') fp = regs s RBP
    \<and> (\<forall>x. (\<forall>k \<le> n. apart (down fp k) x) \<longrightarrow> read64 (mem s') x = read64 (mem s) x)
    \<and> disciplined env (prologue enc n) s D \<and> popped_all env (prologue enc n) s D = D - down fp ` {..n}"
proof -
  let ?R = "\<lambda>k. rev (take n integer_registers) ! k"
  let ?s = "set_reg RSP (down fp n) (set_reg RBP fp (set_mem fp (regs s RBP) s))"
  have R: "is_r64 (?R k) \<and> ?R k \<noteq> RSP \<and> ?R k \<noteq> RBP" if "k < n" for k
  proof -
    have "?R k \<in> set (rev (take n integer_registers))"
      using that n by (intro nth_mem) (simp add: integer_registers_def)
    then show ?thesis using integer_registers_plain by (auto dest: in_set_takeD)
  qed
  let ?frame = "[PUSH RBP, MOV_rr enc RBP RSP] @ (if 0 < 8 * n then [SUB_imm32 RSP (8 * n)] else [])"
  have code: "prologue enc n = ?frame @ spills n" by (simp add: prologue_def)
  have start: "run env ?frame s = Some ?s" using run_frame_setup [OF n, of env enc s] by (simp only: fp)
  have pops: "disciplined env ?frame s D" "popped_all env ?frame s D = D - {fp}"
    by (auto simp: fp)
  from run_stores [of n ?R ?s fp env "D - {fp}"] R n obtain s' where s':
    "run env (spills n) ?s = Some s'" "regs s' = regs ?s"
    "\<forall>k < n. read64 (mem s') (down fp (Suc k)) = regs ?s (?R k)"
    "\<forall>x. (\<forall>k < n. apart (down fp (Suc k)) x) \<longrightarrow> read64 (mem s') x = read64 (mem ?s) x"
    "disciplined env (spills n) ?s (D - {fp})"
    "popped_all env (spills n) ?s (D - {fp}) = D - {fp} - (\<lambda>k. down fp (Suc k)) ` {..<n}"
    by (auto simp: spills_def machine_simps)
  have len: "length (arguments n s) = n" using n by (simp add: arguments_def integer_registers_def)
  have "read64 (mem s') (local_slot (leaf_frame fp n h) j) = rev (arguments n s) ! j" if "j < n" for j
  proof -
    have "rev (arguments n s) ! j = regs s (?R j)"
      using that n by (simp add: arguments_def rev_map integer_registers_def)
    with that s'(3) R [OF that] show ?thesis by (simp add: leaf_local_slot machine_simps)
  qed
  then have rep: "represents (leaf_frame fp n h) ([], rev (arguments n s)) s'"
    using s'(2) len by (simp add: represents_def leaf_stack_slot machine_simps)
  have up: "apart (down fp (Suc k)) fp" if "k < n" for k
    using down_apart [of "Suc k" 0 fp] that n by (simp add: down_0)
  then have saved: "read64 (mem s') fp = regs s RBP"
    using s'(4) by (simp add: machine_simps)
  have kept: "read64 (mem s') x = read64 (mem s) x" if "\<forall>k \<le> n. apart (down fp k) x" for x
  proof -
    have "apart fp x" "\<forall>k < n. apart (down fp (Suc k)) x" using that by (auto simp: down_0 dest: spec [of _ 0])
    then show ?thesis using s'(4) by (simp add: machine_simps read_write_apart)
  qed
  have "{..n} = insert 0 (Suc ` {..<n})" by (metis lessThan_Suc_atMost lessThan_Suc_eq_insert_0)
  then have "down fp ` {..n} = insert fp ((\<lambda>k. down fp (Suc k)) ` {..<n})"
    by (simp add: image_image down_0)
  then have "popped_all env (prologue enc n) s D = D - down fp ` {..n}"
    using popped_all_append [OF start, of "spills n" D] pops(2) s'(6) by (auto simp: code)
  moreover have "disciplined env (prologue enc n) s D" "run env (prologue enc n) s = Some s'"
    using pops s'(1,5) start by (simp_all only: code disciplined_append run_append option.case)
  ultimately show ?thesis using rep saved kept by blast
qed

section \<open>Epilogue\<close>

lemma run_epilogue:
  assumes n: "n \<le> 6" and h: "h < 2 ^ 59" and rep: "represents (leaf_frame fp n h) ([v], ls) u"
  shows "\<exists>u'. run env (epilogue enc n) u = Some u'
    \<and> regs u' RAX = v \<and> regs u' RSP = fp + 8 \<and> regs u' RBP = read64 (mem u) fp \<and> mem u' = mem u
    \<and> (\<forall>D. D \<subseteq> free_slots (leaf_frame fp n h) ([v], ls) \<longrightarrow>
          disciplined env (epilogue enc n) u D
          \<and> popped_all env (epilogue enc n) u D \<subseteq> insert fp (free_slots (leaf_frame fp n h) ([], ls)))"
proof -
  let ?f = "leaf_frame fp n h" and ?rest = "epilogue enc n"
  have fr: "frame_ok ?f" using n h by (intro leaf_frame_ok) simp
  from sim_pop [OF rep, of RAX env] obtain u1 where u1: "exec1 env (POP RAX) u = Some u1"
    "represents ?f ([], ls) u1" "regs u1 RAX = v" "mem u1 = mem u" by auto
  from reaches_pop [OF fr rep, of RAX env] u1(1) have pop:
    "\<And>D. D \<subseteq> free_slots ?f ([v], ls) \<Longrightarrow>
       reads_ok env (POP RAX) u D \<and> popped env (POP RAX) u D \<subseteq> free_slots ?f ([], ls)"
    by (auto simp: reaches_def simp del: exec1.simps reads_ok.simps popped.simps)
  have rbp: "regs u1 RBP = fp" using u1(2) by (simp add: represents_def)
  let ?u = "set_reg RBP (read64 (mem u) fp) (set_reg RSP (fp + 8) (set_reg RSP fp u1))"
  have tail: "run env ((if 0 < 8 * n then [ADD_imm32 RSP (8 * n)] else []) @ [MOV_rr enc RSP RBP, POP RBP]) u1 = Some ?u"
    using n rbp u1(4) by (auto simp: machine_simps set_reg_def)
  have clean: "clean D fp" if "D \<subseteq> free_slots ?f ([], ls)" for D
  proof (rule clean_free_slots [OF that])
    fix k assume "length (fst ([] :: u64 list, ls)) < k" "k \<le> fr_height ?f"
    then show "apart fp (stack_slot ?f k)"
      using down_apart [of 0 "n + k" fp] n h by (simp add: leaf_stack_slot down_0)
  qed
  have "disciplined env ?rest u D \<and> popped_all env ?rest u D \<subseteq> insert fp (free_slots ?f ([], ls))"
    if "D \<subseteq> free_slots ?f ([v], ls)" for D
    using pop [OF that] clean [of "popped env (POP RAX) u D"] rbp n
    by (auto simp: epilogue_def u1(1) machine_simps simp del: exec1.simps(2) popped.simps(2) reads_ok.simps(1))
      (auto simp: machine_simps)
  moreover have "run env ?rest u = Some ?u"
    using tail by (simp add: epilogue_def u1(1) del: exec1.simps)
  ultimately show ?thesis
    using u1 by (auto simp: machine_simps)
qed

section \<open>The whole function\<close>

text \<open>Running code that ends in \<open>ret\<close>: the address returned to, and the state after it.\<close>

definition run_function :: "x86_env \<Rightarrow> instr list \<Rightarrow> x86 \<Rightarrow> (u64 \<times> x86) option" where
  "run_function env code s =
     (if code \<noteq> [] \<and> last code = RET
      then map_option (\<lambda>s'. (read64 (mem s') (regs s' RSP), set_reg RSP (regs s' RSP + 8) s'))
             (run env (butlast code) s)
      else None)"

text \<open>What a caller relies on: the result in \<open>rax\<close>, back at the return address, stack and frame
  pointers as before the call.\<close>

definition returns_value :: "x86 \<Rightarrow> u64 \<Rightarrow> (u64 \<times> x86) option \<Rightarrow> bool" where
  "returns_value s v r = (\<exists>s'. r = Some (read64 (mem s) (regs s RSP), s')
     \<and> regs s' RAX = v \<and> regs s' RSP = regs s RSP + 8 \<and> regs s' RBP = regs s RBP)"

text \<open>Prologue, a body that leaves one value, epilogue. \<open>D\<close> are slots freed before, in the part of
  the stack that the function uses.\<close>

lemma framed_runs:
  assumes n: "n \<le> 6" and h: "h < 2 ^ 59" and fp: "fp = regs s RSP - 8"
    and body: "\<And>s1. represents (leaf_frame fp n h) ([], rev (arguments n s)) s1 \<Longrightarrow>
      \<forall>x. (\<forall>k \<le> n. apart (down fp k) x) \<longrightarrow> read64 (mem s1) x = read64 (mem s) x \<Longrightarrow>
      \<exists>s2. reaches (leaf_frame fp n h) env is ([], rev (arguments n s)) s1 ([v], ls) s2"
    and D: "D \<subseteq> down fp ` {..n + h}"
  shows "\<exists>s'. run env (leaf_code enc n is) s = Some s'
    \<and> regs s' RAX = v \<and> regs s' RSP = regs s RSP \<and> regs s' RBP = regs s RBP
    \<and> (\<forall>x. (\<forall>k \<le> n + h. apart (down fp k) x) \<longrightarrow> read64 (mem s') x = read64 (mem s) x)
    \<and> disciplined env (leaf_code enc n is) s D
    \<and> popped_all env (leaf_code enc n is) s D \<subseteq> down fp ` {..n + h}"
proof -
  let ?f = "leaf_frame fp n h"
  have sp: "fp + 8 = regs s RSP" by (simp add: fp)
  have out: "outside ?f fp" using n h by (auto intro!: leaf_outside)
  have free: "free_slots ?f c = down fp ` {n + length (fst c) <.. n + h}" for c
  proof -
    have "stack_slot ?f ` A = down fp ` ((+) n ` A)" for A by (simp add: image_image leaf_stack_slot)
    then show ?thesis by (simp add: free_slots_def)
  qed
  from run_prologue [OF n h fp, of env enc D] obtain s1 where s1: "run env (prologue enc n) s = Some s1"
    "represents ?f ([], rev (arguments n s)) s1" "read64 (mem s1) fp = regs s RBP"
    "\<forall>x. (\<forall>k \<le> n. apart (down fp k) x) \<longrightarrow> read64 (mem s1) x = read64 (mem s) x"
    "disciplined env (prologue enc n) s D" "popped_all env (prologue enc n) s D = D - down fp ` {..n}" by blast
  have "down fp ` {..n + h} \<subseteq> down fp ` {..n} \<union> down fp ` {n <.. n + h}"
    unfolding image_Un [symmetric] by (rule image_mono) auto
  with D have "D \<subseteq> down fp ` {..n} \<union> down fp ` {n <.. n + h}" by (rule order_trans)
  then have D1: "D - down fp ` {..n} \<subseteq> free_slots ?f ([], rev (arguments n s))"
    by (simp add: free Diff_subset_conv)
  from body [OF s1(2,4)] obtain s2 where s2: "reaches ?f env is ([], rev (arguments n s)) s1 ([v], ls) s2" by blast
  then have rep2: "represents ?f ([v], ls) s2" and run2: "run env is s1 = Some s2"
    and mem2: "same_outside ?f s1 s2"
    and d2: "disciplined env is s1 (D - down fp ` {..n})"
      "popped_all env is s1 (D - down fp ` {..n}) \<subseteq> free_slots ?f ([v], ls)"
    using D1 by (auto simp: reaches_def)
  from run_epilogue [OF n h rep2, of env enc] obtain s3 where s3: "run env (epilogue enc n) s2 = Some s3"
    "regs s3 RAX = v" "regs s3 RSP = fp + 8" "regs s3 RBP = read64 (mem s2) fp" "mem s3 = mem s2"
    and d: "\<forall>D. D \<subseteq> free_slots ?f ([v], ls) \<longrightarrow> disciplined env (epilogue enc n) s2 D
          \<and> popped_all env (epilogue enc n) s2 D \<subseteq> insert fp (free_slots ?f ([], ls))"
    by blast
  note d3 = d [rule_format, OF d2(2), THEN conjunct1] d [rule_format, OF d2(2), THEN conjunct2]
  have "insert fp (free_slots ?f ([], ls)) \<subseteq> down fp ` {..n + h}"
    unfolding free by (auto simp: image_iff down_0 intro: bexI [of _ 0])
  with d3(2) have "popped_all env (leaf_code enc n is) s D \<subseteq> down fp ` {..n + h}"
    using s1(1,6) run2 s3(1) by (auto simp: leaf_code_def popped_all_append run_append)
  moreover have "disciplined env (leaf_code enc n is) s D" "run env (leaf_code enc n is) s = Some s3"
    using s1 run2 s3(1) d2(1) d3(1)
    by (simp_all add: leaf_code_def disciplined_append run_append popped_all_append)
  moreover have "read64 (mem s3) x = read64 (mem s) x" if x: "\<forall>k \<le> n + h. apart (down fp k) x" for x
  proof -
    have "outside ?f x"
      unfolding outside_def leaf_simps(2,3) using x by (auto simp: leaf_stack_slot leaf_local_slot)
    with mem2 s1(4) x s3(5) show ?thesis by (simp add: same_outside_def)
  qed
  moreover have "regs s3 RBP = regs s RBP" using s3(4) mem2 out s1(3) by (simp add: same_outside_def)
  ultimately show ?thesis using s3(2,3) by (auto simp: sp)
qed

lemma down_return_slot: "k < 2 ^ 59 + 10 \<Longrightarrow> apart (b + 8) (down b k)"
  using down_apart [of 0 "Suc k" "b + 8"] by (simp add: down_0 down_Suc)

lemma leaf_runs:
  assumes n: "n \<le> 6" and h: "h < 2 ^ 59" and code: "body_code (param_offsets n) ops = Some is"
    and ops: "run_ops compiled_step h ops ([], rev (arguments n s)) = Some ([v], ls)"
  shows "\<exists>s'. run env (leaf_code enc n is) s = Some s'
    \<and> regs s' RAX = v \<and> regs s' RSP = regs s RSP \<and> regs s' RBP = regs s RBP
    \<and> read64 (mem s') (regs s RSP) = read64 (mem s) (regs s RSP)
    \<and> disciplined env (leaf_code enc n is) s {}
    \<and> clean (popped_all env (leaf_code enc n is) s {}) (regs s RSP)"
proof -
  define fp where "fp = regs s RSP - 8"
  have sp: "fp + 8 = regs s RSP" by (simp add: fp_def)
  have fr: "frame_ok (leaf_frame fp n h)" using n h by (intro leaf_frame_ok) simp
  have body: "\<exists>s2. reaches (leaf_frame fp n h) env is ([], rev (arguments n s)) s1 ([v], ls) s2"
    if "represents (leaf_frame fp n h) ([], rev (arguments n s)) s1"
      "\<forall>x. (\<forall>k \<le> n. apart (down fp k) x) \<longrightarrow> read64 (mem s1) x = read64 (mem s) x" for s1
    using body_sim [OF fr that(1), of ops _ "is" env] ops code by simp
  have up: "apart (fp + 8) (down fp k)" if "k \<le> n + h" for k
    using that n h by (intro down_return_slot) simp
  then have "clean (down fp ` {..n + h}) (fp + 8)" by (auto simp: clean_def)
  with framed_runs [OF n h fp_def body, of "{}" enc] up show ?thesis
    by (simp add: sp) (metis apart_sym clean_mono)
qed

lemma leaf_returns:
  assumes "n \<le> 6" and "h < 2 ^ 59" and "body_code (param_offsets n) ops = Some is"
    and "run_ops compiled_step h ops ([], rev (arguments n s)) = Some ([v], ls)"
  shows "returns_value s v (run_function env (leaf_code enc n is @ [RET]) s)"
  using leaf_runs [OF assms, of env enc]
  by (auto simp: returns_value_def run_function_def machine_simps)

section \<open>After optimising\<close>

text \<open>
  Code split at its inert instructions; each piece between them must satisfy \<open>swap_free\<close>.
  The first argument is the piece being collected.
\<close>

fun pieces_ok :: "instr list \<Rightarrow> instr list \<Rightarrow> bool" where
  "pieces_ok cur [] = swap_free cur"
| "pieces_ok cur (i # is) =
     (if inert i then swap_free cur \<and> pieces_ok [] is else pieces_ok (cur @ [i]) is)"

lemma pieces_simulate:
  "pieces_ok cur is \<Longrightarrow> simulates env (cur @ is) (normal_form (cur @ is))"
proof (induction "is" arbitrary: cur)
  case Nil
  then show ?case by (simp add: normal_form_simulates)
next
  case (Cons i "is")
  show ?case
  proof (cases "inert i")
    case True
    with Cons have "simulates env cur (normal_form cur)" "simulates env is (normal_form is)"
      using Cons.IH [of "[]"] by (simp_all add: normal_form_simulates)
    with True normal_form_simulates_pieces show ?thesis by blast
  next
    case False
    with Cons.IH [of "cur @ [i]"] Cons.prems show ?thesis by simp
  qed
qed

lemma swap_free_cases:
  "swap_free []" "swap_free [PUSH RAX]" "swap_free [POP RAX]" "swap_free [POP RAX, POP RBX]"
  "swap_free [PUSH RAX, POP RAX]" "swap_free [PUSH RAX, POP RAX, POP RBX]"
  "swap_free [PUSH RBP]" "swap_free [PUSH RBP, POP RAX]" "swap_free [PUSH RBP, POP RAX, POP RBX]"
  "swap_free [PUSH RBP, MOV_rr Rm_r RBP RSP]" "swap_free [PUSH RBP, MOV_rr Rm_r RBP RSP, POP RAX]"
  "swap_free [PUSH RBP, MOV_rr Rm_r RBP RSP, POP RAX, POP RBX]"
  "swap_free [MOV_rr Rm_r RSP RBP, POP RBP]" "swap_free [POP RBP]"
  "swap_free [POP RAX, MOV_rr Rm_r RSP RBP, POP RBP]" 
  "swap_free [PUSH RAX, POP RAX, MOV_rr Rm_r RSP RBP, POP RBP]"
  by (auto simp: swap_free_def moves_def)

lemma inert_cases [simp]:
  "inert (MOV_ri d v)" "inert (MOV_rm d m)" "inert (MOV_mr m r)" "inert (ADD_rr d r)"
  "inert (SUB_rr d r)" "inert (SUB_imm32 d k)" "inert (ADD_imm32 d k)" "inert NOP" "inert RET"
  "inert (DQ vs)" "inert ZERO_BYTES" "inert (CALL_r r)" "inert (CALL_label l)" "inert (MOV_rr R_rm d r)"
  "\<not> inert (MOV_rr Rm_r d r)" "is_r64 r \<Longrightarrow> \<not> inert (PUSH r)" "is_r64 r \<Longrightarrow> \<not> inert (POP r)"
  by (simp_all add: inert_def)

lemma pieces_body:
  assumes "body_code locals ops = Some is"
    and "cur \<in> {[], [PUSH RAX], [PUSH RBP, MOV_rr Rm_r RBP RSP]}"
    and "is = [] \<Longrightarrow> pieces_ok cur rest" and "pieces_ok [] rest" and "pieces_ok [PUSH RAX] rest"
  shows "pieces_ok cur (is @ rest)"
  using assms(1-3)
proof (induction ops arbitrary: cur "is")
  case (Cons op ops)
  then obtain xs ys where code: "op_code locals op = Some xs" "body_code locals ops = Some ys" "is = xs @ ys"
    by (auto split: option.splits)
  show ?case
  proof (cases "xs = []")
    case True
    with Cons.IH [OF code(2) Cons.prems(2)] Cons.prems(3) code(3) show ?thesis by simp
  next
    case False
    have "pieces_ok [] (ys @ rest)" "pieces_ok [PUSH RAX] (ys @ rest)"
      using Cons.IH [OF code(2)] assms(4,5) by simp_all
    with code False Cons.prems(2) swap_free_cases show ?thesis
      by (cases op) (auto split: if_splits)
  qed
qed simp

lemma pieces_inert: "\<forall>i \<in> set xs. inert i \<Longrightarrow> pieces_ok [] (xs @ ys) = pieces_ok [] ys"
  by (induction xs) (simp_all add: swap_free_cases)

lemma pieces_framed:
  assumes body: "\<And>cur. cur \<in> {[], [PUSH RBP, MOV_rr Rm_r RBP RSP]} \<Longrightarrow> pieces_ok cur (is @ epilogue enc n)"
  shows "pieces_ok [] (leaf_code enc n is)"
proof -
  have "\<forall>i \<in> set (spills n). inert i" by (auto simp: spills_def)
  then have "pieces_ok [] (spills n @ is @ epilogue enc n)"
    using body [of "[]"] by (simp add: pieces_inert)
  then show ?thesis
    using body swap_free_cases
    by (cases enc; cases "n = 0") (simp_all add: leaf_code_def prologue_def spills_def)
qed

lemma pieces_epilogue: "pieces_ok [] (epilogue enc n)" "pieces_ok [PUSH RAX] (epilogue enc n)"
  using swap_free_cases by (cases enc; simp add: epilogue_def)+

lemma pieces_leaf:
  assumes "body_code locals ops = Some is" and "is \<noteq> []"
  shows "pieces_ok [] (leaf_code enc n is)"
  using pieces_body [OF assms(1)] assms(2) pieces_epilogue by (intro pieces_framed) auto

lemma body_code_empty:
  "body_code locals ops = Some [] \<Longrightarrow> run_ops compiled_step h ops c = Some c' \<Longrightarrow> c' = c"
proof (induction ops arbitrary: c)
  case (Cons op ops)
  then have "op_code locals op = Some []" "body_code locals ops = Some []"
    by (auto split: option.splits)
  moreover from this(1) have "op = End" by (cases op) (auto split: if_splits)
  ultimately show ?case using Cons by (cases c) (auto split: if_splits)
qed simp

lemma leaf_optimised_returns:
  assumes "n \<le> 6" and "h < 2 ^ 59" and code: "body_code (param_offsets n) ops = Some is"
    and ops: "run_ops compiled_step h ops ([], rev (arguments n s)) = Some ([v], ls)"
  shows "returns_value s v (run_function env (normal_form (leaf_code enc n is @ [RET])) s)"
proof -
  let ?c = "leaf_code enc n is"
  from leaf_runs [OF assms(1-4), of env enc] obtain s' where s': "run env ?c s = Some s'"
    "regs s' RAX = v" "regs s' RSP = regs s RSP" "regs s' RBP = regs s RBP"
    "read64 (mem s') (regs s RSP) = read64 (mem s) (regs s RSP)" "disciplined env ?c s {}"
    "clean (popped_all env ?c s {}) (regs s RSP)" by blast
  have "is \<noteq> []" using code ops body_code_empty by fastforce
  from pieces_simulate [OF pieces_leaf [OF code this]]
  have "simulates env ?c (normal_form ?c)" by simp
  from simulatesD [OF this agree_refl subset_refl s'(6,1)] obtain t where
    t: "run env (normal_form ?c) s = Some t" "agree (popped_all env ?c s {}) s' t" by blast
  have nf: "normal_form (?c @ [RET]) = normal_form ?c @ [RET]"
    using normal_form_inert [of RET ?c "[]"] by (simp add: normal_form.simps [of "[]"])
  from agree_read [OF t(2) s'(7)] agree_regs [OF t(2)] s' t(1) show ?thesis
    by (auto simp: returns_value_def run_function_def nf machine_simps)
qed

section \<open>What a function must look like to compile\<close>

lemma spill_params_typed:
  "spill_params checks ic locals index params order extra a = Ok a' \<Longrightarrow> integer_typed params"
proof (induction params arbitrary: index order extra a)
  case (Cons p params)
  from Cons.prems have p: "p = I64 \<or> p = I32" by (simp split: if_splits)
  with Cons.prems have "\<exists>index order extra b.
      spill_params checks ic locals index params order extra b = Ok a'"
    by (auto simp: res_simps split: option.splits) blast+
  with Cons.IH have "integer_typed params" by blast
  with p show ?case by (auto simp: integer_typed_def)
qed (simp add: integer_typed_def)

lemma pop_results_typed: "pop_results ic rets order a = Ok a' \<Longrightarrow> integer_typed rets"
proof (induction rets arbitrary: order a)
  case (Cons t rets)
  from Cons.prems have t: "t = I64 \<or> t = I32" by (simp split: if_splits)
  with Cons.prems have "\<exists>order b. pop_results ic rets order b = Ok a'"
    by (auto simp: res_simps split: option.splits) blast+
  with Cons.IH have "integer_typed rets" by blast
  with t show ?case by (auto simp: integer_typed_def)
qed (simp add: integer_typed_def)

lemma drain_to_Ok: "(drain_to n v = Ok w) = (n \<le> length v \<and> w = take n v)"
  by (auto simp: drain_to_def)

lemma compile_function_typed:
  assumes "compile_function checks ic wp tb ft cs fv a = Ok (h, a')"
  shows "length (ft_params ft) \<le> 6 \<and> integer_typed (ft_params ft) \<and> integer_typed (ft_returns ft)"
  using assms unfolding compile_function_def
  by (auto simp: res_simps drain_to_Ok integer_registers_def simp del: emit_simps
      dest: spill_params_typed pop_results_typed)

text \<open>The validator's states along the operators of a body, first and last included.\<close>

fun validator_states :: "('p, 'v, 'f) wasmparser \<Rightarrow> 'f \<Rightarrow> (operator \<times> nat) item list \<Rightarrow> 'f list" where
  "validator_states wp fv [] = [fv]"
| "validator_states wp fv (x # xs) =
     fv # (case x of Inl e \<Rightarrow> []
           | Inr (op, off) \<Rightarrow> (case check_op wp fv off op of Inl e \<Rightarrow> [] | Inr fv' \<Rightarrow> validator_states wp fv' xs))"

lemma validator_states_hd: "fv \<in> set (validator_states wp fv rd)"
  by (cases rd) auto

lemma compile_operators_height:
  "foldM (compile_operator ic wp tb locals) (fv, h, a) rd = Ok (fv', h', a') \<Longrightarrow>
     operand_stack_height wp fv \<le> h \<Longrightarrow>
     h' = Max (insert h (operand_stack_height wp ` set (validator_states wp fv rd)))"
proof (induction rd arbitrary: fv h a)
  case Nil
  then show ?case by (simp add: max_def)
next
  case (Cons x rd)
  from Cons.prems(1) obtain y where y: "compile_operator ic wp tb locals (fv, h, a) x = Ok y"
    "foldM (compile_operator ic wp tb locals) y rd = Ok (fv', h', a')" by (auto simp: res_simps)
  from compile_operator_Ok [OF y(1)] y(2) obtain op off fv1 a1 where x: "x = Inr (op, off)"
    "check_op wp fv off op = Inr fv1"
    "foldM (compile_operator ic wp tb locals) (fv1, max h (operand_stack_height wp fv1), a1) rd = Ok (fv', h', a')"
    by blast
  let ?H = "operand_stack_height wp ` set (validator_states wp fv1 rd)"
  have "h' = Max (insert (max h (operand_stack_height wp fv1)) ?H)"
    by (rule Cons.IH [OF x(3)]) simp
  also have "\<dots> = max (max h (operand_stack_height wp fv1)) (Max ?H)"
    by (rule Max_insert) (use validator_states_hd [of fv1 wp rd] in auto)
  also have "\<dots> = max h (Max ?H)"
  proof -
    have "operand_stack_height wp fv1 \<le> Max ?H"
      by (rule Max_ge) (use validator_states_hd [of fv1 wp rd] in auto)
    then show ?thesis by simp
  qed
  also have "\<dots> = Max (insert h ?H)"
    by (rule Max_insert [symmetric]) (use validator_states_hd [of fv1 wp rd] in auto)
  also have "\<dots> = Max (insert h (operand_stack_height wp ` set (validator_states wp fv (x # rd))))"
  proof -
    have "h \<le> Max (insert h ?H)" by (rule Max_ge) auto
    with Cons.prems(2) have "max (operand_stack_height wp fv) (Max (insert h ?H)) = Max (insert h ?H)"
      by (intro max_absorb2) (rule order_trans)
    then have "Max (insert (operand_stack_height wp fv) (insert h ?H)) = Max (insert h ?H)" by simp
    then show ?thesis by (simp add: x insert_commute)
  qed
  finally show ?case .
qed

lemma leaf_function_returns:
  assumes "compile_function checks ic wp tb ft cs fv a = Ok (h, a')"
    and "ft_params ft = replicate n I64" and "ft_returns ft = [t]"
    and "fb_locals cs = Inr []" and "fb_operators cs = Inr rd" and "I64Sub \<notin> set (operators_of rd)"
    and "run_ops wasm_step height (operators_of rd) ([], rev (arguments n s)) = Some ([v], ls)"
    and "height < 2 ^ 59"
  shows "\<exists>code. instructions a' = instructions a @ code
    \<and> returns_value s v (run_function env code s)
    \<and> returns_value s v (run_function env (normal_form code) s)"
proof -
  from compile_function_typed [OF assms(1)] assms(2,3) have n: "n \<le> 6" and t: "is_int t"
    by (auto simp: integer_typed_def is_int_def)
  have runs: "run_ops compiled_step height (operators_of rd) ([], rev (arguments n s)) = Some ([v], ls)"
    using assms(6,7) by (simp add: run_ops_compiled)
  have "length (snd ([] :: u64 list, rev (arguments n s))) = length (param_offsets n)"
    using n by (simp add: arguments_def integer_registers_def)
  from run_ops_code [OF runs this] obtain "is" where
    body: "body_code (param_offsets n) (operators_of rd) = Some is" by blast
  from compile_function_emits [OF handle_instruction_op_code assms(1-3) t n assms(4,5) body]
  have "instructions a' = instructions a @ (leaf_code (mov_rr_code ic) n is @ [RET])"
    using emit_Ok by blast
  with leaf_returns [OF n assms(8) body runs, of env "mov_rr_code ic"]
    leaf_optimised_returns [OF n assms(8) body runs, of env "mov_rr_code ic"]
  show ?thesis by blast
qed

section \<open>Properties\<close>

text \<open>A compiled function computes its WebAssembly meaning. Take a function with \<open>i64\<close>
  parameters, no declared locals and one integer result, whose operators (none of them
  \<open>i64.sub\<close>) end with \<open>v\<close> on the operand stack when started with the argument registers,
  last first, as locals. The code that \<open>compile_function\<close> appends, run from any state,
  returns to its caller with \<open>v\<close> in \<open>rax\<close> and stack and frame pointers restored; so does
  the optimised code.\<close>

theorem compiled_function_returns:
  assumes "compile_function checks ic wp tb ft cs fv a = Ok (h, a')"
    and "ft_params ft = replicate n I64" and "ft_returns ft = [t]"
    and "fb_locals cs = Inr []" and "fb_operators cs = Inr rd" and "I64Sub \<notin> set (operators_of rd)"
    and "run_ops wasm_step height (operators_of rd) ([], rev (arguments n s)) = Some ([v], ls)"
    and "height < 2 ^ 59"
  shows "\<exists>code. instructions a' = instructions a @ code
    \<and> returns_value s v (run_function env code s)
    \<and> returns_value s v (run_function env (normal_form code) s)"
  by (rule leaf_function_returns [OF assms])

lemma replicate_2: "replicate 2 x = [x, x]"
  by (simp add: numeral_2_eq_2)

definition add_function :: func_body where
  "add_function = \<lparr>fb_locals = Inr [],
     fb_operators = Inr [Inr (LocalGet 0, 0), Inr (LocalGet 1, 2), Inr (I64Add, 4), Inr (End, 5)],
     fb_position = 0\<rparr>"

definition binary_type :: func_type where
  "binary_type = \<lparr>ft_params = [I64, I64], ft_returns = [I64]\<rparr>"

lemma add_function_compiles:
  "\<exists>h a'. compile_function True accepting permissive no_tables binary_type add_function 0 empty_asm = Ok (h, a')"
  by (simp add: compile_function_def binary_type_def add_function_def integer_registers_def
      layout_params_def layout_param_def arith_simps compile_operator_def add_instruction_def
      pop_back_def pop_front_def)

theorem compiled_function_returns_witness:
  "\<exists>code. returns_value (set_reg RDI 2 (set_reg RSI 3 sample_state)) 5
     (run_function no_calls code (set_reg RDI 2 (set_reg RSI 3 sample_state)))"
proof -
  from add_function_compiles obtain h a' where
    "compile_function True accepting permissive no_tables binary_type add_function 0 empty_asm = Ok (h, a')"
    by blast
  from compiled_function_returns [OF this, of 2 I64 _ 2 "set_reg RDI 2 (set_reg RSI 3 sample_state)" 5 "[3, 2]" no_calls]
  show ?thesis
    by (auto simp: binary_type_def add_function_def operators_of_def arguments_def integer_registers_def
        machine_simps upt_conv_Cons replicate_2)
qed

text \<open>C28. A function only compiles when it has at most six parameters, all \<open>i32\<close> or \<open>i64\<close>, and
  only such results; with more than six parameters the compiler panics before it reaches
  the code meant for arguments on the stack.\<close>

theorem compiled_signature:
  assumes "\<And>i. refuses ic i = None" and "fb_operators cs = Inr rd"
  shows "(\<forall>h a'. compile_function checks ic wp tb ft cs fv a = Ok (h, a') \<longrightarrow>
      length (ft_params ft) \<le> 6 \<and> integer_typed (ft_params ft) \<and> integer_typed (ft_returns ft))
    \<and> (6 < length (ft_params ft) \<longrightarrow>
      compile_function checks ic wp tb ft cs fv a = Panic ''range end index out of range'')"
proof -
  have "compile_function checks ic wp tb ft cs fv a = Panic ''range end index out of range''"
    if "6 < length (ft_params ft)"
    using that assms by (simp add: compile_function_def integer_registers_def add_instruction_def)
  with compile_function_typed [of checks ic wp tb ft cs fv a] show ?thesis by fast
qed

theorem compiled_signature_witness:
  "compile_function True accepting permissive no_tables
     \<lparr>ft_params = replicate 7 I64, ft_returns = []\<rparr> empty_body 0 empty_asm
   = Panic ''range end index out of range''"
  using compiled_signature [of accepting empty_body "[]" True permissive no_tables
      "\<lparr>ft_params = replicate 7 I64, ft_returns = []\<rparr>" 0 empty_asm]
  by (simp add: empty_body_def)

definition clobber_function :: "u64 \<Rightarrow> func_body" where
  "clobber_function v = \<lparr>fb_locals = Inr [Inr (1, I64)],
     fb_operators = Inr [Inr (I64Const v, 0), Inr (LocalSet 0, 2), Inr (End, 4)], fb_position = 0\<rparr>"

definition clobber_code :: "u64 \<Rightarrow> instr list" where
  "clobber_code v = [PUSH RBP, MOV_rr Rm_r RBP RSP, SUB_imm32 RSP 8, MOV_ri RAX v, PUSH RAX, POP RAX,
     MOV_mr (Mem Ptr RBP 0) RAX, ADD_imm32 RSP 8, MOV_rr Rm_r RSP RBP, POP RBP, RET]"

lemma clobber_function_code:
  "\<exists>h a'. compile_function True accepting permissive no_tables \<lparr>ft_params = [], ft_returns = []\<rparr>
     (clobber_function v) 0 empty_asm = Ok (h, a') \<and> instructions a' = clobber_code v"
  by (simp add: compile_function_def clobber_function_def clobber_code_def integer_registers_def
      layout_params_def layout_local_def layout_run_def arith_simps compile_operator_def
      add_instruction_def instructions_def empty_asm_def)

text \<open>C34. Storing to a declared local destroys the caller's frame pointer: in a function
  without parameters, \<open>local.set 0\<close> writes over the saved \<open>rbp\<close>, and the function returns
  with the stored value in it.\<close>

theorem declared_local_clobbers_frame_pointer:
  "\<exists>h a' s'. compile_function True accepting permissive no_tables \<lparr>ft_params = [], ft_returns = []\<rparr>
       (clobber_function v) 0 empty_asm = Ok (h, a')
     \<and> run_function env (instructions a') s = Some (read64 (mem s) (regs s RSP), s')
     \<and> regs s' RBP = v"
proof -
  have "apart (regs s RSP - 8) (regs s RSP)" "apart (regs s RSP - 24) (regs s RSP)"
    "apart (regs s RSP - 24) (regs s RSP - 8)"
    by (simp_all add: apart_def)
  then have "\<exists>s'. run_function env (clobber_code v) s = Some (read64 (mem s) (regs s RSP), s') \<and> regs s' RBP = v"
    by (simp add: run_function_def clobber_code_def machine_simps read_write_apart)
  with clobber_function_code show ?thesis by metis
qed

text \<open>The stack height recorded for a function is the largest operand stack height the
  validator reports at any point of the body, start and end included.\<close>

theorem recorded_stack_height:
  assumes "compile_function checks ic wp tb ft cs fv a = Ok (h, a')" and "fb_locals cs = Inr []"
    and "fb_operators cs = Inr rd"
  shows "h = Max (operand_stack_height wp ` set (validator_states wp fv rd))"
proof -
  from assms obtain b fv' a1 locals where
    "foldM (compile_operator ic wp tb locals) (fv, operand_stack_height wp fv, b) rd = Ok (fv', h, a1)"
    unfolding compile_function_def by (auto simp: res_simps simp del: emit_simps)
  from compile_operators_height [OF this] validator_states_hd [of fv wp rd] show ?thesis
    by (simp add: insert_absorb)
qed

theorem recorded_stack_height_witness:
  "\<exists>a'. compile_function True accepting permissive no_tables binary_type add_function 0 empty_asm = Ok (4, a')"
proof -
  from add_function_compiles obtain h a' where
    ok: "compile_function True accepting permissive no_tables binary_type add_function 0 empty_asm = Ok (h, a')"
    by blast
  have "h = 4"
    using recorded_stack_height [OF ok] by (simp add: add_function_def)
  with ok show ?thesis by blast
qed

end
