(* ===== verification/Function_Entry.thy ===== *)
theory Function_Entry
  imports Function_Sound
begin

text \<open>
  The first instructions of a compiled function, whatever its body: what \<open>compile_function\<close>
  (\<open>src/parawasm/src/x86_64/mod.rs\<close>) emits only ever grows, so the code of a function without
  declared locals begins with its prologue, whose stores are those of \<open>spill_params\<close>, and ends
  by restoring the frame pointer. For \<open>i64\<close> parameters this is the prologue of
  \<open>Function_Sound\<close>; for \<open>i32\<close> parameters the eight-byte stores leave their four-byte slots.
\<close>

section \<open>Emitting only appends\<close>

definition grows :: "code_assembler \<Rightarrow> code_assembler \<Rightarrow> bool" where
  "grows a b = (\<exists>xs. instructions b = instructions a @ xs \<and> asm_next b = asm_next a)"

lemma grows_refl [simp]: "grows a a"
  by (simp add: grows_def)

lemma grows_trans: "grows a b \<Longrightarrow> grows b c \<Longrightarrow> grows a c"
  by (force simp: grows_def)

lemma grows_add: "add_instruction ic a i = Ok b \<Longrightarrow> grows a b"
  by (auto simp: grows_def dest: add_instruction_Ok)

lemma grows_emit: "emit ic is a = Ok b \<Longrightarrow> grows a b"
  using emit_Ok unfolding grows_def by blast

lemma grows_spill: "spill_params checks ic locals index params order extra a = Ok b \<Longrightarrow> grows a b"
proof (induction params arbitrary: index order extra a)
  case (Cons p params)
  then show ?case
    by (auto simp: res_simps simp del: emit_simps split: if_splits option.splits
        dest!: grows_add grows_emit Cons.IH intro: grows_trans)
qed simp

lemma grows_pop_results: "pop_results ic rets order a = Ok b \<Longrightarrow> grows a b"
proof (induction rets arbitrary: order a)
  case (Cons t rets)
  then show ?case
    by (auto simp: res_simps split: if_splits option.splits dest!: grows_add Cons.IH intro: grows_trans)
qed simp

lemma grows_pop_arguments: "pop_arguments ic params order a = Ok b \<Longrightarrow> grows a b"
proof (induction params arbitrary: order a)
  case (Cons t params)
  then show ?case
    by (auto simp: res_simps split: if_splits option.splits dest!: grows_add Cons.IH intro: grows_trans)
qed simp

lemma grows_push_results: "push_results ic rets order a = Ok b \<Longrightarrow> grows a b"
proof (induction rets arbitrary: order a)
  case (Cons t rets)
  then show ?case
    by (auto simp: res_simps split: if_splits option.splits dest!: grows_add Cons.IH intro: grows_trans)
qed simp

lemma grows_emit_call: "emit_call ic tb f a = Ok b \<Longrightarrow> grows a b"
  by (auto simp: emit_call_def split: option.splits simp del: emit_simps dest: grows_emit)

lemma grows_handle_instruction: "handle_instruction ic tb locals op a = Ok b \<Longrightarrow> grows a b"
proof (cases op)
  case (Call f)
  assume "handle_instruction ic tb locals op a = Ok b"
  with Call show ?thesis
    by (auto simp: res_simps dest!: grows_pop_arguments grows_emit_call grows_push_results
        intro: grows_trans)
qed (auto split: if_splits simp del: emit_simps dest: grows_emit)

lemma grows_operators:
  "foldM (compile_operator ic wp tb locals) (fv, h, a) rd = Ok (fv', h', a') \<Longrightarrow> grows a a'"
proof (induction rd arbitrary: fv h a)
  case (Cons x rd)
  from Cons.prems obtain y where y: "compile_operator ic wp tb locals (fv, h, a) x = Ok y"
    "foldM (compile_operator ic wp tb locals) y rd = Ok (fv', h', a')" by (auto simp: res_simps)
  from compile_operator_Ok [OF y(1)] y(2) Cons.IH show ?case
    by (auto dest!: grows_handle_instruction intro: grows_trans)
qed simp

text \<open>A function appends code that ends in \<open>ret\<close>.\<close>

lemma compile_function_appends:
  assumes "compile_function checks ic wp tb ft cs fv a = Ok (h, a')"
  shows "\<exists>xs. instructions a' = instructions a @ xs @ [RET] \<and> asm_next a' = asm_next a"
proof -
  from assms obtain a1 a2 a3 a4 a5 a6 locals locals_size order fv1 fv2 h1 rd where run:
    "emit ic [PUSH RBP, MOV_rr (mov_rr_code ic) RBP RSP] a = Ok a1"
    "(if 0 < locals_size then emit ic [SUB_imm32 RSP locals_size] a1 else Ok a1) = Ok a2"
    "spill_params checks ic locals 0 (ft_params ft) order 8 a2 = Ok a3"
    "foldM (compile_operator ic wp tb locals) (fv1, h1, a3) rd = Ok (fv2, h, a4)"
    "pop_results ic (ft_returns ft) [RAX, RDX] a4 = Ok a5"
    "(if 0 < locals_size then emit ic [ADD_imm32 RSP locals_size] a5 else Ok a5) = Ok a6"
    "emit ic [MOV_rr (mov_rr_code ic) RSP RBP, POP RBP, RET] a6 = Ok a'"
    unfolding compile_function_def by (auto simp: res_simps simp del: emit_simps)
  have "grows a1 a2" "grows a5 a6" using run(2,6) by (auto split: if_splits simp del: emit_simps dest: grows_emit)
  then have "grows a a6"
    using grows_emit [OF run(1)] grows_spill [OF run(3)] grows_operators [OF run(4)]
      grows_pop_results [OF run(5)] by (meson grows_trans)
  with emit_Ok [OF run(7)] show ?thesis by (auto simp: grows_def)
qed

section \<open>The prologue\<close>

definition stores :: "nat list \<Rightarrow> register list \<Rightarrow> instr list" where
  "stores locals order = map (\<lambda>k. MOV_mr (Mem Ptr RBP (- int (locals ! k))) (rev order ! k)) [0..<length order]"

definition entry_code :: "mov_encoding \<Rightarrow> val_type list \<Rightarrow> instr list" where
  "entry_code enc params = (let szs = map size_of params in
     [PUSH RBP, MOV_rr enc RBP RSP] @ (if 0 < sum_list szs then [SUB_imm32 RSP (sum_list szs)] else [])
     @ stores (totals 0 szs) (take (length params) integer_registers))"

lemma sum_sizes_bound: "integer_typed params \<Longrightarrow> sum_list (map size_of params) \<le> 8 * length params"
  by (induction params) (auto simp: integer_typed_def size_of_def)

lemma compile_function_entry:
  assumes "compile_function checks ic wp tb ft cs fv a = Ok (h, a')" and "fb_locals cs = Inr []"
  shows "\<exists>rest. instructions a' = instructions a @ entry_code (mov_rr_code ic) (ft_params ft) @ rest
    @ [MOV_rr (mov_rr_code ic) RSP RBP, POP RBP, RET]"
proof -
  let ?szs = "map size_of (ft_params ft)" and ?order = "take (length (ft_params ft)) integer_registers"
  have typed: "length (ft_params ft) \<le> 6" "\<forall>p \<in> set (ft_params ft). is_int p"
    using compile_function_typed [OF assms(1)] by (auto simp: integer_typed_def is_int_def)
  then have len: "length ?order = length (ft_params ft)" by (simp add: integer_registers_def)
  have "sum_list ?szs < 2 ^ 32"
    using compile_function_typed [OF assms(1)] sum_sizes_bound [of "ft_params ft"] by simp
  then have lay: "layout_params checks (ft_params ft) = (Ok (totals 0 ?szs, sum_list ?szs) :: (compile_error, nat list \<times> nat) res)"
    using typed(2) by (intro layout_params_Ok) (auto intro: is_int_has_size)
  from assms(1) obtain a1 a2 a3 a4 a5 a6 fv2 h1 rd where steps:
    "emit ic [PUSH RBP, MOV_rr (mov_rr_code ic) RBP RSP] a = Ok a1"
    "(if 0 < sum_list ?szs then emit ic [SUB_imm32 RSP (sum_list ?szs)] a1 else Ok a1) = Ok a2"
    "spill_params checks ic (totals 0 ?szs) 0 (ft_params ft) ?order 8 a2 = Ok a3"
    "foldM (compile_operator ic wp tb (totals 0 ?szs)) (fv, h1, a3) rd = Ok (fv2, h, a4)"
    "pop_results ic (ft_returns ft) [RAX, RDX] a4 = Ok a5"
    "(if 0 < sum_list ?szs then emit ic [ADD_imm32 RSP (sum_list ?szs)] a5 else Ok a5) = Ok a6"
    "emit ic [MOV_rr (mov_rr_code ic) RSP RBP, POP RBP, RET] a6 = Ok a'"
    unfolding compile_function_def by (auto simp: res_simps lay drain_to_Ok assms(2) simp del: emit_simps)
  have "instructions a2 = instructions a @ [PUSH RBP, MOV_rr (mov_rr_code ic) RBP RSP]
      @ (if 0 < sum_list ?szs then [SUB_imm32 RSP (sum_list ?szs)] else [])"
    using emit_Ok [OF steps(1)] steps(2)
    by (auto split: if_splits simp del: emit_simps sum_list_eq_0_iff dest!: emit_Ok)
  moreover have "instructions a3 = instructions a2 @ stores (totals 0 ?szs) ?order"
    using steps(3) emit_Ok spill_params_registers [OF typed(2) len] len by (fastforce simp: stores_def)
  moreover have "grows a3 a6"
    using grows_operators [OF steps(4)] grows_pop_results [OF steps(5)] steps(6)
    by (auto split: if_splits simp del: emit_simps dest!: grows_emit intro: grows_trans)
  ultimately show ?thesis using emit_Ok [OF steps(7)] by (auto simp: grows_def entry_code_def Let_def)
qed

lemma entry_code_i64: "n \<le> 6 \<Longrightarrow> entry_code enc (replicate n I64) = prologue enc n"
  by (simp add: entry_code_def prologue_def spills_def stores_def Let_def size_of_def sum_list_replicate
      totals_replicate param_offsets_def integer_registers_def mult.commute)

section \<open>Stores of \<open>i32\<close> parameters\<close>

lemma run_stores_below:
  assumes "\<forall>k \<in> set ks. is_r64 (R k) \<and> 8 \<le> L k \<and> L k < 2 ^ 31"
  shows "\<exists>s'. run env (map (\<lambda>k. MOV_mr (Mem Ptr RBP (- int (L k))) (R k)) ks) s = Some s'
    \<and> regs s' = regs s \<and> read64 (mem s') (regs s RBP) = read64 (mem s) (regs s RBP)"
  using assms
proof (induction ks arbitrary: s)
  case (Cons k ks)
  let ?s = "set_mem (regs s RBP - of_nat (L k)) (regs s (R k)) s"
  have "apart (regs s RBP - of_nat (L k)) (regs s RBP)"
  proof -
    have L: "8 \<le> L k" "L k < 2 ^ 31" using Cons.prems by auto
    then have u: "unat (of_nat (L k) :: u64) = L k" by (simp add: unat_of_nat)
    then have "8 \<le> unat (0 - of_nat (L k) :: u64)"
      using L by (subst unat_sub_if') simp
    with u L show ?thesis by (simp add: apart_def)
  qed
  moreover from Cons.IH [of ?s] Cons.prems obtain s' where
    "run env (map (\<lambda>k. MOV_mr (Mem Ptr RBP (- int (L k))) (R k)) ks) ?s = Some s'" "regs s' = regs ?s"
    "read64 (mem s') (regs ?s RBP) = read64 (mem ?s) (regs ?s RBP)" by auto
  ultimately show ?case using Cons.prems by (simp add: machine_simps read_write_apart)
qed simp

lemma later_slots:
  assumes "integer_typed ps" and "k < length ps"
  shows "8 \<le> totals 0 (map size_of (I32 # ps)) ! Suc k \<and> totals 0 (map size_of (I32 # ps)) ! Suc k \<le> 4 + 8 * length ps"
proof -
  let ?szs = "map size_of (I32 # ps)"
  have sz: "size_of I32 = 4" "4 \<le> size_of (ps ! k)"
    using assms(1) bspec [of "set ps" _ "ps ! k"] nth_mem [OF assms(2)] by (auto simp: integer_typed_def size_of_def)
  have "totals 0 ?szs ! 0 = 4" by (simp add: totals_Cons sz(1))
  with totals_mono [of 0 "Suc k" ?szs 0] assms(2) sz(2) have "8 \<le> totals 0 ?szs ! Suc k" by simp
  moreover have "totals 0 ?szs ! Suc k \<le> 4 + 8 * length ps"
    using totals_last_le [of "Suc k" ?szs 0] assms(2) sum_sizes_bound [OF assms(1)] sz(1) by simp
  ultimately show ?thesis ..
qed

text \<open>The first store begins four bytes below the saved frame pointer, the others further down.\<close>

lemma run_entry_i32:
  assumes "integer_typed ps" and "length ps < 6"
  shows "\<exists>s'. run env (entry_code enc (I32 # ps)) s = Some s' \<and> regs s' RBP = regs s RSP - 8
    \<and> read64 (mem s') (regs s RSP - 8)
      = (regs s RBP AND NOT (mask 32)) OR drop_bit 32 (regs s (integer_registers ! length ps))"
proof -
  let ?n = "Suc (length ps)" and ?fp = "regs s RSP - 8"
  let ?order = "take ?n integer_registers" and ?L = "\<lambda>k. totals 0 (map size_of (I32 # ps)) ! k"
  let ?R = "\<lambda>k. rev ?order ! k" and ?z = "sum_list (map size_of (I32 # ps))"
  let ?store = "\<lambda>k. MOV_mr (Mem Ptr RBP (- int (?L k))) (?R k)"
  have len: "length ?order = ?n" using assms(2) by (simp add: integer_registers_def)
  have first: "?R 0 = integer_registers ! length ps" "?L 0 = 4"
    using assms(2) len by (simp_all add: rev_nth totals_Cons size_of_def)
  have R: "is_r64 (?R k) \<and> ?R k \<noteq> RSP \<and> ?R k \<noteq> RBP" if "k < ?n" for k
  proof -
    have "?R k \<in> set (rev ?order)" using that len by (intro nth_mem) simp
    then show ?thesis using integer_registers_plain by (auto dest: in_set_takeD)
  qed
  have z: "0 < ?z" "?z < 2 ^ 31"
    using sum_sizes_bound [OF assms(1)] assms(2) by (simp_all add: size_of_def)
  have code: "entry_code enc (I32 # ps) = [PUSH RBP, MOV_rr enc RBP RSP, SUB_imm32 RSP ?z, ?store 0] @ map ?store (map Suc [0..<length ps])"
    using z(1) len by (simp add: entry_code_def stores_def Let_def upt_Suc_conv comp_def del: upt_Suc)
  let ?s = "set_mem (?fp - 4) (regs s (?R 0)) (set_reg RSP (?fp - of_nat ?z) (set_reg RBP ?fp (set_reg RSP ?fp (set_mem ?fp (regs s RBP) s))))"
  have start: "run env [PUSH RBP, MOV_rr enc RBP RSP, SUB_imm32 RSP ?z, ?store 0] s = Some ?s"
    using R [of 0] z first(2) by (simp add: machine_simps)
  have below: "is_r64 (?R (Suc k)) \<and> 8 \<le> ?L (Suc k) \<and> ?L (Suc k) < 2 ^ 31" if "k < length ps" for k
    using R [of "Suc k"] later_slots [OF assms(1) that] assms(2) that by simp
  have "\<forall>k \<in> set (map Suc [0..<length ps]). is_r64 (?R k) \<and> 8 \<le> ?L k \<and> ?L k < 2 ^ 31"
    unfolding set_map ball_simps set_upt using below by (intro ballI) (simp only: atLeastLessThan_iff)
  from run_stores_below [OF this, of env ?s] obtain s' where s':
    "run env (map ?store (map Suc [0..<length ps])) ?s = Some s'" "regs s' = regs ?s"
    "read64 (mem s') (regs ?s RBP) = read64 (mem ?s) (regs ?s RBP)" by blast
  have "read64 (mem ?s) ?fp = (regs s RBP AND NOT (mask 32)) OR drop_bit 32 (regs s (?R 0))"
    using read_write_overlap [of 4 "write64 (mem s) ?fp (regs s RBP)" ?fp] by (simp add: machine_simps)
  with s' start show ?thesis by (simp only: code run_append option.case first(1)) (simp add: machine_simps)
qed

text \<open>C38. A function whose first parameter is an \<open>i32\<close> loses the frame pointer of its caller. The
  parameter has a slot of four bytes, the prologue stores the eight of a register there, and the
  upper four replace the lower half of the \<open>rbp\<close> that the first instruction saved and that the last
  ones restore, whatever the body and the other parameters are.\<close>

theorem i32_parameter_clobbers_frame_pointer:
  assumes "compile_function checks ic wp tb ft cs fv a = Ok (h, a')" and "fb_locals cs = Inr []"
    and "ft_params ft = I32 # ps"
  shows "\<exists>pro rest s'. instructions a' = instructions a @ pro @ rest @ [MOV_rr (mov_rr_code ic) RSP RBP, POP RBP, RET]
    \<and> length pro = 4 + length ps
    \<and> run env pro s = Some s' \<and> regs s' RBP = regs s RSP - 8
    \<and> read64 (mem s') (regs s RSP - 8)
      = (regs s RBP AND NOT (mask 32)) OR drop_bit 32 (regs s (integer_registers ! length ps))"
proof -
  have ps: "integer_typed ps" "length ps < 6"
    using compile_function_typed [OF assms(1)] assms(3) by (auto simp: integer_typed_def)
  moreover have "length (entry_code (mov_rr_code ic) (I32 # ps)) = 4 + length ps"
    using ps(2) by (simp add: entry_code_def stores_def Let_def size_of_def integer_registers_def)
  ultimately show ?thesis
    using compile_function_entry [OF assms(1,2)] run_entry_i32 [OF ps, of env "mov_rr_code ic" s] assms(3) by metis
qed

definition drop_function :: func_body where
  "drop_function = \<lparr>fb_locals = Inr [], fb_operators = Inr [Inr (End, 0)], fb_position = 0\<rparr>"

theorem i32_parameter_clobbers_frame_pointer_witness:
  "\<exists>h a' pro rest s'. compile_function True accepting permissive no_tables
       \<lparr>ft_params = [I32], ft_returns = []\<rparr> drop_function 0 empty_asm = Ok (h, a')
     \<and> instructions a' = pro @ rest \<and> run no_calls pro (set_reg RBP 0x1234 sample_state) = Some s'
     \<and> read64 (mem s') (regs s' RBP) = 0"
proof -
  have "\<exists>h a'. compile_function True accepting permissive no_tables
       \<lparr>ft_params = [I32], ft_returns = []\<rparr> drop_function 0 empty_asm = Ok (h, a')"
    by (simp add: compile_function_def drop_function_def integer_registers_def layout_params_def
        layout_param_def arith_simps compile_operator_def add_instruction_def pop_back_def)
  then obtain h a' where ok: "compile_function True accepting permissive no_tables
       \<lparr>ft_params = [I32], ft_returns = []\<rparr> drop_function 0 empty_asm = Ok (h, a')" by blast
  have "regs sample_state RDI = 0" by (simp add: sample_state_def zero_state_def machine_simps)
  with i32_parameter_clobbers_frame_pointer [OF ok, of "[]" no_calls "set_reg RBP 0x1234 sample_state"]
  obtain pro rest s' where o: "instructions a' = pro @ rest" "run no_calls pro (set_reg RBP 0x1234 sample_state) = Some s'"
    "read64 (mem s') (regs s' RBP) = 0x1234 AND NOT (mask 32)"
    by (auto simp: drop_function_def machine_simps integer_registers_def empty_asm_def instructions_def)
  have "0x1234 AND NOT (mask 32) = (0 :: u64)" by (simp add: mask_eq_exp_minus_1)
  with ok o show ?thesis by metis
qed

end
