(* ===== verification/Compile_Invariant.thy ===== *)
theory Compile_Invariant
  imports Parse_Loop Function_Entry
begin

text \<open>
  Invariants of the variables of \<open>compile\<close> (\<open>src/parawasm/src/x86_64/mod.rs\<close>), in a build with
  overflow checks: the tables have one entry per function, the labels are fresh and
  recorded at increasing positions, each right after an instruction the optimiser leaves
  alone, and every compiled body can be found in the instruction list at its label.
\<close>

section \<open>The invariant\<close>

text \<open>Every label is recorded for an instruction of the list that follows an inert one.\<close>

definition ends_inert :: "instr list \<Rightarrow> bool" where
  "ends_inert is = (is = [] \<or> inert (last is))"

definition labels_placed :: "label_indices \<Rightarrow> instr list \<Rightarrow> bool" where
  "labels_placed labels is =
     (sorted_wrt (<) (map fst labels)
      \<and> (\<forall>(i, l) \<in> set labels. i < length is \<and> ends_inert (take i is)))"

definition code_inv :: "'v cstate \<Rightarrow> bool" where
  "code_inv cs = (ends_inert (instructions (c_asm cs))
     \<and> labels_placed (c_label_indices cs) (instructions (c_asm cs)))"

text \<open>One entry per function, imports and defined functions apart. The arguments are the key
  sets of \<open>function_types\<close>, \<open>got\<close>, \<open>ils\<close>, \<open>imports\<close>, \<open>functions\<close> and \<open>function_typedefs\<close>, and
  the three counters.\<close>

definition counted ::
  "nat set \<Rightarrow> nat set \<Rightarrow> nat set \<Rightarrow> nat set \<Rightarrow> nat set \<Rightarrow> nat set \<Rightarrow> nat \<Rightarrow> nat \<Rightarrow> nat \<Rightarrow> bool" where
  "counted types G I imports functions typedefs function_index type_index body_index =
     (types = {..<function_index} \<and> G \<union> I = {..<function_index} \<and> G \<inter> I = {}
      \<and> imports = I \<and> functions = G \<and> typedefs = {..<type_index} \<and> body_index \<le> function_index)"

definition tables_inv :: "'v cstate \<Rightarrow> bool" where
  "tables_inv cs =
     (counted (dom (bt_get (function_types (c_tables cs)))) (dom (bt_get (got (c_tables cs))))
        (dom (bt_get (ils (c_tables cs)))) (dom (bt_get (m_imports (c_module cs))))
        (dom (bt_get (m_functions (c_module cs)))) (dom (bt_get (function_typedefs (c_tables cs))))
        (c_function_index cs) (c_function_type_index cs) (c_function_body_index cs)
      \<and> bt_inv (m_imports (c_module cs)))"

text \<open>Labels are fresh; a function's label is recorded only when its body is compiled. The
  arguments are \<open>got\<close>, the next label, the recorded positions, the compiled bodies, the
  body counter and the functions with a stack height.\<close>

definition fresh_labels ::
  "(nat \<Rightarrow> label option) \<Rightarrow> label \<Rightarrow> label_indices \<Rightarrow> (label \<times> nat) list \<Rightarrow> nat \<Rightarrow> nat set \<Rightarrow> bool" where
  "fresh_labels g next labels bodies body_index heights =
     (inj_on g (dom g) \<and> (\<forall>k l. g k = Some l \<longrightarrow> l < next)
      \<and> distinct (map snd labels) \<and> (\<forall>l \<in> snd ` set labels. l < next)
      \<and> (\<forall>l \<in> snd ` set labels. \<forall>k. g k = Some l \<longrightarrow> k < body_index)
      \<and> distinct (map fst bodies)
      \<and> (\<forall>(l, k) \<in> set bodies. g k = Some l \<and> k < body_index \<and> l \<in> snd ` set labels)
      \<and> heights = snd ` set bodies)"

definition labels_inv :: "'v cstate \<Rightarrow> bool" where
  "labels_inv cs =
     fresh_labels (bt_get (got (c_tables cs))) (asm_next (c_asm cs)) (c_label_indices cs)
       (c_function_bodies cs) (c_function_body_index cs)
       (dom (bt_get (m_function_stack_heights (c_module cs))))"

lemma dom_bt_insert [simp]: "dom (bt_get (bt_insert k v m)) = insert k (dom (bt_get m))"
  by (auto simp: bt_get_insert split: if_splits)

lemma lessThan_Suc_insert: "{..<Suc n} = insert n {..<n}"
  by auto

lemma u32_add_checked: "(u32_add True a b = Ok c) = (c = a + b \<and> a + b < 2 ^ 32)"
  by (auto simp: u32_add_def u32_norm_checked)

text \<open>What each handler does to the state, when it succeeds.\<close>

lemma on_import_Ok:
  assumes "on_import True ic cs i = Ok cs'"
  shows "(\<exists>a. cs' = cs\<lparr>c_asm := a\<rparr> \<and> instructions a = instructions (c_asm cs) @ [ZERO_BYTES]
        \<and> asm_next a = Suc (asm_next (c_asm cs)))
    \<or> (\<exists>a t entry l at. cs' = cs\<lparr>c_asm := a,
          c_module := (c_module cs)\<lparr>m_imports :=
            bt_insert (c_function_index cs) entry (m_imports (c_module cs))\<rparr>,
          c_tables := (c_tables cs)\<lparr>
            ils := bt_insert (c_function_index cs) l (ils (c_tables cs)),
            function_types := bt_insert (c_function_index cs) t (function_types (c_tables cs))\<rparr>,
          c_label_indices := c_label_indices cs @ [(at, l)],
          c_function_index := Suc (c_function_index cs),
          c_function_body_index := Suc (c_function_body_index cs)\<rparr>
        \<and> instructions a = instructions (c_asm cs) @ [ZERO_BYTES, DQ [import_placeholder]]
        \<and> asm_next a = Suc (Suc (asm_next (c_asm cs))) \<and> l = Suc (asm_next (c_asm cs))
        \<and> at = Suc (length (instructions (c_asm cs))))"
proof -
  from assms obtain import a1 a2 off where i: "i = Inr import"
    and a1: "set_label ic (asm_next (c_asm cs)) ((c_asm cs)\<lparr>asm_next := Suc (asm_next (c_asm cs))\<rparr>) = Ok a1"
    and a2: "add_instruction ic a1 ZERO_BYTES = Ok a2"
    and rest: "(case im_ty import of
       Import_Function t \<Rightarrow>
         (let (label, a') = create_label a2;
              at = length (instructions a') in
          and_then (add_instruction ic a' (DQ [import_placeholder])) (\<lambda>a''.
          and_then (u32_add True (c_function_index cs) 1) (\<lambda>next_index.
          and_then (u32_add True (c_function_body_index cs) 1) (\<lambda>next_body.
            Ok (cs\<lparr>c_asm := a'',
                   c_module := (c_module cs)\<lparr>m_imports :=
                     bt_insert (c_function_index cs) (im_module import, im_field import, off)
                       (m_imports (c_module cs))\<rparr>,
                   c_tables := (c_tables cs)\<lparr>
                     ils := bt_insert (c_function_index cs) label (ils (c_tables cs)),
                     function_types := bt_insert (c_function_index cs) t
                                         (function_types (c_tables cs))\<rparr>,
                   c_label_indices := c_label_indices cs @ [(at, label)],
                   c_function_index := next_index,
                   c_function_body_index := next_body\<rparr>)))))
     | Import_Other \<Rightarrow> Ok (cs\<lparr>c_asm := a2\<rparr>)) = Ok cs'"
    by (cases i) (auto simp: on_import_def res_simps create_label_def)
  have asm: "instructions a2 = instructions (c_asm cs) @ [ZERO_BYTES]" "asm_next a2 = Suc (asm_next (c_asm cs))"
    using a1 add_instruction_Ok [OF a2] by (auto simp: set_label_def res_simps)
  show ?thesis
  proof (cases "im_ty import")
    case (Import_Function t)
    with rest obtain a3 where a3: "add_instruction ic (a2\<lparr>asm_next := Suc (asm_next a2)\<rparr>) (DQ [import_placeholder]) = Ok a3"
      by (auto simp: res_simps create_label_def)
    from rest Import_Function a3 asm add_instruction_Ok(1,2) [OF a3] show ?thesis
      by (intro disjI2 exI [of _ a3] exI [of _ t] exI [of _ "(im_module import, im_field import, off)"]
          exI [of _ "Suc (asm_next (c_asm cs))"] exI [of _ "Suc (length (instructions (c_asm cs)))"])
        (auto simp: res_simps create_label_def u32_add_checked)
  next
    case Import_Other
    with rest asm show ?thesis by auto
  qed
qed

lemma on_function_Ok:
  assumes "on_function True ic cs function_type = Ok cs'"
  shows "\<exists>a t. cs' = cs\<lparr>c_asm := a,
        c_module := (c_module cs)\<lparr>m_functions :=
          bt_insert (c_function_index cs) (length (instructions (c_asm cs))) (m_functions (c_module cs))\<rparr>,
        c_tables := (c_tables cs)\<lparr>
          got := bt_insert (c_function_index cs) (Suc (asm_next (c_asm cs))) (got (c_tables cs)),
          function_types := bt_insert (c_function_index cs) t (function_types (c_tables cs))\<rparr>,
        c_label_indices := c_label_indices cs @ [(length (instructions (c_asm cs)), asm_next (c_asm cs))],
        c_function_index := Suc (c_function_index cs)\<rparr>
      \<and> instructions a = instructions (c_asm cs) @ [DQ [0]]
      \<and> asm_next a = Suc (Suc (asm_next (c_asm cs)))"
proof -
  let ?a0 = "(c_asm cs)\<lparr>asm_next := Suc (asm_next (c_asm cs))\<rparr>"
  from assms obtain a t where a: "add_instruction ic ?a0 (DQ [0]) = Ok a" and t: "function_type = Inr t"
    by (cases function_type) (auto simp: on_function_def Let_def res_simps create_label_def)
  from assms a t add_instruction_Ok(1,2) [OF a] show ?thesis
    by (intro exI [of _ "a\<lparr>asm_next := Suc (asm_next a)\<rparr>"] exI [of _ t])
      (auto simp: on_function_def Let_def res_simps create_label_def u32_add_checked)
qed

lemma on_code_Ok:
  assumes "on_code True ic wp body cs = Ok cs'"
  shows "\<exists>fv v ft l h a xs. cs' = cs\<lparr>c_validator := v, c_asm := a,
        c_module := (c_module cs)\<lparr>m_function_stack_heights :=
          bt_insert (c_function_body_index cs) h (m_function_stack_heights (c_module cs))\<rparr>,
        c_label_indices := c_label_indices cs @ [(length (instructions (c_asm cs)), l)],
        c_function_bodies := c_function_bodies cs @ [(l, c_function_body_index cs)],
        c_function_body_index := Suc (c_function_body_index cs)\<rparr>
      \<and> bt_get (got (c_tables cs)) (c_function_body_index cs) = Some l
      \<and> function_type_of (c_tables cs) (c_function_body_index cs) = Some ft
      \<and> compile_function True ic wp (c_tables cs) ft body fv (c_asm cs) = Ok (h, a)
      \<and> instructions a = instructions (c_asm cs) @ xs @ [RET] \<and> asm_next a = asm_next (c_asm cs)"
proof -
  from assms obtain fv v ft l h a where parts:
    "function_type_of (c_tables cs) (c_function_body_index cs) = Some ft"
    "bt_get (got (c_tables cs)) (c_function_body_index cs) = Some l"
    "compile_function True ic wp (c_tables cs) ft body fv (c_asm cs) = Ok (h, a)"
    "cs' = cs\<lparr>c_validator := v, c_asm := a,
        c_module := (c_module cs)\<lparr>m_function_stack_heights :=
          bt_insert (c_function_body_index cs) h (m_function_stack_heights (c_module cs))\<rparr>,
        c_label_indices := c_label_indices cs @ [(length (instructions (c_asm cs)), l)],
        c_function_bodies := c_function_bodies cs @ [(l, c_function_body_index cs)],
        c_function_body_index := Suc (c_function_body_index cs)\<rparr>"
    by (auto simp: on_code_def res_simps u32_add_checked)
  with compile_function_appends [OF parts(3)] show ?thesis by blast
qed

section \<open>Preservation\<close>

lemma ends_inert_snoc [simp]: "ends_inert (xs @ [i]) = inert i"
  by (simp add: ends_inert_def)

lemma ends_inert_Nil [simp]: "ends_inert []"
  by (simp add: ends_inert_def)

lemma labels_placed_append:
  "labels_placed labels is \<Longrightarrow> labels_placed labels (is @ xs)"
  by (auto simp: labels_placed_def)

lemma labels_placed_snoc:
  assumes "labels_placed labels is" and "ends_inert (is @ pre)" and "xs \<noteq> []"
  shows "labels_placed (labels @ [(length (is @ pre), l)]) (is @ pre @ xs)"
proof -
  from assms(3) have "0 < length xs" by simp
  with assms show ?thesis by (auto simp: labels_placed_def sorted_wrt_append)
qed

lemma code_inv_grow:
  assumes "code_inv cs" and "instructions (c_asm cs') = instructions (c_asm cs) @ xs"
    and "ends_inert (instructions (c_asm cs) @ xs)" and "c_label_indices cs' = c_label_indices cs"
  shows "code_inv cs'"
  using assms labels_placed_append by (auto simp: code_inv_def)

lemma on_import_code_inv:
  assumes "code_inv cs" and "on_import True ic cs i = Ok cs'"
  shows "code_inv cs'"
  using on_import_Ok [OF assms(2)] assms(1)
    labels_placed_append [of "c_label_indices cs" "instructions (c_asm cs)" "[ZERO_BYTES]"]
    labels_placed_snoc [of "c_label_indices cs" "instructions (c_asm cs)" "[ZERO_BYTES]" "[DQ [import_placeholder]]"]
  by (auto simp: code_inv_def ends_inert_def)

lemma on_function_code_inv:
  assumes "code_inv cs" and "on_function True ic cs t = Ok cs'"
  shows "code_inv cs'"
  using on_function_Ok [OF assms(2)] assms(1)
    labels_placed_snoc [of "c_label_indices cs" "instructions (c_asm cs)" "[]" "[DQ [0]]"]
  by (auto simp: code_inv_def)

lemma on_code_code_inv:
  assumes "code_inv cs" and "on_code True ic wp body cs = Ok cs'"
  shows "code_inv cs'"
proof -
  from on_code_Ok [OF assms(2)] obtain l xs where eqs:
    "instructions (c_asm cs') = instructions (c_asm cs) @ xs @ [RET]"
    "c_label_indices cs' = c_label_indices cs @ [(length (instructions (c_asm cs)), l)]" by fastforce
  with assms(1) labels_placed_snoc [of "c_label_indices cs" "instructions (c_asm cs)" "[]" "xs @ [RET]"]
  show ?thesis by (simp add: code_inv_def) (simp add: ends_inert_def)
qed

lemma counted_import:
  "counted T G I M F D fi ti bi \<Longrightarrow> counted (insert fi T) G (insert fi I) (insert fi M) F D (Suc fi) ti (Suc bi)"
  by (auto simp: counted_def)

lemma counted_function:
  "counted T G I M F D fi ti bi \<Longrightarrow> counted (insert fi T) (insert fi G) I M (insert fi F) D (Suc fi) ti bi"
  by (auto simp: counted_def)

lemma counted_code: "counted T G I M F D fi ti bi \<Longrightarrow> bi \<in> G \<Longrightarrow> counted T G I M F D fi ti (Suc bi)"
  unfolding counted_def by (metis Suc_leI UnCI lessThan_iff)

lemma counted_type: "counted T G I M F D fi ti bi \<Longrightarrow> counted T G I M F (insert ti D) fi (Suc ti) bi"
  by (auto simp: counted_def)

lemma bt_get_upd: "bt_get (bt_insert k v m) = (bt_get m)(k \<mapsto> v)"
  by (rule ext) (simp add: bt_get_insert)

lemma fresh_labels_more: "fresh_labels g n ls bs bi H \<Longrightarrow> n \<le> n' \<Longrightarrow> fresh_labels g n' ls bs bi H"
  unfolding fresh_labels_def by (meson order_less_le_trans)

lemma fresh_labels_import:
  assumes "fresh_labels g n ls bs bi H"
  shows "fresh_labels g (Suc (Suc n)) (ls @ [(at, Suc n)]) bs (Suc bi) H"
proof -
  have "Suc n \<notin> snd ` set ls" "\<And>k. g k \<noteq> Some (Suc n)"
    using assms unfolding fresh_labels_def by (metis not_less_eq less_SucI)+
  with assms show ?thesis unfolding fresh_labels_def by (auto simp: less_Suc_eq)
qed

lemma fresh_labelsD:
  assumes "fresh_labels g n ls bs bi H"
  shows "inj_on g (dom g)" and "g k = Some l \<Longrightarrow> l < n" and "distinct (map snd ls)"
    and "l \<in> snd ` set ls \<Longrightarrow> l < n" and "l \<in> snd ` set ls \<Longrightarrow> g k = Some l \<Longrightarrow> k < bi"
    and "distinct (map fst bs)"
    and "(l, k) \<in> set bs \<Longrightarrow> g k = Some l \<and> k < bi \<and> l \<in> snd ` set ls"
    and "H = snd ` set bs"
  using assms unfolding fresh_labels_def by blast+

lemma fresh_labels_function:
  assumes "fresh_labels g n ls bs bi H" and "k \<notin> dom g"
  shows "fresh_labels (g(k \<mapsto> Suc n)) (Suc (Suc n)) (ls @ [(at, n)]) bs bi H"
  unfolding fresh_labels_def
proof (intro conjI)
  note D = fresh_labelsD [OF assms(1)]
  have g: "g k' \<noteq> Some n" "g k' \<noteq> Some (Suc n)" for k' using D(2) [of k'] by fastforce+
  have ls: "l \<in> snd ` set ls \<Longrightarrow> l \<noteq> n \<and> l \<noteq> Suc n" for l using D(4) [of l] by fastforce
  show "inj_on (g(k \<mapsto> Suc n)) (dom (g(k \<mapsto> Suc n)))"
    using assms(2) g(2) D(1) by (auto simp: inj_on_def dom_def)
  show "\<forall>k' l. (g(k \<mapsto> Suc n)) k' = Some l \<longrightarrow> l < Suc (Suc n)"
    using D(2) by (auto intro: less_SucI)
  show "distinct (map snd (ls @ [(at, n)]))" using D(3) ls [of n] by auto
  show "\<forall>l \<in> snd ` set (ls @ [(at, n)]). l < Suc (Suc n)"
    using D(4) by (auto intro: less_SucI)
  show "\<forall>l \<in> snd ` set (ls @ [(at, n)]). \<forall>k'. (g(k \<mapsto> Suc n)) k' = Some l \<longrightarrow> k' < bi"
    using D(5) ls g by (auto split: if_splits)
  show "distinct (map fst bs)" "H = snd ` set bs" by (rule D(6), rule D(8))
  show "\<forall>(l, k') \<in> set bs. (g(k \<mapsto> Suc n)) k' = Some l \<and> k' < bi \<and> l \<in> snd ` set (ls @ [(at, n)])"
    using D(7) assms(2) by fastforce
qed

lemma fresh_labels_code:
  assumes "fresh_labels g n ls bs bi H" and "g bi = Some l"
  shows "fresh_labels g n (ls @ [(at, l)]) (bs @ [(l, bi)]) (Suc bi) (insert bi H)"
  unfolding fresh_labels_def
proof (intro conjI)
  note D = fresh_labelsD [OF assms(1)]
  have l: "l \<notin> snd ` set ls" using D(5) [of l bi] assms(2) by blast
  have only: "k = bi" if "g k = Some l" for k
    using that assms(2) D(1) unfolding inj_on_def dom_def by simp
  show "inj_on g (dom g)" "\<forall>k l. g k = Some l \<longrightarrow> l < n" using D(1,2) by blast+
  show "distinct (map snd (ls @ [(at, l)]))" using D(3) l by auto
  show "\<forall>l' \<in> snd ` set (ls @ [(at, l)]). l' < n" using D(4) D(2) assms(2) by auto
  show "\<forall>l' \<in> snd ` set (ls @ [(at, l)]). \<forall>k. g k = Some l' \<longrightarrow> k < Suc bi"
    using D(5) only by (auto intro: less_SucI)
  show "distinct (map fst (bs @ [(l, bi)]))" using D(6,7) l by fastforce
  show "\<forall>(l', k) \<in> set (bs @ [(l, bi)]). g k = Some l' \<and> k < Suc bi \<and> l' \<in> snd ` set (ls @ [(at, l)])"
    using D(7) assms(2) by (fastforce intro: less_SucI)
  show "insert bi H = snd ` set (bs @ [(l, bi)])" using D(8) by auto
qed

lemma on_import_inv:
  assumes "on_import True ic cs i = Ok cs'"
  shows "tables_inv cs \<Longrightarrow> tables_inv cs'" and "labels_inv cs \<Longrightarrow> labels_inv cs'"
  using on_import_Ok [OF assms]
  by (auto simp: tables_inv_def labels_inv_def bt_inv_insert
      intro: counted_import fresh_labels_import fresh_labels_more)

lemma on_function_inv:
  assumes "on_function True ic cs t = Ok cs'" and "tables_inv cs"
  shows "tables_inv cs'" and "labels_inv cs \<Longrightarrow> labels_inv cs'"
proof -
  have new: "c_function_index cs \<notin> dom (bt_get (got (c_tables cs)))"
    using assms(2) unfolding tables_inv_def counted_def by blast
  show "tables_inv cs'"
    using on_function_Ok [OF assms(1)] assms(2) by (auto simp: tables_inv_def intro: counted_function)
  show "labels_inv cs \<Longrightarrow> labels_inv cs'"
    using on_function_Ok [OF assms(1)] new
    by (auto simp: labels_inv_def bt_get_upd intro: fresh_labels_function)
qed

lemma on_code_inv:
  assumes "on_code True ic wp body cs = Ok cs'"
  shows "tables_inv cs \<Longrightarrow> tables_inv cs'" and "labels_inv cs \<Longrightarrow> labels_inv cs'"
proof -
  let ?k = "c_function_body_index cs"
  from on_code_Ok [OF assms] obtain l h where l: "bt_get (got (c_tables cs)) ?k = Some l"
    and eqs: "c_tables cs' = c_tables cs" "c_function_index cs' = c_function_index cs"
    "c_function_type_index cs' = c_function_type_index cs" "c_function_body_index cs' = Suc ?k"
    "c_module cs' = (c_module cs)\<lparr>m_function_stack_heights :=
       bt_insert ?k h (m_function_stack_heights (c_module cs))\<rparr>" by auto
  from l have "?k \<in> dom (bt_get (got (c_tables cs)))" by blast
  then show "tables_inv cs \<Longrightarrow> tables_inv cs'"
    by (simp add: tables_inv_def eqs counted_code del: domIff)
  show "labels_inv cs \<Longrightarrow> labels_inv cs'"
    using on_code_Ok [OF assms] by (auto simp: labels_inv_def intro: fresh_labels_code)
qed

section \<open>Where the compiled bodies are\<close>

text \<open>The types and labels of functions that the earlier tables have are still there.\<close>

definition types_kept :: "tables \<Rightarrow> tables \<Rightarrow> bool" where
  "types_kept tb tb' =
     ((\<forall>k v. bt_get (function_types tb) k = Some v \<longrightarrow> bt_get (function_types tb') k = Some v)
      \<and> (\<forall>k v. bt_get (function_typedefs tb) k = Some v \<longrightarrow> bt_get (function_typedefs tb') k = Some v)
      \<and> (\<forall>k l. bt_get (got tb) k = Some l \<longrightarrow> bt_get (got tb') k = Some l)
      \<and> (\<forall>k l. bt_get (ils tb) k = Some l \<longrightarrow> bt_get (ils tb') k = Some l))"

text \<open>Every function is imported or defined, and has a label accordingly.\<close>

definition total_tables :: "tables \<Rightarrow> bool" where
  "total_tables tb = (dom (bt_get (function_types tb)) \<subseteq> dom (bt_get (got tb)) \<union> dom (bt_get (ils tb))
     \<and> dom (bt_get (got tb)) \<inter> dom (bt_get (ils tb)) = {})"

lemma total_tables_inv: "tables_inv cs \<Longrightarrow> total_tables (c_tables cs)"
  by (simp add: tables_inv_def counted_def total_tables_def)

lemma types_kept_refl [simp]: "types_kept tb tb"
  by (simp add: types_kept_def)

lemma types_kept_lookup:
  "types_kept tb tb' \<Longrightarrow> function_type_of tb k = Some ft \<Longrightarrow> function_type_of tb' k = Some ft"
  by (auto simp: types_kept_def function_type_of_def Option.bind_eq_Some_conv)

lemma types_kept_trans: "types_kept tb tb1 \<Longrightarrow> types_kept tb1 tb2 \<Longrightarrow> types_kept tb tb2"
  by (auto simp: types_kept_def)

text \<open>The body was compiled as function \<open>k\<close>, its code lies in the instruction list at the
  position recorded for label \<open>l\<close>, and no other label points into it.\<close>

definition compiled_at ::
  "iced \<Rightarrow> ('p, 'v, 'f) wasmparser \<Rightarrow> 'v cstate \<Rightarrow> func_body \<Rightarrow> label \<times> nat \<Rightarrow> bool" where
  "compiled_at ic wp cs body lk = (case lk of (l, k) \<Rightarrow>
     \<exists>pre code rest tb ft fv h a a'.
       instructions (c_asm cs) = pre @ (code @ [RET]) @ rest \<and> ends_inert pre
       \<and> (length pre, l) \<in> set (c_label_indices cs)
       \<and> (\<forall>(i, l') \<in> set (c_label_indices cs). i \<le> length pre \<or> length (pre @ code @ [RET]) \<le> i)
       \<and> function_type_of (c_tables cs) k = Some ft
       \<and> compile_function True ic wp tb ft body fv a = Ok (h, a')
       \<and> instructions a = pre \<and> instructions a' = pre @ code @ [RET]
       \<and> bt_get (m_function_stack_heights (c_module cs)) k = Some h
       \<and> types_kept tb (c_tables cs) \<and> total_tables tb)"

definition extends :: "'v cstate \<Rightarrow> 'v cstate \<Rightarrow> bool" where
  "extends cs cs' =
     (types_kept (c_tables cs) (c_tables cs')
      \<and> (\<exists>xs. instructions (c_asm cs') = instructions (c_asm cs) @ xs)
      \<and> (\<exists>new. c_label_indices cs' = c_label_indices cs @ new
           \<and> (\<forall>(i, l) \<in> set new. length (instructions (c_asm cs)) \<le> i))
      \<and> (\<forall>k < c_function_body_index cs. bt_get (m_function_stack_heights (c_module cs')) k
           = bt_get (m_function_stack_heights (c_module cs)) k))"

lemma compiled_at_extends:
  assumes "compiled_at ic wp cs body (l, k)" and "extends cs cs'" and "k < c_function_body_index cs"
  shows "compiled_at ic wp cs' body (l, k)"
proof -
  from assms(1) obtain pre code rest tb ft fv h a a' where body:
    "instructions (c_asm cs) = pre @ (code @ [RET]) @ rest" "ends_inert pre"
    "(length pre, l) \<in> set (c_label_indices cs)"
    "\<forall>(i, l') \<in> set (c_label_indices cs). i \<le> length pre \<or> length (pre @ code @ [RET]) \<le> i"
    "function_type_of (c_tables cs) k = Some ft" "compile_function True ic wp tb ft body fv a = Ok (h, a')"
    "instructions a = pre" "instructions a' = pre @ code @ [RET]"
    "bt_get (m_function_stack_heights (c_module cs)) k = Some h" "types_kept tb (c_tables cs)" "total_tables tb"
    unfolding compiled_at_def by auto
  have kept: "types_kept tb (c_tables cs')"
    using assms(2) types_kept_trans [OF body(10)] unfolding extends_def by blast
  have ty: "function_type_of (c_tables cs') k = Some ft"
    using assms(2) body(5) types_kept_lookup unfolding extends_def by blast
  from assms(2,3) obtain xs new where ext: "instructions (c_asm cs') = instructions (c_asm cs) @ xs"
    "c_label_indices cs' = c_label_indices cs @ new" "\<forall>(i, l) \<in> set new. length (instructions (c_asm cs)) \<le> i"
    "bt_get (m_function_stack_heights (c_module cs')) k = bt_get (m_function_stack_heights (c_module cs)) k"
    unfolding extends_def by auto
  have "instructions (c_asm cs') = pre @ (code @ [RET]) @ (rest @ xs)" using body(1) ext(1) by simp
  moreover have "\<forall>(i, l') \<in> set (c_label_indices cs'). i \<le> length pre \<or> length (pre @ code @ [RET]) \<le> i"
    using body(1,4) ext(2,3) by fastforce
  moreover have "(length pre, l) \<in> set (c_label_indices cs')" using body(3) ext(2) by simp
  moreover have "bt_get (m_function_stack_heights (c_module cs')) k = Some h" using body(9) ext(4) by simp
  ultimately show ?thesis
    using ty kept body(2,6-8,11) unfolding compiled_at_def prod.case by blast
qed

lemma extends_refl [simp]: "extends cs cs"
  by (simp add: extends_def)

lemma new_function_types:
  assumes "tables_inv cs" and "function_typedefs tb = function_typedefs (c_tables cs)"
    and "function_types tb = bt_insert (c_function_index cs) t (function_types (c_tables cs))"
    and "got tb = got (c_tables cs) \<or> got tb = bt_insert (c_function_index cs) l (got (c_tables cs))"
    and "ils tb = ils (c_tables cs) \<or> ils tb = bt_insert (c_function_index cs) l' (ils (c_tables cs))"
  shows "types_kept (c_tables cs) tb"
proof -
  have "bt_get (function_types (c_tables cs)) (c_function_index cs) = None"
    "bt_get (got (c_tables cs)) (c_function_index cs) = None" "bt_get (ils (c_tables cs)) (c_function_index cs) = None"
    using assms(1) unfolding tables_inv_def counted_def by blast+
  with assms(2-5) show ?thesis by (auto simp: types_kept_def bt_get_insert)
qed

lemma on_import_extends:
  assumes "on_import True ic cs i = Ok cs'" and "tables_inv cs"
  shows "extends cs cs'"
proof -
  have "types_kept (c_tables cs) (c_tables cs')"
    using on_import_Ok [OF assms(1)] by (auto intro: new_function_types [OF assms(2)])
  with on_import_Ok [OF assms(1)] show ?thesis by (auto simp: extends_def)
qed

lemma on_function_extends:
  assumes "on_function True ic cs t = Ok cs'" and "tables_inv cs"
  shows "extends cs cs'"
proof -
  have "types_kept (c_tables cs) (c_tables cs')"
    using on_function_Ok [OF assms(1)] by (auto intro: new_function_types [OF assms(2)])
  with on_function_Ok [OF assms(1)] show ?thesis by (auto simp: extends_def)
qed

lemma on_code_extends: "on_code True ic wp body cs = Ok cs' \<Longrightarrow> extends cs cs'"
  using on_code_Ok [of ic wp body cs cs'] by (auto simp: extends_def bt_get_insert)

lemma on_code_compiled:
  assumes "on_code True ic wp body cs = Ok cs'" and "code_inv cs" and "tables_inv cs"
  shows "\<exists>lk. c_function_bodies cs' = c_function_bodies cs @ [lk] \<and> compiled_at ic wp cs' body lk"
proof -
  let ?k = "c_function_body_index cs" and ?pre = "instructions (c_asm cs)"
  from on_code_Ok [OF assms(1)] obtain fv ft l h a xs where c:
    "compile_function True ic wp (c_tables cs) ft body fv (c_asm cs) = Ok (h, a)"
    "function_type_of (c_tables cs) ?k = Some ft" "instructions a = ?pre @ xs @ [RET]"
    and eqs: "c_asm cs' = a" "c_label_indices cs' = c_label_indices cs @ [(length ?pre, l)]"
    "c_tables cs' = c_tables cs"
    "c_function_bodies cs' = c_function_bodies cs @ [(l, ?k)]"
    "m_function_stack_heights (c_module cs') = bt_insert ?k h (m_function_stack_heights (c_module cs))"
    by fastforce
  have "\<forall>(i, l') \<in> set (c_label_indices cs'). i \<le> length ?pre \<or> length (?pre @ xs @ [RET]) \<le> i"
    using assms(2) eqs(2) by (fastforce simp: code_inv_def labels_placed_def)
  moreover have "ends_inert ?pre" using assms(2) by (simp add: code_inv_def)
  moreover have "instructions (c_asm cs') = ?pre @ (xs @ [RET]) @ []" using c(3) eqs(1) by simp
  moreover have "bt_get (m_function_stack_heights (c_module cs')) ?k = Some h"
    by (simp add: eqs(5) bt_get_insert)
  moreover have "(length ?pre, l) \<in> set (c_label_indices cs')" by (simp add: eqs(2))
  ultimately have "compiled_at ic wp cs' body (l, ?k)"
    unfolding compiled_at_def prod.case eqs(3) using c types_kept_refl total_tables_inv [OF assms(3)] by blast
  with eqs(4) show ?thesis by blast
qed

section \<open>All payloads\<close>

definition compile_inv ::
  "iced \<Rightarrow> ('p, 'v, 'f) wasmparser \<Rightarrow> 'v cstate \<Rightarrow> func_body list \<Rightarrow> bool" where
  "compile_inv ic wp cs bodies =
     (code_inv cs \<and> tables_inv cs \<and> labels_inv cs
      \<and> list_all2 (compiled_at ic wp cs) bodies (c_function_bodies cs))"

text \<open>The function bodies among the payloads, in order.\<close>

fun code_bodies :: "payload list \<Rightarrow> func_body list" where
  "code_bodies [] = []"
| "code_bodies (P_CodeSectionEntry body # ps) = body # code_bodies ps"
| "code_bodies (_ # ps) = code_bodies ps"

lemma compiled_list_extends:
  assumes "list_all2 (compiled_at ic wp cs) bodies (c_function_bodies cs)" and "extends cs cs'"
    and "labels_inv cs"
  shows "list_all2 (compiled_at ic wp cs') bodies (c_function_bodies cs)"
proof (rule list.rel_mono_strong [OF assms(1)])
  fix body lk
  assume lk: "lk \<in> set (c_function_bodies cs)" and at: "compiled_at ic wp cs body lk"
  obtain l k where "lk = (l, k)" by (cases lk)
  with lk at assms(2,3) show "compiled_at ic wp cs' body lk"
    using fresh_labelsD(7) compiled_at_extends unfolding labels_inv_def by blast
qed

lemma compile_inv_import:
  assumes "compile_inv ic wp cs bodies" and "on_import True ic cs i = Ok cs'"
  shows "compile_inv ic wp cs' bodies"
proof -
  have "c_function_bodies cs' = c_function_bodies cs" using on_import_Ok [OF assms(2)] by auto
  with assms on_import_inv [OF assms(2)] on_import_code_inv [OF _ assms(2)] on_import_extends [OF assms(2)]
    compiled_list_extends show ?thesis by (auto simp: compile_inv_def)
qed

lemma compile_inv_function:
  assumes "compile_inv ic wp cs bodies" and "on_function True ic cs t = Ok cs'"
  shows "compile_inv ic wp cs' bodies"
proof -
  have "c_function_bodies cs' = c_function_bodies cs" using on_function_Ok [OF assms(2)] by auto
  with assms on_function_inv [OF assms(2)] on_function_code_inv [OF _ assms(2)] on_function_extends [OF assms(2)]
    compiled_list_extends show ?thesis by (auto simp: compile_inv_def)
qed

lemma compile_inv_code:
  assumes "compile_inv ic wp cs bodies" and "on_code True ic wp body cs = Ok cs'"
  shows "compile_inv ic wp cs' (bodies @ [body])"
proof -
  from assms(1) have inv: "code_inv cs" "tables_inv cs" "labels_inv cs"
    "list_all2 (compiled_at ic wp cs) bodies (c_function_bodies cs)" by (simp_all add: compile_inv_def)
  from on_code_compiled [OF assms(2) inv(1,2)] obtain lk where
    "c_function_bodies cs' = c_function_bodies cs @ [lk]" "compiled_at ic wp cs' body lk" by blast
  with compiled_list_extends [OF inv(4) on_code_extends [OF assms(2)] inv(3)]
    on_code_inv [OF assms(2)] on_code_code_inv [OF inv(1) assms(2)] inv(2,3) show ?thesis
    by (simp add: compile_inv_def list_all2_appendI)
qed

lemma compile_inv_same:
  assumes "compile_inv ic wp cs bodies"
    and "c_asm cs' = c_asm cs" "c_label_indices cs' = c_label_indices cs"
    "c_function_bodies cs' = c_function_bodies cs" "c_function_index cs' = c_function_index cs"
    "c_function_body_index cs' = c_function_body_index cs"
    "got (c_tables cs') = got (c_tables cs)" "ils (c_tables cs') = ils (c_tables cs)"
    "function_types (c_tables cs') = function_types (c_tables cs)"
    "m_imports (c_module cs') = m_imports (c_module cs)" "m_functions (c_module cs') = m_functions (c_module cs)"
    "m_function_stack_heights (c_module cs') = m_function_stack_heights (c_module cs)"
    and "dom (bt_get (function_typedefs (c_tables cs'))) = {..<c_function_type_index cs'}"
    and "types_kept (c_tables cs) (c_tables cs')"
  shows "compile_inv ic wp cs' bodies"
proof -
  have "extends cs cs'" using assms(2,3,12,14) by (simp add: extends_def)
  with assms compiled_list_extends [of ic wp cs bodies cs'] show ?thesis
    by (simp add: compile_inv_def code_inv_def tables_inv_def labels_inv_def counted_def)
qed

lemma compile_inv_typedefs:
  "compile_inv ic wp cs bodies \<Longrightarrow> dom (bt_get (function_typedefs (c_tables cs))) = {..<c_function_type_index cs}"
  by (simp add: compile_inv_def tables_inv_def counted_def)

lemma compile_inv_unchanged:
  assumes "compile_inv ic wp cs bodies"
    and "c_asm cs' = c_asm cs" "c_label_indices cs' = c_label_indices cs"
    "c_function_bodies cs' = c_function_bodies cs" "c_function_index cs' = c_function_index cs"
    "c_function_body_index cs' = c_function_body_index cs" "c_tables cs' = c_tables cs"
    "m_imports (c_module cs') = m_imports (c_module cs)" "m_functions (c_module cs') = m_functions (c_module cs)"
    "m_function_stack_heights (c_module cs') = m_function_stack_heights (c_module cs)"
    "c_function_type_index cs' = c_function_type_index cs"
  shows "compile_inv ic wp cs' bodies"
  by (rule compile_inv_same [OF assms(1)]) (simp_all add: assms(2-) compile_inv_typedefs [OF assms(1)])

lemma compile_inv_validate:
  assumes inv: "compile_inv ic wp cs bodies" and "validate wp p cs = Ok cs'"
  shows "compile_inv ic wp cs' bodies"
  by (rule compile_inv_unchanged [OF inv]) (use assms(2) in \<open>auto simp: validate_def res_simps\<close>)

lemma compile_inv_memory:
  assumes inv: "compile_inv ic wp cs bodies" and "on_memory cs x = Ok cs'"
  shows "compile_inv ic wp cs' bodies"
  by (rule compile_inv_unchanged [OF inv]) (use assms(2) in \<open>auto simp: on_memory_def res_simps\<close>)

lemma compile_inv_export:
  assumes inv: "compile_inv ic wp cs bodies" and "on_export cs x = Ok cs'"
  shows "compile_inv ic wp cs' bodies"
  by (rule compile_inv_unchanged [OF inv]) (use assms(2) in \<open>auto simp: on_export_def res_simps\<close>)

lemma compile_inv_type:
  assumes inv: "compile_inv ic wp cs bodies" and step: "on_type True cs x = Ok cs'"
  shows "compile_inv ic wp cs' bodies"
proof -
  from step obtain d where d: "lift_reader x = Ok d" by (auto simp: on_type_def res_simps)
  show ?thesis
  proof (cases d)
    case (TypeDef_Func ft)
    with step d have cs': "cs' = cs\<lparr>c_tables := (c_tables cs)\<lparr>function_typedefs :=
        bt_insert (c_function_type_index cs) ft (function_typedefs (c_tables cs))\<rparr>,
        c_function_type_index := Suc (c_function_type_index cs)\<rparr>"
      by (simp add: on_type_def res_simps u32_add_checked)
    have "bt_get (function_typedefs (c_tables cs)) (c_function_type_index cs) = None"
      using compile_inv_typedefs [OF inv] by blast
    then have "types_kept (c_tables cs) (c_tables cs')" by (auto simp: cs' types_kept_def bt_get_insert)
    then show ?thesis
      by (intro compile_inv_same [OF inv])
        (simp_all add: cs' compile_inv_typedefs [OF inv] lessThan_Suc_insert)
  next
    case TypeDef_Other
    with step d inv show ?thesis by (simp add: on_type_def)
  qed
qed

lemma section_loop_inv:
  assumes "compile_inv ic wp cs bodies"
    and "and_then (validate wp p cs) (\<lambda>cs. foldM f cs xs) = Ok cs'"
    and "\<And>cs x cs'. compile_inv ic wp cs bodies \<Longrightarrow> f cs x = Ok cs' \<Longrightarrow> compile_inv ic wp cs' bodies"
  shows "compile_inv ic wp cs' bodies"
proof -
  from assms(2) obtain cs1 where "validate wp p cs = Ok cs1" "foldM f cs1 xs = Ok cs'"
    by (auto simp: res_simps)
  with compile_inv_validate [OF assms(1)] assms(3) show ?thesis
    using foldM_invariant [of f cs1 xs cs' "\<lambda>cs. compile_inv ic wp cs bodies"] by blast
qed

lemma handle_payload_inv:
  assumes "handle_payload True ic wp p cs = Ok cs'" and inv: "compile_inv ic wp cs bodies"
  shows "compile_inv ic wp cs' (bodies @ code_bodies [p])"
proof (cases "\<exists>body. p = P_CodeSectionEntry body")
  case True
  with assms compile_inv_code show ?thesis by auto
next
  case other: False
  note loop = section_loop_inv [OF inv, of p]
  have "compile_inv ic wp cs' bodies"
  proof (cases p)
    case (P_MemorySection r)
    with assms(1) have "and_then (validate wp p cs) (\<lambda>cs. foldM on_memory cs r) = Ok cs'" by simp
    then show ?thesis by (rule loop) (rule compile_inv_memory)
  next
    case (P_TypeSection ts)
    with assms(1) have "and_then (validate wp p cs) (\<lambda>cs. foldM (on_type True) cs ts) = Ok cs'" by simp
    then show ?thesis by (rule loop) (rule compile_inv_type)
  next
    case (P_ImportSection xs)
    with assms(1) have "and_then (validate wp p cs) (\<lambda>cs. foldM (on_import True ic) cs xs) = Ok cs'" by simp
    then show ?thesis by (rule loop) (rule compile_inv_import)
  next
    case (P_FunctionSection fs)
    with assms(1) have "and_then (validate wp p cs) (\<lambda>cs. foldM (on_function True ic) cs fs) = Ok cs'" by simp
    then show ?thesis by (rule loop) (rule compile_inv_function)
  next
    case (P_ExportSection es)
    with assms(1) have "and_then (validate wp p cs) (\<lambda>cs. foldM on_export cs es) = Ok cs'" by simp
    then show ?thesis by (rule loop) (rule compile_inv_export)
  next
    case P_ModuleSectionEntry
    with assms(1) show ?thesis by (auto intro: compile_inv_unchanged [OF inv])
  qed (use assms(1) other inv compile_inv_validate [OF inv] in simp_all)
  moreover have "code_bodies [p] = []" using other by (cases p) auto
  ultimately show ?thesis by simp
qed

lemma handle_all_inv:
  "handle_all True ic wp cs ps = Ok cs' \<Longrightarrow> compile_inv ic wp cs bodies \<Longrightarrow>
     compile_inv ic wp cs' (bodies @ code_bodies ps)"
proof (induction ps arbitrary: cs bodies)
  case (Cons p ps)
  then obtain cs1 where cs1: "handle_payload True ic wp p cs = Ok cs1" "handle_all True ic wp cs1 ps = Ok cs'"
    by (auto simp: res_simps)
  have "code_bodies [p] @ code_bodies ps = code_bodies (p # ps)" by (cases p) auto
  with Cons.IH [OF cs1(2) handle_payload_inv [OF cs1(1) Cons.prems(2)]] show ?case by simp
qed simp

lemma initial_inv:
  assumes "initial_state ic wp = Ok cs"
  shows "compile_inv ic wp cs []"
proof -
  from assms obtain a where cs: "cs = \<lparr>
       c_validator = new_validator wp compiler_features, c_asm = a,
       c_tables = \<lparr>got = [], ils = [], function_typedefs = [], function_types = []\<rparr>,
       c_module = new_module, c_function_index = 0, c_function_body_index = 0,
       c_function_type_index = 0, c_label_indices = [], c_function_bodies = []\<rparr>"
    and a: "instructions a = []"
    by (auto simp: initial_state_def res_simps dest: new_asm_Ok)
  have none: "bt_get [] = (\<lambda>k. None)" by (rule ext) simp
  show ?thesis
    by (simp add: cs a none compile_inv_def code_inv_def labels_placed_def tables_inv_def labels_inv_def
        counted_def fresh_labels_def new_module_def)
qed

end
