(* ===== verification/Index_Space.thy ===== *)
theory Index_Space
  imports Compile_Invariant
begin

text \<open>
  Function indices. WebAssembly numbers the imported functions first and the defined ones
  after them; \<open>body_indices\<close> says which index each function body of a module has, and the
  counter \<open>function_body_index\<close> of \<open>compile\<close> (\<open>src/parawasm/src/x86_64/mod.rs\<close>) is shown to
  produce exactly these.
\<close>

fun is_function_import :: "import_entry item \<Rightarrow> bool" where
  "is_function_import (Inl e) = False"
| "is_function_import (Inr i) = (case im_ty i of Import_Function t \<Rightarrow> True | Import_Other \<Rightarrow> False)"

definition function_imports :: "import_entry item list \<Rightarrow> nat" where
  "function_imports is = length (filter is_function_import is)"

fun next_body :: "nat \<Rightarrow> payload \<Rightarrow> nat" where
  "next_body n (P_CodeSectionEntry body) = Suc n"
| "next_body n (P_ImportSection is) = n + function_imports is"
| "next_body n _ = n"

fun body_indices :: "nat \<Rightarrow> payload list \<Rightarrow> nat list" where
  "body_indices n [] = []"
| "body_indices n (p # ps) = map (\<lambda>_. n) (code_bodies [p]) @ body_indices (next_body n p) ps"

lemma length_body_indices: "length (body_indices n ps) = length (code_bodies ps)"
proof (induction ps arbitrary: n)
  case (Cons p ps)
  then show ?case by (cases p) auto
qed simp

text \<open>The two variables that matter, after each handler.\<close>

abbreviation numbering :: "'v cstate \<Rightarrow> nat \<times> (label \<times> nat) list" where
  "numbering cs \<equiv> (c_function_body_index cs, c_function_bodies cs)"

lemma numbering_simple:
  "validate wp p cs = Ok cs' \<Longrightarrow> numbering cs' = numbering cs"
  "on_memory cs m = Ok cs' \<Longrightarrow> numbering cs' = numbering cs"
  "on_export cs e = Ok cs' \<Longrightarrow> numbering cs' = numbering cs"
  "on_function True ic cs f = Ok cs' \<Longrightarrow> numbering cs' = numbering cs"
  by (auto simp: validate_def on_memory_def on_export_def res_simps dest: on_function_Ok)

lemma on_type_numbering:
  assumes "on_type checks cs t = Ok cs'"
  shows "numbering cs' = numbering cs"
proof -
  from assms obtain d where "lift_reader t = Ok d" by (auto simp: on_type_def res_simps)
  with assms show ?thesis by (cases d) (auto simp: on_type_def res_simps)
qed

lemma foldM_numbering:
  assumes "foldM f cs xs = Ok cs'" and "\<And>cs x cs'. f cs x = Ok cs' \<Longrightarrow> numbering cs' = numbering cs"
  shows "numbering cs' = numbering cs"
  using foldM_invariant [OF assms(1), of "\<lambda>c. numbering c = numbering cs"] assms(2) by metis

lemma on_import_numbering:
  assumes "on_import True ic cs i = Ok cs'"
  shows "numbering cs' = (c_function_body_index cs + function_imports [i], c_function_bodies cs)"
proof (cases i)
  case (Inl e)
  with assms show ?thesis by (simp add: on_import_def)
next
  case (Inr import)
  then show ?thesis
    using assms
    by (cases "im_ty import")
      (auto simp: on_import_def function_imports_def create_label_def Let_def res_simps u32_add_checked)
qed

lemma on_imports_numbering:
  "foldM (on_import True ic) cs is = Ok cs' \<Longrightarrow>
     numbering cs' = (c_function_body_index cs + function_imports is, c_function_bodies cs)"
proof (induction "is" arbitrary: cs)
  case (Cons i "is")
  then obtain cs1 where "on_import True ic cs i = Ok cs1" "foldM (on_import True ic) cs1 is = Ok cs'"
    by (auto simp: res_simps)
  with Cons.IH on_import_numbering show ?case by (fastforce simp: function_imports_def)
qed (simp add: function_imports_def)

lemma handle_payload_numbering:
  assumes "handle_payload True ic wp p cs = Ok cs'"
  shows "c_function_body_index cs' = next_body (c_function_body_index cs) p
    \<and> map snd (c_function_bodies cs') = map snd (c_function_bodies cs)
        @ map (\<lambda>_. c_function_body_index cs) (code_bodies [p])"
proof (cases p)
  case (P_ImportSection xs)
  with assms obtain cs1 where "validate wp p cs = Ok cs1" "foldM (on_import True ic) cs1 xs = Ok cs'"
    by (auto simp: res_simps)
  with numbering_simple(1) on_imports_numbering P_ImportSection show ?thesis by fastforce
next
  case (P_CodeSectionEntry body)
  with assms on_code_Ok [of ic wp body cs cs'] show ?thesis by auto
next
  case (P_MemorySection xs)
  with assms obtain cs1 where "validate wp p cs = Ok cs1" "foldM on_memory cs1 xs = Ok cs'"
    by (auto simp: res_simps)
  with foldM_numbering [OF _ numbering_simple(2)] numbering_simple(1) P_MemorySection show ?thesis by fastforce
next
  case (P_TypeSection xs)
  with assms obtain cs1 where "validate wp p cs = Ok cs1" "foldM (on_type True) cs1 xs = Ok cs'"
    by (auto simp: res_simps)
  with foldM_numbering [OF _ on_type_numbering] numbering_simple(1) P_TypeSection show ?thesis by fastforce
next
  case (P_FunctionSection xs)
  with assms obtain cs1 where "validate wp p cs = Ok cs1" "foldM (on_function True ic) cs1 xs = Ok cs'"
    by (auto simp: res_simps)
  with foldM_numbering [OF _ numbering_simple(4)] numbering_simple(1) P_FunctionSection show ?thesis by fastforce
next
  case (P_ExportSection xs)
  with assms obtain cs1 where "validate wp p cs = Ok cs1" "foldM on_export cs1 xs = Ok cs'"
    by (auto simp: res_simps)
  with foldM_numbering [OF _ numbering_simple(3)] numbering_simple(1) P_ExportSection show ?thesis by fastforce
qed (use assms numbering_simple(1) in \<open>fastforce+\<close>)

lemma handle_all_numbering:
  "handle_all True ic wp cs ps = Ok cs' \<Longrightarrow>
     map snd (c_function_bodies cs') = map snd (c_function_bodies cs) @ body_indices (c_function_body_index cs) ps"
proof (induction ps arbitrary: cs)
  case (Cons p ps)
  then obtain cs1 where "handle_payload True ic wp p cs = Ok cs1" "handle_all True ic wp cs1 ps = Ok cs'"
    by (auto simp: res_simps)
  with Cons.IH handle_payload_numbering show ?case by fastforce
qed simp

section \<open>Types\<close>

definition nth_opt :: "'a list \<Rightarrow> nat \<Rightarrow> 'a option" where
  "nth_opt xs i = (if i < length xs then Some (xs ! i) else None)"

lemma nth_opt_snoc: "(nth_opt xs)(length xs \<mapsto> x) = nth_opt (xs @ [x])"
  by (rule ext) (auto simp: nth_opt_def nth_append)

text \<open>The function types a module declares, and the type index of each function.\<close>

fun declared_type :: "type_def item \<Rightarrow> func_type list" where
  "declared_type (Inr (TypeDef_Func ft)) = [ft]"
| "declared_type _ = []"

fun imported_type :: "import_entry item \<Rightarrow> nat list" where
  "imported_type (Inr i) = (case im_ty i of Import_Function t \<Rightarrow> [t] | Import_Other \<Rightarrow> [])"
| "imported_type _ = []"

fun defined_type :: "nat item \<Rightarrow> nat list" where
  "defined_type (Inr t) = [t]"
| "defined_type (Inl e) = []"

fun declared_types :: "payload list \<Rightarrow> func_type list" where
  "declared_types [] = []"
| "declared_types (P_TypeSection ts # ps) = concat (map declared_type ts) @ declared_types ps"
| "declared_types (_ # ps) = declared_types ps"

fun type_indices :: "payload list \<Rightarrow> nat list" where
  "type_indices [] = []"
| "type_indices (P_ImportSection is # ps) = concat (map imported_type is) @ type_indices ps"
| "type_indices (P_FunctionSection fs # ps) = concat (map defined_type fs) @ type_indices ps"
| "type_indices (_ # ps) = type_indices ps"

text \<open>The type the specification gives to function \<open>k\<close>, and the one the compiler finds.\<close>

definition wasm_type :: "payload list \<Rightarrow> nat \<Rightarrow> func_type option" where
  "wasm_type ps k = Option.bind (nth_opt (type_indices ps) k) (nth_opt (declared_types ps))"

definition found_type :: "payload list \<Rightarrow> nat \<Rightarrow> func_type option" where
  "found_type ps k = Option.bind (Option.bind (nth_opt (type_indices ps) k) (nth_opt (type_indices ps)))
     (nth_opt (declared_types ps))"

definition typed_as :: "'v cstate \<Rightarrow> func_type list \<Rightarrow> nat list \<Rightarrow> bool" where
  "typed_as cs tys idxs =
     (bt_get (function_typedefs (c_tables cs)) = nth_opt tys \<and> c_function_type_index cs = length tys
      \<and> bt_get (function_types (c_tables cs)) = nth_opt idxs \<and> c_function_index cs = length idxs)"

lemma on_type_typed:
  assumes "typed_as cs tys idxs" and "on_type True cs t = Ok cs'"
  shows "typed_as cs' (tys @ declared_type t) idxs"
proof (cases t)
  case (Inr d)
  with assms show ?thesis
    by (cases d) (auto simp: on_type_def typed_as_def res_simps u32_add_checked bt_get_upd nth_opt_snoc)
qed (use assms in \<open>simp add: on_type_def\<close>)

lemma on_import_typed:
  assumes "typed_as cs tys idxs" and "on_import True ic cs i = Ok cs'"
  shows "typed_as cs' tys (idxs @ imported_type i)"
proof (cases i)
  case (Inr e)
  with assms show ?thesis
    by (cases "im_ty e")
      (auto simp: on_import_def typed_as_def create_label_def Let_def res_simps u32_add_checked bt_get_upd nth_opt_snoc)
qed (use assms in \<open>simp add: on_import_def\<close>)

lemma on_function_typed:
  assumes "typed_as cs tys idxs" and "on_function True ic cs f = Ok cs'"
  shows "typed_as cs' tys (idxs @ defined_type f)"
proof (cases f)
  case (Inr t)
  with assms show ?thesis
    by (auto simp: on_function_def typed_as_def create_label_def Let_def res_simps u32_add_checked bt_get_upd nth_opt_snoc)
qed (use assms in \<open>auto simp: on_function_def create_label_def Let_def res_simps\<close>)

lemma typed_unchanged:
  "typed_as cs tys idxs \<Longrightarrow> c_tables cs' = c_tables cs \<Longrightarrow> c_function_type_index cs' = c_function_type_index cs \<Longrightarrow>
     c_function_index cs' = c_function_index cs \<Longrightarrow> typed_as cs' tys idxs"
  by (simp add: typed_as_def)

lemma typed_simple:
  "typed_as cs tys idxs \<Longrightarrow> validate wp p cs = Ok cs' \<Longrightarrow> typed_as cs' tys idxs"
  "typed_as cs tys idxs \<Longrightarrow> on_memory cs m = Ok cs' \<Longrightarrow> typed_as cs' tys idxs"
  "typed_as cs tys idxs \<Longrightarrow> on_export cs e = Ok cs' \<Longrightarrow> typed_as cs' tys idxs"
  "typed_as cs tys idxs \<Longrightarrow> on_code True ic wp body cs = Ok cs' \<Longrightarrow> typed_as cs' tys idxs"
  by (auto simp: validate_def on_memory_def on_export_def typed_as_def res_simps dest: on_code_Ok)

text \<open>A loop over the items of a section appends what each item declares.\<close>

lemma foldM_typed:
  assumes "\<And>cs x cs' tys idxs. typed_as cs tys idxs \<Longrightarrow> f cs x = Ok cs' \<Longrightarrow> typed_as cs' (tys @ g x) (idxs @ h x)"
  shows "foldM f cs xs = Ok cs' \<Longrightarrow> typed_as cs tys idxs \<Longrightarrow>
    typed_as cs' (tys @ concat (map g xs)) (idxs @ concat (map h xs))"
proof (induction xs arbitrary: cs tys idxs)
  case (Cons x xs)
  then obtain cs1 where "f cs x = Ok cs1" "foldM f cs1 xs = Ok cs'" by (auto simp: res_simps)
  with Cons.IH assms Cons.prems(2) show ?case by fastforce
qed simp

lemma concat_Nil [simp]: "concat (map (\<lambda>_. []) xs) = []"
  by (induction xs) auto

lemma section_typed:
  assumes "and_then (validate wp p cs) (\<lambda>cs. foldM f cs xs) = Ok cs'" and "typed_as cs tys idxs"
    and "\<And>cs x cs' tys idxs. typed_as cs tys idxs \<Longrightarrow> f cs x = Ok cs' \<Longrightarrow> typed_as cs' (tys @ g x) (idxs @ h x)"
  shows "typed_as cs' (tys @ concat (map g xs)) (idxs @ concat (map h xs))"
proof -
  from assms(1) obtain cs1 where "validate wp p cs = Ok cs1" "foldM f cs1 xs = Ok cs'" by (auto simp: res_simps)
  moreover from this(1) have "typed_as cs1 tys idxs" by (rule typed_simple(1) [OF assms(2)])
  ultimately show ?thesis by (intro foldM_typed [of f g h cs1]) (rule assms(3))
qed

lemma handle_payload_typed:
  assumes "handle_payload True ic wp p cs = Ok cs'" and ty: "typed_as cs tys idxs"
  shows "typed_as cs' (tys @ declared_types [p]) (idxs @ type_indices [p])"
proof (cases p)
  case (P_TypeSection ts)
  have "typed_as cs' (tys @ concat (map declared_type ts)) (idxs @ concat (map (\<lambda>_. []) ts))"
    by (rule section_typed [OF _ ty, of wp p "on_type True" ts]) (use assms(1) P_TypeSection on_type_typed in auto)
  with P_TypeSection show ?thesis by simp
next
  case (P_ImportSection xs)
  have "typed_as cs' (tys @ concat (map (\<lambda>_. []) xs)) (idxs @ concat (map imported_type xs))"
    by (rule section_typed [OF _ ty, of wp p "on_import True ic" xs]) (use assms(1) P_ImportSection on_import_typed in auto)
  with P_ImportSection show ?thesis by simp
next
  case (P_FunctionSection fs)
  have "typed_as cs' (tys @ concat (map (\<lambda>_. []) fs)) (idxs @ concat (map defined_type fs))"
    by (rule section_typed [OF _ ty, of wp p "on_function True ic" fs]) (use assms(1) P_FunctionSection on_function_typed in auto)
  with P_FunctionSection show ?thesis by simp
next
  case (P_MemorySection xs)
  have "typed_as cs' (tys @ concat (map (\<lambda>_. []) xs)) (idxs @ concat (map (\<lambda>_. []) xs))"
    by (rule section_typed [OF _ ty, of wp p on_memory xs]) (use assms(1) P_MemorySection typed_simple(2) in auto)
  with P_MemorySection show ?thesis by simp
next
  case (P_ExportSection xs)
  have "typed_as cs' (tys @ concat (map (\<lambda>_. []) xs)) (idxs @ concat (map (\<lambda>_. []) xs))"
    by (rule section_typed [OF _ ty, of wp p on_export xs]) (use assms(1) P_ExportSection typed_simple(3) in auto)
  with P_ExportSection show ?thesis by simp
next
  case (P_CodeSectionEntry body)
  with assms typed_simple(4) show ?thesis by auto
next
  case P_ModuleSectionEntry
  with assms show ?thesis by (auto intro: typed_unchanged)
qed (use assms typed_simple(1) [OF ty] in simp_all)

lemma handle_all_typed:
  "handle_all True ic wp cs ps = Ok cs' \<Longrightarrow> typed_as cs tys idxs \<Longrightarrow>
     typed_as cs' (tys @ declared_types ps) (idxs @ type_indices ps)"
proof (induction ps arbitrary: cs tys idxs)
  case (Cons p ps)
  then obtain cs1 where cs1: "handle_payload True ic wp p cs = Ok cs1" "handle_all True ic wp cs1 ps = Ok cs'"
    by (auto simp: res_simps)
  have "declared_types [p] @ declared_types ps = declared_types (p # ps)"
    "type_indices [p] @ type_indices ps = type_indices (p # ps)" by (cases p; simp)+
  with Cons.IH [OF cs1(2) handle_payload_typed [OF cs1(1) Cons.prems(2)]] show ?case by simp
qed simp

lemma bt_get_Nil: "bt_get [] = nth_opt []"
  by (rule ext) (simp add: nth_opt_def)

text \<open>The compiler's look-up, in terms of the module.\<close>

lemma found_type_lookup:
  assumes "initial_state ic wp = Ok cs0" and "handle_all True ic wp cs0 ps = Ok cs"
  shows "function_type_of (c_tables cs) k = found_type ps k"
proof -
  have "typed_as cs0 [] []" using assms(1) by (auto simp: initial_state_def typed_as_def res_simps bt_get_Nil)
  from handle_all_typed [OF assms(2) this] show ?thesis
    by (simp add: typed_as_def function_type_of_def found_type_def)
qed

end
