(* ===== verification/Call_Sound.thy ===== *)
theory Call_Sound
  imports Function_Entry
begin

text \<open>
  Both sides of a call: the code \<open>handle_instruction\<close> emits for \<open>call\<close>
  (\<open>src/parawasm/src/x86_64/instructions.rs\<close>) against the prologue and epilogue of the called
  function (\<open>src/parawasm/src/x86_64/mod.rs\<close>). The caller pops the arguments into
  registers, the callee stores the registers as its locals; the callee pops results into
  registers, the caller pushes them.
\<close>

section \<open>The code of a call\<close>

definition call_code :: "tables \<Rightarrow> nat \<Rightarrow> instr list" where
  "call_code tb function_index =
     (case bt_get (got tb) function_index of
        Some label \<Rightarrow> [CALL_label label]
      | None \<Rightarrow> (case bt_get (ils tb) function_index of
                   Some import_label \<Rightarrow> [MOV_rm R10 (MemLabel import_label), CALL_r R10]
                 | None \<Rightarrow> []))"

lemma emit_call_code: "emit_call ic tb f = emit ic (call_code tb f)"
  by (rule ext) (simp add: emit_call_def call_code_def split: option.splits)

lemma integer_typed_is_int: "integer_typed ts = (\<forall>t \<in> set ts. is_int t)"
  by (simp add: integer_typed_def is_int_def)

lemma emit_append_fun: "emit ic (xs @ ys) = (\<lambda>a. and_then (emit ic xs a) (emit ic ys))"
  by (rule ext) simp

lemma handle_call_code:
  assumes "function_type_of tb f = Some ft" and "length (ft_params ft) \<le> 6"
    and "integer_typed (ft_params ft)" and "integer_typed (ft_returns ft)"
  shows "handle_instruction ic tb locals (Call f) a
    = emit ic (map POP (rev (take (length (ft_params ft)) integer_registers)) @ call_code tb f
        @ map PUSH (take (length (ft_returns ft)) [RAX, RDX])) a"
proof -
  let ?order = "take (length (ft_params ft)) integer_registers"
  have "drain_to (length (ft_params ft)) integer_registers = Ok ?order"
    "length ?order = length (ft_params ft)"
    using assms(2) by (simp_all add: integer_registers_def)
  then show ?thesis
    using assms pop_arguments_registers [of "ft_params ft" ?order ic]
      push_results_registers [of "ft_returns ft" ic "[RAX, RDX]"]
    by (simp add: integer_typed_is_int emit_call_code emit_append_fun)
qed

section \<open>Popping into registers\<close>

lemma run_pops:
  assumes "frame_ok f" and "distinct rs" and "\<forall>r \<in> set rs. is_r64 r \<and> r \<noteq> RSP \<and> r \<noteq> RBP"
    and "length rs = length vs" and "represents f (vs @ st, ls) s"
  shows "\<exists>s'. run env (map POP rs) s = Some s' \<and> represents f (st, ls) s' \<and> map (regs s') rs = vs
    \<and> (\<forall>q. q \<notin> set rs \<longrightarrow> q \<noteq> RSP \<longrightarrow> regs s' q = regs s q)"
  using assms(2-5)
proof (induction rs arbitrary: vs s)
  case (Cons r rs)
  then obtain v vs' where vs: "vs = v # vs'" "length rs = length vs'" by (cases vs) auto
  with Cons.prems sim_pop [of f v "vs' @ st" ls s r env] obtain s1 where s1:
    "exec1 env (POP r) s = Some s1" "represents f (vs' @ st, ls) s1" "regs s1 r = v"
    "\<forall>q. q \<noteq> r \<longrightarrow> q \<noteq> RSP \<longrightarrow> regs s1 q = regs s q" by auto
  from Cons.IH [OF _ _ vs(2) s1(2)] Cons.prems obtain s' where s':
    "run env (map POP rs) s1 = Some s'" "represents f (st, ls) s'" "map (regs s') rs = vs'"
    "\<forall>q. q \<notin> set rs \<longrightarrow> q \<noteq> RSP \<longrightarrow> regs s' q = regs s1 q" by auto
  have "regs s' r = v" using s' s1(3) Cons.prems by auto
  with s1 s' vs Cons.prems show ?case by (auto simp del: exec1.simps)
qed simp

lemma distinct_registers: "distinct (take n integer_registers)"
  by (rule distinct_take) (simp add: integer_registers_def)

lemma run_push_two:
  assumes fr: "frame_ok f" and rep: "represents f (st, ls) s" and "length st + 2 \<le> fr_height f"
  shows "\<exists>s'. run env [PUSH RAX, PUSH RDX] s = Some s' \<and> represents f (regs s RDX # regs s RAX # st, ls) s'"
proof -
  from sim_push [OF fr rep, of RAX env] assms(3) obtain s1 where s1: "exec1 env (PUSH RAX) s = Some s1"
    "represents f (regs s RAX # st, ls) s1" by auto
  then have "regs s1 RDX = regs s RDX" by (auto simp: machine_simps)
  with sim_push [OF fr s1(2), of RDX env] assms(3) s1 show ?thesis
    by (auto simp del: exec1.simps)
qed

section \<open>Properties\<close>

text \<open>C32. The caller passes arguments in order, the callee receives them reversed. After the
  pops that \<open>call\<close> emits, register \<open>i\<close> of the calling convention holds argument \<open>i\<close>; the code
  that \<open>compile_function\<close> emits for a function of this type (\<open>i64\<close> parameters, no declared locals,
  any body) begins with instructions that, started with these registers, make argument
  \<open>n - 1 - k\<close> local \<open>k\<close>, at the offsets under which the operators of the body find their locals.\<close>

theorem call_reverses_arguments:
  assumes "function_type_of tb g = Some ft" and "ft_params ft = replicate n I64" and "n \<le> 6"
    and "integer_typed (ft_returns ft)" and "handle_instruction ic tb locals (Call g) a = Ok a'"
    and "compile_function checks ic' wp tb' ft cs fv b = Ok (h, b')" and "fb_locals cs = Inr []"
    and "frame_ok f" and "represents f (rev args @ st, ls) s" and "length args = n"
  shows "\<exists>rest s' entry rest'. instructions a' = instructions a @ map POP (rev (take n integer_registers)) @ rest
    \<and> run env (map POP (rev (take n integer_registers))) s = Some s'
    \<and> represents f (st, ls) s' \<and> arguments n s' = args
    \<and> instructions b' = instructions b @ entry @ rest'
    \<and> layout_params checks (ft_params ft) = (Ok (param_offsets n, 8 * n) :: (compile_error, nat list \<times> nat) res)
    \<and> (\<forall>t. (\<forall>r \<in> set integer_registers. regs t r = regs s' r) \<longrightarrow>
         (\<exists>t'. run env entry t = Some t'
            \<and> represents (leaf_frame (regs t RSP - 8) n 0) ([], rev args) t'))"
proof -
  let ?rs = "rev (take n integer_registers)"
  have typed: "length (ft_params ft) \<le> 6" "integer_typed (ft_params ft)"
    using assms(2,3) by (auto simp: integer_typed_def)
  from handle_call_code [OF assms(1) typed assms(4), of ic locals a] assms(2,5)
  have "emit ic (map POP ?rs @ call_code tb g @ map PUSH (take (length (ft_returns ft)) [RAX, RDX])) a = Ok a'"
    by simp
  from emit_Ok [OF this] have code: "\<exists>rest. instructions a' = instructions a @ map POP ?rs @ rest" by simp
  have regs: "\<forall>r \<in> set ?rs. is_r64 r \<and> r \<noteq> RSP \<and> r \<noteq> RBP"
    using integer_registers_plain by (auto dest: in_set_takeD)
  have len: "length ?rs = length (rev args)" using assms(3,10) by (simp add: integer_registers_def)
  from run_pops [OF assms(8) _ regs len assms(9), of env] obtain s' where s':
    "run env (map POP ?rs) s = Some s'" "represents f (st, ls) s'" "map (regs s') ?rs = rev args"
    using distinct_registers by auto
  then have "rev (map (regs s') (take n integer_registers)) = rev args" by (simp only: rev_map)
  then have args: "arguments n s' = args" by (simp add: arguments_def)
  let ?entry = "prologue (mov_rr_code ic') n"
  have entry: "\<exists>rest'. instructions b' = instructions b @ ?entry @ rest'"
    using compile_function_entry [OF assms(6,7)] entry_code_i64 [OF assms(3)] assms(2) by auto
  have lay: "layout_params checks (ft_params ft) = (Ok (param_offsets n, 8 * n) :: (compile_error, nat list \<times> nat) res)"
    using layout_i64 [of n] assms(2,3) by simp
  have "\<exists>t'. run env ?entry t = Some t'
      \<and> represents (leaf_frame (regs t RSP - 8) n 0) ([], rev args) t'"
    if "\<forall>r \<in> set integer_registers. regs t r = regs s' r" for t
  proof -
    have "regs t r = regs s' r" if "r \<in> set (take n integer_registers)" for r
      using that \<open>\<forall>r \<in> set integer_registers. regs t r = regs s' r\<close> by (meson in_set_takeD)
    then have "arguments n t = args" using args by (auto simp: arguments_def)
    with run_prologue [OF assms(3), of 0 "regs t RSP - 8" t env "mov_rr_code ic'" "{}"] show ?thesis by auto
  qed
  with code s' args entry lay show ?thesis by blast
qed

definition call_tables :: tables where
  "call_tables = \<lparr>got = [(0, 9)], ils = [], function_typedefs = [(0, binary_type)], function_types = [(0, 0)]\<rparr>"

theorem call_reverses_arguments_witness:
  "\<exists>h b' entry rest' s' t'.
     compile_function True accepting permissive no_tables binary_type add_function 0 empty_asm = Ok (h, b')
     \<and> instructions b' = instructions empty_asm @ entry @ rest' \<and> arguments 2 s' = [3, 1]
     \<and> run no_calls entry s' = Some t' \<and> represents (leaf_frame (regs s' RSP - 8) 2 0) ([], [1, 3]) t'"
proof -
  have ft: "function_type_of call_tables 0 = Some binary_type"
    by (simp add: function_type_of_def call_tables_def)
  have "\<exists>a'. handle_instruction accepting call_tables [] (Call 0) empty_asm = Ok a'"
    using call_outcome [of accepting call_tables "[]" 0 empty_asm] ft
    by (simp add: binary_type_def integer_typed_def del: handle_instruction.simps)
  then obtain a' where a': "handle_instruction accepting call_tables [] (Call 0) empty_asm = Ok a'" ..
  from add_function_compiles obtain h b' where
    b: "compile_function True accepting permissive no_tables binary_type add_function 0 empty_asm = Ok (h, b')" by blast
  have "fb_locals add_function = Inr []" "ft_params binary_type = replicate 2 I64" "integer_typed (ft_returns binary_type)"
    by (simp_all add: add_function_def binary_type_def replicate_2 integer_typed_def)
  with call_reverses_arguments [OF ft _ _ _ a' b _ sample_frame_ok(1), of 2 "[3, 1]" "[]" "[]" sub_state no_calls]
    sub_state_represents obtain entry rest' s' where
    "instructions b' = instructions empty_asm @ entry @ rest'" "arguments 2 s' = [3, 1]"
    "\<forall>t. (\<forall>r \<in> set integer_registers. regs t r = regs s' r) \<longrightarrow>
         (\<exists>t'. run no_calls entry t = Some t' \<and> represents (leaf_frame (regs t RSP - 8) 2 0) ([], rev [3, 1]) t')"
    by auto
  with b show ?thesis by fastforce
qed

text \<open>C35. The two results of a function come back exchanged: the epilogue pops the top of the
  callee's operand stack into \<open>rax\<close> and the one below into \<open>rdx\<close>; the caller pushes \<open>rax\<close>
  first, so the value that was on top ends up below.\<close>

theorem call_exchanges_results:
  assumes "pop_results ic [I64, I64] [RAX, RDX] a = Ok a'" and "push_results ic [I64, I64] [RAX, RDX] b = Ok b'"
    and "frame_ok f" and "represents f (upper # lower # st, ls) s"
    and "frame_ok g" and "length st' + 2 \<le> fr_height g"
  shows "\<exists>pops pushes s'. instructions a' = instructions a @ pops \<and> instructions b' = instructions b @ pushes
    \<and> run env pops s = Some s' \<and> regs s' RAX = upper \<and> regs s' RDX = lower
    \<and> (\<forall>t. represents g (st', ls') t \<and> regs t RAX = regs s' RAX \<and> regs t RDX = regs s' RDX \<longrightarrow>
        (\<exists>t'. run env pushes t = Some t' \<and> represents g (lower # upper # st', ls') t'))"
proof -
  have ints: "\<forall>t \<in> set [I64, I64]. is_int t" by (simp add: is_int_def)
  from assms(1,2) have code: "instructions a' = instructions a @ [POP RAX, POP RDX]"
    "instructions b' = instructions b @ [PUSH RAX, PUSH RDX]"
    using emit_Ok pop_results_registers [OF ints, of ic "[RAX, RDX]"]
      push_results_registers [OF ints, of ic "[RAX, RDX]"] by fastforce+
  from run_pops [OF assms(3), of "[RAX, RDX]" "[upper, lower]" st ls s env] assms(4) obtain s' where
    "run env [POP RAX, POP RDX] s = Some s'" "regs s' RAX = upper" "regs s' RDX = lower" by auto
  with code run_push_two [OF assms(5) _ assms(6), of ls' _ env] show ?thesis by metis
qed

definition caller_state :: x86 where
  "caller_state = set_reg RAX 1 (set_reg RDX 3 sample_state)"

lemma caller_state_represents: "represents sample_frame ([], []) caller_state"
  using sample_frame_ok(2) by (simp add: caller_state_def represents_set_reg)

theorem call_exchanges_results_witness:
  "\<exists>pops pushes s' t'. run no_calls pops sub_state = Some s' \<and> regs s' RAX = 1 \<and> regs s' RDX = 3
     \<and> run no_calls pushes caller_state = Some t' \<and> represents sample_frame ([3, 1], []) t'"
proof -
  have "\<exists>a'. pop_results accepting [I64, I64] [RAX, RDX] empty_asm = Ok a'"
    "\<exists>b'. push_results accepting [I64, I64] [RAX, RDX] empty_asm = Ok b'"
    by (simp_all add: pop_front_def add_instruction_def)
  then obtain a' b' where ok: "pop_results accepting [I64, I64] [RAX, RDX] empty_asm = Ok a'"
    "push_results accepting [I64, I64] [RAX, RDX] empty_asm = Ok b'" by blast
  have room: "length ([] :: u64 list) + 2 \<le> fr_height sample_frame" by (simp add: sample_frame_def)
  have "regs caller_state RAX = 1" "regs caller_state RDX = 3"
    by (simp_all add: caller_state_def machine_simps)
  with call_exchanges_results [OF ok sample_frame_ok(1) sub_state_represents sample_frame_ok(1) room,
      of no_calls "[]"] caller_state_represents
  show ?thesis by metis
qed

end
