(* ===== verification/Finish_Sound.thy ===== *)
theory Finish_Sound
  imports Index_Space Call_Sound
begin

text \<open>
  The end of \<open>compile\<close> (\<open>src/parawasm/src/x86_64/mod.rs\<close>, \<open>finish_module\<close>): the instruction list
  is optimised, the labels are bound and the entry points of the functions recorded. The
  lemmas follow one function through these steps: its optimised code stands, unbroken,
  right behind its label in the block that is encoded.
\<close>

section \<open>Optimising a list in parts\<close>

lemma normal_form_Nil [simp]: "normal_form [] = []"
  by (simp add: normal_form.simps)

lemma optimised_parts:
  assumes "ends_inert xs"
  shows "normal_form (xs @ ys) = normal_form xs @ normal_form ys"
    and "track (xs @ ys) (length xs) = length (normal_form xs)"
proof -
  consider "xs = []" | b zs where "xs = zs @ [b]" "inert b"
    using assms by (cases xs rule: rev_cases) (auto simp: ends_inert_def)
  then have "normal_form (xs @ ys) = normal_form xs @ normal_form ys
    \<and> track (xs @ ys) (length xs) = length (normal_form xs)"
  proof cases
    case 2
    from normal_form_inert [OF 2(2), of zs ys] normal_form_inert [OF 2(2), of zs "[]"]
      track_inert [OF 2(2), of zs ys 0] 2(1) show ?thesis by simp
  qed simp
  then show "normal_form (xs @ ys) = normal_form xs @ normal_form ys"
    "track (xs @ ys) (length xs) = length (normal_form xs)" by blast+
qed

lemma normal_form_nonempty: "i \<in> set xs \<Longrightarrow> inert i \<Longrightarrow> normal_form xs \<noteq> []"
  using keeps_inert.rel_normal_form [of xs] by (metis filter.simps(1) filter_empty_conv)

lemma normal_form_take_less:
  assumes "i < j" and "j \<le> length xs" and "ends_inert (take i xs)" and "ends_inert (take j xs)"
  shows "length (normal_form (take i xs)) < length (normal_form (take j xs))"
proof -
  let ?ys = "drop i (take j xs)"
  have split: "take j xs = take i xs @ ?ys"
    using append_take_drop_id [of i "take j xs"] assms(1) by (simp add: min_def)
  have ne: "?ys \<noteq> []" using assms(1,2) by simp
  then have "last ?ys = last (take j xs)" using split by (metis last_append)
  moreover have "inert (last (take j xs))" using assms(4) ne by (auto simp: ends_inert_def)
  ultimately have "normal_form ?ys \<noteq> []" using normal_form_nonempty [OF last_in_set [OF ne]] by simp
  moreover have "normal_form (take j xs) = normal_form (take i xs) @ normal_form ?ys"
    using optimised_parts(1) [OF assms(3)] split by metis
  ultimately show ?thesis by simp
qed

lemma track_take:
  assumes "i \<le> length xs" and "ends_inert (take i xs)"
  shows "track xs i = length (normal_form (take i xs))"
proof -
  have "length (take i xs) = i" using assms(1) by simp
  then show ?thesis using optimised_parts(2) [OF assms(2), of "drop i xs"] by simp
qed

section \<open>Binding\<close>

text \<open>The block that binding produces.\<close>

fun bound_lines :: "label_indices \<Rightarrow> nat \<Rightarrow> instr list \<Rightarrow> line list" where
  "bound_lines labels n [] = []"
| "bound_lines labels n (i # is) =
     (case find (\<lambda>(k, _). k = n) labels of None \<Rightarrow> [] | Some (_, l) \<Rightarrow> [(Some l, ZERO_BYTES)])
     @ (None, i) # bound_lines labels (Suc n) is"

lemma bound_lines_append:
  "bound_lines labels n (xs @ ys) = bound_lines labels n xs @ bound_lines labels (n + length xs) ys"
  by (induction xs arbitrary: n) auto

lemma bound_lines_plain:
  "\<forall>k \<in> fst ` set labels. k < n \<or> n + length xs \<le> k \<Longrightarrow> bound_lines labels n xs = map (Pair None) xs"
proof (induction xs arbitrary: n)
  case (Cons x xs)
  have "find (\<lambda>(k, _). k = n) labels = None" using Cons.prems by (force simp: find_None_iff)
  moreover have "\<forall>k \<in> fst ` set labels. k < Suc n \<or> Suc n + length xs \<le> k"
    using Cons.prems by fastforce
  ultimately show ?case using Cons.IH [of "Suc n"] by simp
qed simp

text \<open>One instruction: the label and the entry point, then the instruction itself.\<close>

lemma add_instruction_iff:
  "(add_instruction ic a i = Ok b) =
     (refuses ic i = None \<and> b = a\<lparr>asm_lines := asm_lines a @ [(asm_pending a, i)], asm_pending := None\<rparr>)"
  by (auto simp: add_instruction_def res_simps)

definition records :: "iced \<Rightarrow> (label \<times> nat) list \<Rightarrow> line list \<Rightarrow> label \<Rightarrow> wasm_module \<Rightarrow> wasm_module \<Rightarrow> bool" where
  "records ic bodies lines l m m' =
     (case find (\<lambda>(l', _). l' = l) bodies of
        None \<Rightarrow> m' = m
      | Some (_, k) \<Rightarrow> \<exists>ip. label_ip ic (lines @ [(Some l, ZERO_BYTES)]) l = Inr ip
          \<and> m' = m\<lparr>m_function_bodies := bt_insert k ip (m_function_bodies m)\<rparr>)"

lemma bind_label_Ok:
  assumes "bind_label ic bodies labels (a, m) (n, i) = Ok (a', m')" and "asm_pending a = None"
  shows "asm_lines a' = asm_lines a @ bound_lines labels n [i]" and "asm_pending a' = None"
    and "case find (\<lambda>(k, _). k = n) labels of None \<Rightarrow> m' = m
      | Some (_, l) \<Rightarrow> records ic bodies (asm_lines a) l m m'"
  using assms
  by (auto simp: bind_label_def res_simps set_label_def current_ip_def lift_iced_def records_def
      add_instruction_iff split: option.splits sum.splits)

definition other_fields ::
  "wasm_module \<Rightarrow> (nat, nat) btree \<times> (nat, nat) btree \<times> (string, nat) btree
     \<times> (nat, string \<times> string option \<times> nat) btree \<times> memory_type list" where
  "other_fields m = (m_functions m, m_function_stack_heights m, m_exports m, m_imports m, m_memories m)"

lemma records_other: "records ic bodies ls l m m' \<Longrightarrow> other_fields m' = other_fields m"
  by (auto simp: records_def other_fields_def split: option.splits)

lemma bind_all_lines:
  "foldM (bind_label ic bodies labels) (a, m) (enumerate n is) = Ok (a', m') \<Longrightarrow> asm_pending a = None \<Longrightarrow>
     asm_lines a' = asm_lines a @ bound_lines labels n is \<and> asm_pending a' = None
     \<and> other_fields m' = other_fields m"
proof (induction "is" arbitrary: n a m)
  case (Cons i "is")
  then obtain a1 m1 where one: "bind_label ic bodies labels (a, m) (n, i) = Ok (a1, m1)"
    and rest: "foldM (bind_label ic bodies labels) (a1, m1) (enumerate (Suc n) is) = Ok (a', m')"
    by (auto simp: res_simps)
  note b = bind_label_Ok [OF one Cons.prems(2)]
  have "other_fields m1 = other_fields m"
    using b(3) by (auto split: option.splits dest: records_other)
  with Cons.IH [OF rest b(2)] b(1) show ?case
    by (auto simp: bound_lines_append [of labels n "[i]", simplified])
qed simp

text \<open>An entry point is kept by the positions whose label belongs to another function or to none.\<close>

lemma bind_all_keeps:
  assumes "foldM (bind_label ic bodies labels) (a, m) (enumerate n is) = Ok (a', m')" and "asm_pending a = None"
    and "\<forall>(i, l) \<in> set labels. n \<le> i \<longrightarrow> (l, k) \<notin> set bodies"
  shows "bt_get (m_function_bodies m') k = bt_get (m_function_bodies m) k"
  using assms
proof (induction "is" arbitrary: n a m)
  case (Cons i "is")
  then obtain a1 m1 where one: "bind_label ic bodies labels (a, m) (n, i) = Ok (a1, m1)"
    and rest: "foldM (bind_label ic bodies labels) (a1, m1) (enumerate (Suc n) is) = Ok (a', m')"
    by (auto simp: res_simps)
  note b = bind_label_Ok [OF one Cons.prems(2)]
  have "bt_get (m_function_bodies m1) k = bt_get (m_function_bodies m) k"
  proof (cases "find (\<lambda>(k, _). k = n) labels")
    case None
    with b(3) show ?thesis by simp
  next
    case (Some x)
    then obtain l where x: "x = (n, l)" "(n, l) \<in> set labels" by (cases x) (auto dest: find_SomeD)
    with b(3) Some have rec: "records ic bodies (asm_lines a) l m m1" by simp
    have "(l, k) \<notin> set bodies" using Cons.prems(3) x(2) by fastforce
    then have "find (\<lambda>(l', _). l' = l) bodies = Some (l', k') \<Longrightarrow> k' \<noteq> k" for l' k'
      by (auto dest: find_SomeD)
    with rec show ?thesis by (auto simp: records_def bt_get_insert split: option.splits)
  qed
  moreover have "\<forall>(i, l) \<in> set labels. Suc n \<le> i \<longrightarrow> (l, k) \<notin> set bodies" using Cons.prems(3) by auto
  ultimately show ?case using Cons.IH [OF rest b(2)] by simp
qed simp

lemma bind_all_records:
  assumes "foldM (bind_label ic bodies labels) (a, m) (enumerate 0 (xs @ i # ys)) = Ok (a', m')"
    and "asm_pending a = None" and "find (\<lambda>(k, _). k = length xs) labels = Some (length xs, l)"
    and "find (\<lambda>(l', _). l' = l) bodies = Some (l, k)"
    and "\<forall>(i, l) \<in> set labels. length xs < i \<longrightarrow> (l, k) \<notin> set bodies"
  shows "\<exists>ip. label_ip ic (asm_lines a @ bound_lines labels 0 xs @ [(Some l, ZERO_BYTES)]) l = Inr ip
    \<and> bt_get (m_function_bodies m') k = Some ip"
proof -
  from assms(1) obtain a1 m1 a2 m2 where
    pre: "foldM (bind_label ic bodies labels) (a, m) (enumerate 0 xs) = Ok (a1, m1)"
    and one: "bind_label ic bodies labels (a1, m1) (length xs, i) = Ok (a2, m2)"
    and post: "foldM (bind_label ic bodies labels) (a2, m2) (enumerate (Suc (length xs)) ys) = Ok (a', m')"
    by (auto simp: enumerate_append_eq res_simps)
  note p = bind_all_lines [OF pre assms(2)]
  note b = bind_label_Ok [OF one p [THEN conjunct2, THEN conjunct1]]
  from b(3) assms(3,4) have "records ic bodies (asm_lines a1) l m1 m2" by simp
  then obtain ip where "label_ip ic (asm_lines a1 @ [(Some l, ZERO_BYTES)]) l = Inr ip"
    "bt_get (m_function_bodies m2) k = Some ip"
    by (auto simp: records_def assms(4) bt_get_insert)
  with p bind_all_keeps [OF post b(2), of k] assms(5) show ?thesis by (auto simp: Suc_le_eq)
qed

section \<open>One function through the end of \<open>compile\<close>\<close>

lemma indices_ok_placed: "labels_placed labels is \<Longrightarrow> length is < 2 ^ 63 \<Longrightarrow> indices_ok labels"
  by (fastforce simp: labels_placed_def indices_ok_def)

lemma lift_iced_Ok_iff: "(lift_iced x = Ok v) = (x = Inr v)"
  by (cases x) auto

lemma finish_module_Ok:
  assumes "finish_module ic cs = Ok am" and "indices_ok (c_label_indices cs)"
  shows "\<exists>a m. foldM (bind_label ic (c_function_bodies cs)
        (map (\<lambda>(i, l). (track (instructions (c_asm cs)) i, l)) (c_label_indices cs)))
        (a, c_module cs) (enumerate 0 (normal_form (instructions (c_asm cs))))
      = Ok (m, the_module am)
    \<and> asm_pending a = None \<and> asm_lines a = [] \<and> encode ic (asm_lines m) = Inr (binary am)"
proof -
  let ?a0 = "(c_asm cs)\<lparr>asm_lines := [], asm_pending := None\<rparr>"
  from assms(1) obtain opt labels a1 a2 m bytes where
    o: "optimize ic (instructions (c_asm cs)) (c_label_indices cs) = Ok (opt, labels)"
    and e: "emit ic opt ?a0 = Ok a1"
    and b: "foldM (bind_label ic (c_function_bodies cs) labels)
        (a1\<lparr>asm_lines := [], asm_pending := None\<rparr>, c_module cs) (enumerate 0 (instructions a1)) = Ok (a2, m)"
    and enc: "encode ic (asm_lines a2) = Inr bytes" and am: "am = assembled_from m bytes"
    by (auto simp: finish_module_def take_instructions_def res_simps lift_iced_Ok_iff)
  from optimize_Ok [OF o assms(2)] emit_Ok [OF e] have "instructions a1 = normal_form (instructions (c_asm cs))"
    "labels = map (\<lambda>(i, l). (track (instructions (c_asm cs)) i, l)) (c_label_indices cs)"
    by (auto simp: instructions_def)
  with b enc am show ?thesis
    by (intro exI [of _ "a1\<lparr>asm_lines := [], asm_pending := None\<rparr>"] exI [of _ a2])
      (simp add: assembled_from_def binary_def)
qed

lemma finish_keeps:
  assumes "finish_module ic cs = Ok am" and "indices_ok (c_label_indices cs)"
  shows "other_fields (the_module am) = other_fields (c_module cs)"
  using finish_module_Ok [OF assms] bind_all_lines by blast

text \<open>After optimising, the positions of the labels: the label of a function marks the start
  of its optimised code, and no other label falls into it.\<close>

lemma labels_after_optimising:
  assumes placed: "labels_placed labels (pre @ code @ rest)" and "ends_inert pre" and "ends_inert code"
    and gap: "\<forall>(i, l') \<in> set labels. i \<le> length pre \<or> length (pre @ code) \<le> i"
    and "(i, l) \<in> set labels"
  defines "all \<equiv> pre @ code @ rest"
  shows "i = length pre \<Longrightarrow> track all i = length (normal_form pre)"
    and "i < length pre \<Longrightarrow> track all i < length (normal_form pre)"
    and "length pre < i \<Longrightarrow> length (normal_form pre) + length (normal_form code) \<le> track all i"
proof -
  have i: "i \<le> length all" "ends_inert (take i all)"
    using placed assms(5) by (auto simp: labels_placed_def all_def)
  note t = track_take [OF i]
  show "i = length pre \<Longrightarrow> track all i = length (normal_form pre)"
    using t by (simp add: all_def)
  show "track all i < length (normal_form pre)" if "i < length pre"
    using normal_form_take_less [of i "length pre" all] that i(2) assms(2) t by (simp add: all_def)
  show "length (normal_form pre) + length (normal_form code) \<le> track all i" if "length pre < i"
  proof -
    have le: "length (pre @ code) \<le> i" using gap assms(5) that by auto
    have c: "ends_inert (pre @ code)" using assms(2,3) by (auto simp: ends_inert_def last_append)
    have "length (normal_form (pre @ code)) \<le> length (normal_form (take i all))"
    proof (cases "i = length (pre @ code)")
      case False
      with normal_form_take_less [of "length (pre @ code)" i all] le i c show ?thesis
        by (simp add: all_def)
    qed (simp add: all_def)
    with t optimised_parts(1) [OF assms(2), of code] show ?thesis by simp
  qed
qed

lemma bound_at_label:
  assumes "\<forall>(i, l') \<in> set labels. i = p \<longrightarrow> l' = l" and "(p, l) \<in> set labels"
    and "\<forall>(i, l') \<in> set labels. i \<le> p \<or> p + length xs \<le> i" and "xs \<noteq> []"
  shows "bound_lines labels p xs = (Some l, ZERO_BYTES) # map (Pair None) xs"
proof -
  from assms(4) obtain x ys where xs: "xs = x # ys" by (cases xs) auto
  have "find (\<lambda>(k, _). k = p) labels = Some (p, l)"
    using assms(1,2) by (intro find_key) auto
  moreover have "bound_lines labels (Suc p) ys = map (Pair None) ys"
    using assms(3) xs by (intro bound_lines_plain) fastforce
  ultimately show ?thesis by (simp add: xs)
qed

text \<open>Binding a list of which a part carries the label of function \<open>k\<close>.\<close>

lemma bind_part:
  assumes "foldM (bind_label ic bodies labels) (a, m) (enumerate 0 (xs @ c @ ys)) = Ok (a', m')"
    and "asm_pending a = None" "asm_lines a = []" and "c \<noteq> []"
    and at: "\<forall>(i, l') \<in> set labels. i = length xs \<longrightarrow> l' = l" "(length xs, l) \<in> set labels"
    and gap: "\<forall>(i, l') \<in> set labels. i \<le> length xs \<or> length xs + length c \<le> i"
    and body: "find (\<lambda>(l', _). l' = l) bodies = Some (l, k)"
    and other: "\<forall>(i, l') \<in> set labels. i \<noteq> length xs \<longrightarrow> (l', k) \<notin> set bodies"
  shows "\<exists>before after ip. asm_lines a' = before @ (Some l, ZERO_BYTES) # map (Pair None) c @ after
    \<and> label_ip ic (before @ [(Some l, ZERO_BYTES)]) l = Inr ip
    \<and> bt_get (m_function_bodies m') k = Some ip \<and> other_fields m' = other_fields m"
proof -
  from assms(4) obtain i c' where c: "c = i # c'" by (cases c) auto
  have here: "find (\<lambda>(k, _). k = length xs) labels = Some (length xs, l)"
    using at by (intro find_key) auto
  have later: "\<forall>(i, l') \<in> set labels. length xs < i \<longrightarrow> (l', k) \<notin> set bodies" using other by auto
  have "foldM (bind_label ic bodies labels) (a, m) (enumerate 0 (xs @ i # (c' @ ys))) = Ok (a', m')"
    using assms(1) c by simp
  from bind_all_records [OF this assms(2) here body later] assms(3) obtain ip where
    ip: "label_ip ic (bound_lines labels 0 xs @ [(Some l, ZERO_BYTES)]) l = Inr ip"
    "bt_get (m_function_bodies m') k = Some ip" by auto
  have "asm_lines a' = bound_lines labels 0 xs @ bound_lines labels (length xs) c
      @ bound_lines labels (length xs + length c) ys"
    using bind_all_lines [OF assms(1,2)] assms(3) by (simp add: bound_lines_append)
  also have "\<dots> = bound_lines labels 0 xs @ (Some l, ZERO_BYTES) # map (Pair None) c
      @ bound_lines labels (length xs + length c) ys"
    using bound_at_label [OF at gap assms(4)] by simp
  finally show ?thesis using ip bind_all_lines [OF assms(1,2)] by blast
qed

lemma placed_unique: "labels_placed labels is \<Longrightarrow> (i, l) \<in> set labels \<Longrightarrow> (i, l') \<in> set labels \<Longrightarrow> l' = l"
  unfolding labels_placed_def by (metis eq_key_imp_eq_value strict_sorted_iff)

lemma moved_labels:
  assumes placed: "labels_placed labels is" and "is": "is = pre @ code @ rest" and "ends_inert pre" "ends_inert code"
    and gap: "\<forall>(i, l') \<in> set labels. i \<le> length pre \<or> length (pre @ code) \<le> i"
    and l: "(length pre, l) \<in> set labels" and ne: "normal_form code \<noteq> []"
  defines "new \<equiv> map (\<lambda>(i, l). (track is i, l)) labels"
  shows "\<forall>(i, l') \<in> set new. i = length (normal_form pre) \<longrightarrow> l' = l"
    and "(length (normal_form pre), l) \<in> set new"
    and "\<forall>(i, l') \<in> set new. i \<le> length (normal_form pre) \<or> length (normal_form pre) + length (normal_form code) \<le> i"
    and "(i, l') \<in> set labels \<Longrightarrow> track is i \<noteq> length (normal_form pre) \<Longrightarrow> i \<noteq> length pre"
proof -
  let ?p = "normal_form pre"
  have pos: "i = length pre \<Longrightarrow> track is i = length ?p" "i < length pre \<Longrightarrow> track is i < length ?p"
    "length pre < i \<Longrightarrow> length ?p + length (normal_form code) \<le> track is i" if "(i, l') \<in> set labels" for i l'
    using labels_after_optimising [of labels pre code rest i l'] assms(1-5) that by simp_all
  have here: "i = length pre" if "(i, l') \<in> set labels" "track is i = length ?p" for i l'
    using pos(2,3) [OF that(1)] that(2) ne by (cases "i = length pre") (fastforce simp: neq_iff)+
  show "\<forall>(i, l') \<in> set new. i = length ?p \<longrightarrow> l' = l"
    using here placed_unique [OF placed l] by (fastforce simp: new_def)
  show "(length ?p, l) \<in> set new" using pos(1) [OF l] l by (force simp: new_def)
  show "\<forall>(i, l') \<in> set new. i \<le> length ?p \<or> length ?p + length (normal_form code) \<le> i"
    using pos by (fastforce simp: neq_iff new_def)
  show "(i, l') \<in> set labels \<Longrightarrow> track is i \<noteq> length ?p \<Longrightarrow> i \<noteq> length pre" using pos(1) by blast
qed

lemma finish_places_body:
  assumes inv: "compile_inv ic wp cs bodies" and fin: "finish_module ic cs = Ok am"
    and len: "length (instructions (c_asm cs)) < 2 ^ 63"
    and j: "j < length bodies" and lk: "c_function_bodies cs ! j = (l, k)"
  shows "\<exists>tb ft fv h a a' code lines before after ip.
    function_type_of (c_tables cs) k = Some ft \<and> compile_function True ic wp tb ft (bodies ! j) fv a = Ok (h, a')
    \<and> instructions a' = instructions a @ code
    \<and> encode ic lines = Inr (binary am)
    \<and> lines = before @ (Some l, ZERO_BYTES) # map (Pair None) (normal_form code) @ after
    \<and> label_ip ic (before @ [(Some l, ZERO_BYTES)]) l = Inr ip
    \<and> function_entry_point (the_module am) (ByIndex k) = Some ip
    \<and> function_stack_height (the_module am) (ByIndex k) = Some h
    \<and> types_kept tb (c_tables cs) \<and> total_tables tb \<and> bt_get (got (c_tables cs)) k = Some l"
proof -
  let ?labels = "c_label_indices cs" and ?is = "instructions (c_asm cs)"
  let ?new = "map (\<lambda>(i, l). (track ?is i, l)) ?labels"
  from inv have placed: "labels_placed ?labels ?is" and fresh: "labels_inv cs"
    and at: "compiled_at ic wp cs (bodies ! j) (l, k)" and len_j: "j < length (c_function_bodies cs)"
    using j lk by (auto simp: compile_inv_def code_inv_def list_all2_conv_all_nth)
  from at obtain pre code rest tb ft fv h a a' where body:
    "?is = pre @ (code @ [RET]) @ rest" "ends_inert pre" "(length pre, l) \<in> set ?labels"
    "\<forall>(i, l') \<in> set ?labels. i \<le> length pre \<or> length (pre @ code @ [RET]) \<le> i"
    "function_type_of (c_tables cs) k = Some ft" "compile_function True ic wp tb ft (bodies ! j) fv a = Ok (h, a')"
    "instructions a = pre" "instructions a' = pre @ code @ [RET]"
    "bt_get (m_function_stack_heights (c_module cs)) k = Some h" "types_kept tb (c_tables cs)" "total_tables tb"
    unfolding compiled_at_def by auto
  let ?c = "normal_form (code @ [RET])" and ?p = "normal_form pre"
  have nf: "normal_form ?is = ?p @ ?c @ normal_form rest" and ne: "?c \<noteq> []"
    using optimised_parts(1) [OF body(2), of "(code @ [RET]) @ rest"] optimised_parts(1) [of "code @ [RET]" rest]
      normal_form_nonempty [of RET "code @ [RET]"] body(1) by simp_all
  note moved = moved_labels [OF placed body(1,2) _ _ body(3) ne]
  have g: "bt_get (got (c_tables cs)) k = Some l" "(l, k) \<in> set (c_function_bodies cs)"
    using fresh_labelsD(7) [OF fresh [unfolded labels_inv_def]] lk len_j nth_mem by metis+
  from finish_module_Ok [OF fin indices_ok_placed [OF placed len]] obtain b m where
    bind: "foldM (bind_label ic (c_function_bodies cs) ?new) (b, c_module cs)
      (enumerate 0 (?p @ ?c @ normal_form rest)) = Ok (m, the_module am)"
    and b: "asm_pending b = None" "asm_lines b = []" and enc: "encode ic (asm_lines m) = Inr (binary am)"
    unfolding nf by blast
  have "\<exists>before after ip. asm_lines m = before @ (Some l, ZERO_BYTES) # map (Pair None) ?c @ after
    \<and> label_ip ic (before @ [(Some l, ZERO_BYTES)]) l = Inr ip
    \<and> bt_get (m_function_bodies (the_module am)) k = Some ip
    \<and> other_fields (the_module am) = other_fields (c_module cs)"
  proof (rule bind_part [OF bind b ne])
    show "\<forall>(i, l') \<in> set ?new. i = length ?p \<longrightarrow> l' = l" "(length ?p, l) \<in> set ?new"
      "\<forall>(i, l') \<in> set ?new. i \<le> length ?p \<or> length ?p + length ?c \<le> i"
      using moved(1-3) body(4) by simp_all
    show "find (\<lambda>(l', _). l' = l) (c_function_bodies cs) = Some (l, k)"
      using g(2) fresh_labelsD(6) [OF fresh [unfolded labels_inv_def]]
      by (intro find_key) (auto dest: eq_key_imp_eq_value)
    show "\<forall>(i, l') \<in> set ?new. i \<noteq> length ?p \<longrightarrow> (l', k) \<notin> set (c_function_bodies cs)"
    proof clarsimp
      fix i l'
      assume i: "(i, l') \<in> set ?labels" "track ?is i \<noteq> length ?p" "(l', k) \<in> set (c_function_bodies cs)"
      have "l' = l" using fresh_labelsD(7) [OF fresh [unfolded labels_inv_def] i(3)] g(1) by simp
      with i(1) body(3) fresh_labelsD(3) [OF fresh [unfolded labels_inv_def]] have "i = length pre"
        by (metis distinct_map inj_on_eq_iff prod.inject snd_conv)
      with moved(4) [OF _ _ i(1,2)] body(4) show False by simp
    qed
  qed
  then obtain before after ip where
    "asm_lines m = before @ (Some l, ZERO_BYTES) # map (Pair None) ?c @ after"
    "label_ip ic (before @ [(Some l, ZERO_BYTES)]) l = Inr ip"
    and entry: "bt_get (m_function_bodies (the_module am)) k = Some ip"
    and same: "other_fields (the_module am) = other_fields (c_module cs)" by blast
  moreover have "function_entry_point (the_module am) (ByIndex k) = Some ip"
    using entry by (simp add: function_entry_point_index)
  moreover have "function_stack_height (the_module am) (ByIndex k) = Some h"
    using entry same body(9)
    by (simp add: function_stack_height_def find_function_index_def other_fields_def)
  ultimately show ?thesis using body(5-8,10,11) g(1) enc by blast
qed

section \<open>Whole modules\<close>

text \<open>The encoded block contains the code behind label \<open>l\<close>, to which the assembler gives the
  address \<open>ip\<close>.\<close>

definition emitted_at :: "iced \<Rightarrow> assembled_module \<Rightarrow> label \<Rightarrow> instr list \<Rightarrow> nat \<Rightarrow> bool" where
  "emitted_at ic am l code ip = (\<exists>before after.
     encode ic (before @ (Some l, ZERO_BYTES) # map (Pair None) code @ after) = Inr (binary am)
     \<and> label_ip ic (before @ [(Some l, ZERO_BYTES)]) l = Inr ip)"

text \<open>No vector of the running compiler is as long as \<open>2 ^ 63\<close>.\<close>

definition fits :: "iced \<Rightarrow> ('p, 'v, 'f) wasmparser \<Rightarrow> payload list \<Rightarrow> bool" where
  "fits ic wp payloads = (\<forall>cs0 cs. initial_state ic wp = Ok cs0 \<longrightarrow>
     handle_all True ic wp cs0 payloads = Ok cs \<longrightarrow> length (instructions (c_asm cs)) < 2 ^ 63)"

lemma compile_delivered:
  assumes "delivers wp (new_parser wp) module False payloads" and "compile True ic wp module = Some (Ok am)"
  shows "\<exists>cs0 cs. initial_state ic wp = Ok cs0 \<and> handle_all True ic wp cs0 payloads = Ok cs
    \<and> finish_module ic cs = Ok am"
  using assms parse_loop_delivers [OF assms(1)]
  by (auto simp: compile_def res_simps split: res.splits)

text \<open>All bodies of a module. The tables are those of the finished compilation; a body may have been
  compiled with fewer entries.\<close>

lemma module_bodies:
  assumes "delivers wp (new_parser wp) module False payloads" and "compile True ic wp module = Some (Ok am)"
    and "fits ic wp payloads"
  shows "\<exists>cs0 cs tables. initial_state ic wp = Ok cs0 \<and> handle_all True ic wp cs0 payloads = Ok cs \<and> tables = c_tables cs
    \<and> m_imports (the_module am) = m_imports (c_module cs) \<and> dom (bt_get (m_imports (c_module cs))) = dom (bt_get (ils tables))
    \<and> (\<forall>k. function_type_of tables k = found_type payloads k) \<and> total_tables tables
    \<and> inj_on (bt_get (got tables)) (dom (bt_get (got tables)))
    \<and> (\<forall>j < length (code_bodies payloads). \<exists>tb ft fv h a a' code l ip.
         found_type payloads (body_indices 0 payloads ! j) = Some ft
         \<and> compile_function True ic wp tb ft (code_bodies payloads ! j) fv a = Ok (h, a')
         \<and> instructions a' = instructions a @ code \<and> emitted_at ic am l (normal_form code) ip
         \<and> function_entry_point (the_module am) (ByIndex (body_indices 0 payloads ! j)) = Some ip
         \<and> function_stack_height (the_module am) (ByIndex (body_indices 0 payloads ! j)) = Some h
         \<and> types_kept tb tables \<and> total_tables tb \<and> bt_get (got tables) (body_indices 0 payloads ! j) = Some l)"
proof -
  from compile_delivered [OF assms(1,2)] obtain cs0 cs where run: "initial_state ic wp = Ok cs0"
    "handle_all True ic wp cs0 payloads = Ok cs" "finish_module ic cs = Ok am" by blast
  have inv: "compile_inv ic wp cs (code_bodies payloads)"
    using handle_all_inv [OF run(2) initial_inv [OF run(1)]] by simp
  have init: "c_function_bodies cs0 = []" "c_function_body_index cs0 = 0"
    using run(1) by (auto simp: initial_state_def res_simps)
  have ks: "map snd (c_function_bodies cs) = body_indices 0 payloads"
    using handle_all_numbering [OF run(2)] init by simp
  have types: "function_type_of (c_tables cs) k = found_type payloads k" for k
    by (rule found_type_lookup [OF run(1,2)])
  have "\<exists>tb ft fv h a a' code l ip.
      found_type payloads (body_indices 0 payloads ! j) = Some ft
      \<and> compile_function True ic wp tb ft (code_bodies payloads ! j) fv a = Ok (h, a')
      \<and> instructions a' = instructions a @ code \<and> emitted_at ic am l (normal_form code) ip
      \<and> function_entry_point (the_module am) (ByIndex (body_indices 0 payloads ! j)) = Some ip
      \<and> function_stack_height (the_module am) (ByIndex (body_indices 0 payloads ! j)) = Some h
      \<and> types_kept tb (c_tables cs) \<and> total_tables tb \<and> bt_get (got (c_tables cs)) (body_indices 0 payloads ! j) = Some l"
    if j: "j < length (code_bodies payloads)" for j
  proof -
    from ks j have "j < length (c_function_bodies cs)"
      by (metis length_body_indices length_map)
    with ks obtain l where "c_function_bodies cs ! j = (l, body_indices 0 payloads ! j)"
      by (metis nth_map prod.collapse)
    from finish_places_body [OF inv run(3) _ j this] assms(3) run(1,2) show ?thesis
      unfolding emitted_at_def fits_def types by blast
  qed
  moreover have "total_tables (c_tables cs)" "inj_on (bt_get (got (c_tables cs))) (dom (bt_get (got (c_tables cs))))"
    using inv total_tables_inv fresh_labelsD(1) by (auto simp: compile_inv_def labels_inv_def)
  moreover have "indices_ok (c_label_indices cs)"
    using inv assms(3) run(1,2) by (intro indices_ok_placed [of _ "instructions (c_asm cs)"]) (simp_all add: compile_inv_def code_inv_def fits_def)
  then have "m_imports (the_module am) = m_imports (c_module cs)"
    using finish_keeps [OF run(3)] by (simp add: other_fields_def)
  moreover have "dom (bt_get (m_imports (c_module cs))) = dom (bt_get (ils (c_tables cs)))"
    using inv by (simp add: compile_inv_def tables_inv_def counted_def)
  ultimately show ?thesis using types run(1,2) by (intro exI [of _ cs0] exI [of _ cs] exI [of _ "c_tables cs"]) simp
qed

lemma module_body:
  assumes "delivers wp (new_parser wp) module False payloads" and "compile True ic wp module = Some (Ok am)"
    and "fits ic wp payloads" and "j < length (code_bodies payloads)"
  shows "\<exists>tb ft fv h a a' code l ip.
    found_type payloads (body_indices 0 payloads ! j) = Some ft
    \<and> compile_function True ic wp tb ft (code_bodies payloads ! j) fv a = Ok (h, a')
    \<and> instructions a' = instructions a @ code \<and> emitted_at ic am l (normal_form code) ip
    \<and> function_entry_point (the_module am) (ByIndex (body_indices 0 payloads ! j)) = Some ip
    \<and> function_stack_height (the_module am) (ByIndex (body_indices 0 payloads ! j)) = Some h"
  using module_bodies [OF assms(1-3)] assms(4) by (elim exE conjE) blast

end
