(* ===== verification/Import_Slots.thy ===== *)
theory Import_Slots
  imports Finish_Sound
begin

text \<open>
  Imported functions from \<open>compile\<close> to \<open>link_import\<close> (\<open>src/parawasm/src/x86_64/mod.rs\<close>). For each
  one the compiler emits a quadword with a placeholder and remembers its address; the
  code calls through that quadword, and linking overwrites it. The lemmas show that the
  remembered address is still right in the encoded module, although it was
  taken before the rest of the module was compiled, optimised and bound.

  What is used of the assembler package is \<open>places_data\<close>: declared quadwords are encoded in
  order, little-endian, without padding, and the address of a label in such data is the
  number of bytes before it.
\<close>

section \<open>Data in the block\<close>

fun data_instr :: "instr \<Rightarrow> bool" where
  "data_instr (DQ vs) = True"
| "data_instr ZERO_BYTES = True"
| "data_instr _ = False"

fun instr_data :: "instr \<Rightarrow> u8 list" where
  "instr_data (DQ vs) = concat (map le64 vs)"
| "instr_data _ = []"

definition data_bytes :: "instr list \<Rightarrow> u8 list" where
  "data_bytes is = concat (map instr_data is)"

definition places_data :: "iced \<Rightarrow> bool" where
  "places_data ic =
     ((\<forall>lines rest bytes. (\<forall>x \<in> set lines. data_instr (snd x)) \<longrightarrow>
         encode ic (lines @ rest) = Inr bytes \<longrightarrow>
         take (length (data_bytes (map snd lines))) bytes = data_bytes (map snd lines))
      \<and> (\<forall>lines l ip. (\<forall>x \<in> set lines. data_instr (snd x)) \<longrightarrow> Some l \<notin> fst ` set lines \<longrightarrow>
         label_ip ic (lines @ [(Some l, ZERO_BYTES)]) l = Inr ip \<longrightarrow>
         ip = length (data_bytes (map snd lines))))"

lemma places_dataD:
  "places_data ic \<Longrightarrow> \<forall>x \<in> set lines. data_instr (snd x) \<Longrightarrow> encode ic (lines @ rest) = Inr bytes \<Longrightarrow>
     take (length (data_bytes (map snd lines))) bytes = data_bytes (map snd lines)"
  unfolding places_data_def by blast

lemma data_bytes_append [simp]: "data_bytes (xs @ ys) = data_bytes xs @ data_bytes ys"
  by (simp add: data_bytes_def)

lemma data_bytes_simps [simp]:
  "data_bytes [] = []" "data_bytes (i # is) = instr_data i @ data_bytes is"
  by (simp_all add: data_bytes_def)

lemma data_inert: "data_instr i \<Longrightarrow> inert i"
  by (cases i) auto

lemma data_ends_inert: "\<forall>i \<in> set xs. data_instr i \<Longrightarrow> ends_inert xs"
  using data_inert last_in_set by (fastforce simp: ends_inert_def)

text \<open>Data is left alone by the optimiser; binding adds no bytes.\<close>

lemma normal_form_data: "\<forall>i \<in> set xs. data_instr i \<Longrightarrow> normal_form xs = xs"
proof (induction xs rule: rev_induct)
  case (snoc i xs)
  then have "normal_form (xs @ [i]) = normal_form xs @ normal_form [i]"
    by (intro optimised_parts(1) data_ends_inert) simp
  moreover have "\<not> mov_self i" using snoc.prems data_inert inert_no_redex by simp
  then have "normal_form [i] = [i]" by (simp add: normal_form.simps)
  ultimately show ?case using snoc by simp
qed simp

lemma bound_data:
  assumes "\<forall>i \<in> set xs. data_instr i"
  shows "\<forall>x \<in> set (bound_lines labels n xs). data_instr (snd x)"
    and "data_bytes (map snd (bound_lines labels n xs)) = data_bytes xs"
  using assms by (induction xs arbitrary: n) (auto split: option.splits)

section \<open>The invariant\<close>

text \<open>Every import has its slot: the remembered offset is the number of data bytes before its
  quadword, and the import's label is recorded for that quadword.\<close>

definition slot_at :: "'v cstate \<Rightarrow> nat \<Rightarrow> nat \<Rightarrow> bool" where
  "slot_at cs k off = (\<exists>pre l rest. instructions (c_asm cs) = pre @ DQ [import_placeholder] # rest
     \<and> (\<forall>i \<in> set pre. data_instr i) \<and> off = length (data_bytes pre)
     \<and> bt_get (ils (c_tables cs)) k = Some l \<and> (length pre, l) \<in> set (c_label_indices cs))"

definition slots_inv :: "'v cstate \<Rightarrow> bool" where
  "slots_inv cs = (\<forall>k md fld off. bt_get (m_imports (c_module cs)) k = Some (md, fld, off) \<longrightarrow> slot_at cs k off)"

text \<open>Before the first function body there is only data, and labels on it are old.\<close>

definition only_data :: "'v cstate \<Rightarrow> bool" where
  "only_data cs = (asm_pending (c_asm cs) = None \<and> (\<forall>x \<in> set (asm_lines (c_asm cs)). data_instr (snd x))
     \<and> (\<forall>l i. (Some l, i) \<in> set (asm_lines (c_asm cs)) \<longrightarrow> l < asm_next (c_asm cs)))"

lemma slot_at_grows:
  assumes "slot_at cs k off" and "instructions (c_asm cs') = instructions (c_asm cs) @ xs"
    and "bt_get (ils (c_tables cs')) k = bt_get (ils (c_tables cs)) k"
    and "set (c_label_indices cs) \<subseteq> set (c_label_indices cs')"
  shows "slot_at cs' k off"
proof -
  from assms(1) obtain pre l rest where "instructions (c_asm cs) = pre @ DQ [import_placeholder] # rest"
    "\<forall>i \<in> set pre. data_instr i" "off = length (data_bytes pre)" "bt_get (ils (c_tables cs)) k = Some l"
    "(length pre, l) \<in> set (c_label_indices cs)" unfolding slot_at_def by blast
  with assms(2-4) show ?thesis
    unfolding slot_at_def by (intro exI [of _ pre] exI [of _ l] exI [of _ "rest @ xs"]) auto
qed

lemma slots_inv_grows:
  assumes "slots_inv cs" and "instructions (c_asm cs') = instructions (c_asm cs) @ xs"
    and "ils (c_tables cs') = ils (c_tables cs)" and "set (c_label_indices cs) \<subseteq> set (c_label_indices cs')"
    and "m_imports (c_module cs') = m_imports (c_module cs)"
  shows "slots_inv cs'"
  using assms slot_at_grows [of cs _ _ cs' xs] unfolding slots_inv_def by auto

lemma on_function_slots:
  assumes "slots_inv cs" and "on_function True ic cs t = Ok cs'"
  shows "slots_inv cs'"
  using on_function_Ok [OF assms(2)] by (auto intro!: slots_inv_grows [OF assms(1)])

lemma on_code_slots:
  assumes "slots_inv cs" and "on_code True ic wp body cs = Ok cs'"
  shows "slots_inv cs'"
  using on_code_Ok [OF assms(2)] by (auto intro!: slots_inv_grows [OF assms(1)])

lemma only_data_grows:
  assumes "only_data cs" and "asm_pending (c_asm cs') = None"
    and "asm_lines (c_asm cs') = asm_lines (c_asm cs) @ new" and "\<forall>x \<in> set new. data_instr (snd x)"
    and "\<forall>l i. (Some l, i) \<in> set new \<longrightarrow> l < asm_next (c_asm cs')" and "asm_next (c_asm cs) \<le> asm_next (c_asm cs')"
  shows "only_data cs'"
  using assms unfolding only_data_def by (auto intro: order_less_le_trans)

lemma on_function_only_data:
  assumes "only_data cs" and "on_function True ic cs t = Ok cs'"
  shows "only_data cs'"
proof (rule only_data_grows [OF assms(1)])
  have "asm_lines (c_asm cs') = asm_lines (c_asm cs) @ [(None, DQ [0])] \<and> asm_pending (c_asm cs') = None
      \<and> asm_next (c_asm cs) \<le> asm_next (c_asm cs')"
    using assms by (cases t)
      (auto simp: on_function_def create_label_def Let_def res_simps only_data_def add_instruction_iff)
  then show "asm_lines (c_asm cs') = asm_lines (c_asm cs) @ [(None, DQ [0])]" "asm_pending (c_asm cs') = None"
    "asm_next (c_asm cs) \<le> asm_next (c_asm cs')" by blast+
qed simp_all

lemma on_import_only_data:
  assumes "only_data cs" and "on_import True ic cs i = Ok cs'"
  shows "only_data cs'"
proof -
  let ?n = "asm_next (c_asm cs)"
  obtain import where "i = Inr import" using assms(2) by (cases i) (auto simp: on_import_def)
  then have "\<exists>new. asm_lines (c_asm cs') = asm_lines (c_asm cs) @ (Some ?n, ZERO_BYTES) # new
      \<and> set new \<subseteq> {(None, DQ [import_placeholder])} \<and> asm_pending (c_asm cs') = None \<and> Suc ?n \<le> asm_next (c_asm cs')"
    using assms by (cases "im_ty import")
      (auto simp: on_import_def create_label_def Let_def res_simps set_label_def add_instruction_iff only_data_def)
  then show ?thesis by (force intro: only_data_grows [OF assms(1)])
qed

lemma only_data_instructions: "only_data cs \<Longrightarrow> \<forall>i \<in> set (instructions (c_asm cs)). data_instr i"
  by (auto simp: only_data_def instructions_def)

lemma on_import_address:
  assumes "on_import True ic cs (Inr import) = Ok cs'"
  shows "\<exists>off. label_ip ic (asm_lines (c_asm cs) @ [(Some (asm_next (c_asm cs)), ZERO_BYTES)]) (asm_next (c_asm cs)) = Inr off
    \<and> c_module cs' = (case im_ty import of Import_Other \<Rightarrow> c_module cs
       | Import_Function t \<Rightarrow> (c_module cs)\<lparr>m_imports :=
           bt_insert (c_function_index cs) (im_module import, im_field import, off) (m_imports (c_module cs))\<rparr>)"
  using assms
  by (cases "im_ty import") (auto simp: on_import_def create_label_def Let_def res_simps set_label_def
      add_instruction_iff current_ip_def lift_iced_Ok_iff)

text \<open>The address taken for an import is where its quadword goes.\<close>

lemma on_import_slots:
  assumes data: "only_data cs" and slots: "slots_inv cs" and tabs: "tables_inv cs" and ic: "places_data ic"
    and ok: "on_import True ic cs i = Ok cs'"
  shows "only_data cs' \<and> slots_inv cs'"
proof -
  let ?n = "asm_next (c_asm cs)" and ?is = "instructions (c_asm cs)" and ?k = "c_function_index cs"
  let ?lines = "asm_lines (c_asm cs)"
  obtain import where i: "i = Inr import" using ok by (cases i) (auto simp: on_import_def)
  from on_import_address [OF ok [unfolded i]] obtain off where
    off: "label_ip ic (?lines @ [(Some ?n, ZERO_BYTES)]) ?n = Inr off"
    and mods: "c_module cs' = (case im_ty import of Import_Other \<Rightarrow> c_module cs
       | Import_Function t \<Rightarrow> (c_module cs)\<lparr>m_imports :=
           bt_insert ?k (im_module import, im_field import, off) (m_imports (c_module cs))\<rparr>)" by blast
  have "Some ?n \<notin> fst ` set ?lines" using data by (fastforce simp: only_data_def)
  with ic data off have off_eq: "off = length (data_bytes ?is)"
    unfolding places_data_def only_data_def instructions_def by blast
  have data': "only_data cs'" by (rule on_import_only_data [OF data ok])
  from on_import_Ok [OF ok] consider
      (other) xs where "instructions (c_asm cs') = ?is @ xs" "c_tables cs' = c_tables cs"
        "c_label_indices cs' = c_label_indices cs" "c_module cs' = c_module cs"
    | (func) l where "instructions (c_asm cs') = ?is @ [ZERO_BYTES, DQ [import_placeholder]]"
        "ils (c_tables cs') = bt_insert ?k l (ils (c_tables cs))"
        "c_label_indices cs' = c_label_indices cs @ [(Suc (length ?is), l)]"
        "\<exists>entry. m_imports (c_module cs') = bt_insert ?k entry (m_imports (c_module cs))"
    by fastforce
  then show ?thesis
  proof cases
    case other
    then have "slots_inv cs'" by (intro slots_inv_grows [OF slots]) auto
    with data' show ?thesis by blast
  next
    case func
    have "slot_at cs' k o'" if "bt_get (m_imports (c_module cs')) k = Some (md, fld, o')" for k md fld o'
    proof (cases "k = ?k")
      case True
      have "o' = off"
      proof (cases "im_ty import")
        case (Import_Function t)
        with mods that True show ?thesis by (simp add: bt_get_insert)
      next
        case Import_Other
        with mods that True tabs have "?k \<in> dom (bt_get (m_imports (c_module cs)))" by auto
        with tabs show ?thesis by (auto simp: tables_inv_def counted_def simp del: domIff)
      qed
      with func True off_eq only_data_instructions [OF data] show ?thesis
        unfolding slot_at_def
        by (intro exI [of _ "?is @ [ZERO_BYTES]"] exI [of _ l] exI [of _ "[]"]) (auto simp: bt_get_insert)
    next
      case False
      with that func(4) have "bt_get (m_imports (c_module cs)) k = Some (md, fld, o')"
        by (auto simp: bt_get_insert)
      with slots have "slot_at cs k o'" by (auto simp: slots_inv_def)
      from slot_at_grows [OF this func(1)] func(2,3) False show ?thesis by (auto simp: bt_get_insert)
    qed
    with data' show ?thesis by (auto simp: slots_inv_def)
  qed
qed

section \<open>Two phases\<close>

text \<open>The variables the invariants are about are untouched by the other handlers.\<close>

definition same_slots :: "'v cstate \<Rightarrow> 'v cstate \<Rightarrow> bool" where
  "same_slots cs cs' = (c_asm cs' = c_asm cs \<and> ils (c_tables cs') = ils (c_tables cs)
     \<and> c_label_indices cs' = c_label_indices cs \<and> m_imports (c_module cs') = m_imports (c_module cs))"

lemma same_slotsD:
  "same_slots cs cs' \<Longrightarrow> only_data cs \<Longrightarrow> only_data cs'"
  "same_slots cs cs' \<Longrightarrow> slots_inv cs \<Longrightarrow> slots_inv cs'"
  by (simp_all add: same_slots_def only_data_def slots_inv_def slot_at_def)

lemma same_slots_handlers:
  "validate wp p cs = Ok cs' \<Longrightarrow> same_slots cs cs'"
  "on_memory cs m = Ok cs' \<Longrightarrow> same_slots cs cs'"
  "on_export cs e = Ok cs' \<Longrightarrow> same_slots cs cs'"
  by (auto simp: same_slots_def validate_def on_memory_def on_export_def res_simps)

lemma same_slots_type:
  assumes "on_type checks cs t = Ok cs'"
  shows "same_slots cs cs'"
proof -
  from assms obtain d where "lift_reader t = Ok d" by (auto simp: on_type_def res_simps)
  with assms show ?thesis by (cases d) (auto simp: on_type_def res_simps same_slots_def)
qed

definition import_phase :: "iced \<Rightarrow> ('p, 'v, 'f) wasmparser \<Rightarrow> 'v cstate \<Rightarrow> bool" where
  "import_phase ic wp cs = (compile_inv ic wp cs [] \<and> only_data cs \<and> slots_inv cs)"

lemma import_phase_same:
  "import_phase ic wp cs \<Longrightarrow> same_slots cs cs' \<Longrightarrow> compile_inv ic wp cs' [] \<Longrightarrow> import_phase ic wp cs'"
  using same_slotsD by (auto simp: import_phase_def)

lemma import_phase_items:
  assumes "import_phase ic wp cs"
  shows "validate wp p cs = Ok cs' \<Longrightarrow> import_phase ic wp cs'"
    and "on_memory cs m = Ok cs' \<Longrightarrow> import_phase ic wp cs'"
    and "on_export cs e = Ok cs' \<Longrightarrow> import_phase ic wp cs'"
    and "on_type True cs t = Ok cs' \<Longrightarrow> import_phase ic wp cs'"
    and "on_function True ic cs f = Ok cs' \<Longrightarrow> import_phase ic wp cs'"
    and "places_data ic \<Longrightarrow> on_import True ic cs i = Ok cs' \<Longrightarrow> import_phase ic wp cs'"
proof -
  from assms have inv: "compile_inv ic wp cs []" "only_data cs" "slots_inv cs" "tables_inv cs"
    by (simp_all add: import_phase_def compile_inv_def)
  show "validate wp p cs = Ok cs' \<Longrightarrow> import_phase ic wp cs'"
    by (rule import_phase_same [OF assms same_slots_handlers(1) compile_inv_validate [OF inv(1)]])
  show "on_memory cs m = Ok cs' \<Longrightarrow> import_phase ic wp cs'"
    by (rule import_phase_same [OF assms same_slots_handlers(2) compile_inv_memory [OF inv(1)]])
  show "on_export cs e = Ok cs' \<Longrightarrow> import_phase ic wp cs'"
    by (rule import_phase_same [OF assms same_slots_handlers(3) compile_inv_export [OF inv(1)]])
  show "on_type True cs t = Ok cs' \<Longrightarrow> import_phase ic wp cs'"
    by (rule import_phase_same [OF assms same_slots_type compile_inv_type [OF inv(1)]])
  show "on_function True ic cs f = Ok cs' \<Longrightarrow> import_phase ic wp cs'"
    using compile_inv_function [OF inv(1)] on_function_only_data [OF inv(2)] on_function_slots [OF inv(3)]
    by (simp add: import_phase_def)
  show "places_data ic \<Longrightarrow> on_import True ic cs i = Ok cs' \<Longrightarrow> import_phase ic wp cs'"
    using compile_inv_import [OF inv(1)] on_import_slots [OF inv(2-4)] by (simp add: import_phase_def)
qed

lemma validated_loop:
  assumes "and_then (validate wp p cs) (\<lambda>cs. foldM f cs xs) = Ok cs'" and "P cs"
    and "\<And>cs1. validate wp p cs = Ok cs1 \<Longrightarrow> P cs1"
    and "\<And>cs x cs'. P cs \<Longrightarrow> f cs x = Ok cs' \<Longrightarrow> P cs'"
  shows "P cs'"
proof -
  from assms(1) obtain cs1 where "validate wp p cs = Ok cs1" "foldM f cs1 xs = Ok cs'" by (auto simp: res_simps)
  with assms(3,4) show ?thesis using foldM_invariant [of f cs1 xs cs' P] by blast
qed

lemma import_phase_step:
  assumes "handle_payload True ic wp p cs = Ok cs'" and ph: "import_phase ic wp cs" and "code_bodies [p] = []"
    and ic: "places_data ic"
  shows "import_phase ic wp cs'"
proof (cases p)
  case (P_MemorySection xs)
  show ?thesis
    by (rule validated_loop [where P = "import_phase ic wp" and p = p and f = on_memory and xs = xs])
      (use assms(1) ph P_MemorySection import_phase_items in auto)
next
  case (P_TypeSection xs)
  show ?thesis
    by (rule validated_loop [where P = "import_phase ic wp" and p = p and f = "on_type True" and xs = xs])
      (use assms(1) ph P_TypeSection import_phase_items in auto)
next
  case (P_ImportSection xs)
  show ?thesis
    by (rule validated_loop [where P = "import_phase ic wp" and p = p and f = "on_import True ic" and xs = xs])
      (use assms(1) ph ic P_ImportSection import_phase_items in auto)
next
  case (P_FunctionSection xs)
  show ?thesis
    by (rule validated_loop [where P = "import_phase ic wp" and p = p and f = "on_function True ic" and xs = xs])
      (use assms(1) ph P_FunctionSection import_phase_items in auto)
next
  case (P_ExportSection xs)
  show ?thesis
    by (rule validated_loop [where P = "import_phase ic wp" and p = p and f = on_export and xs = xs])
      (use assms(1) ph P_ExportSection import_phase_items in auto)
next
  case P_ModuleSectionEntry
  have "compile_inv ic wp cs' []"
    using handle_payload_inv [OF assms(1), of "[]"] ph assms(3) by (simp add: import_phase_def)
  moreover have "same_slots cs cs'" using assms(1) P_ModuleSectionEntry by (auto simp: same_slots_def)
  ultimately show ?thesis using import_phase_same [OF ph] by blast
qed (use assms import_phase_items(1) [OF ph] in simp_all)

fun is_import_section :: "payload \<Rightarrow> bool" where
  "is_import_section (P_ImportSection xs) = True"
| "is_import_section _ = False"

lemma slots_items:
  "slots_inv cs \<Longrightarrow> validate wp p cs = Ok cs' \<Longrightarrow> slots_inv cs'"
  "slots_inv cs \<Longrightarrow> on_memory cs m = Ok cs' \<Longrightarrow> slots_inv cs'"
  "slots_inv cs \<Longrightarrow> on_export cs e = Ok cs' \<Longrightarrow> slots_inv cs'"
  "slots_inv cs \<Longrightarrow> on_type True cs t = Ok cs' \<Longrightarrow> slots_inv cs'"
  by (blast intro: same_slotsD(2) same_slots_handlers same_slots_type)+

lemma code_phase_step:
  assumes "handle_payload True ic wp p cs = Ok cs'" and slots: "slots_inv cs" and "\<not> is_import_section p"
  shows "slots_inv cs'"
proof (cases p)
  case (P_MemorySection xs)
  show ?thesis
    by (rule validated_loop [where P = slots_inv and p = p and f = on_memory and xs = xs])
      (use assms(1) slots P_MemorySection slots_items in auto)
next
  case (P_TypeSection xs)
  show ?thesis
    by (rule validated_loop [where P = slots_inv and p = p and f = "on_type True" and xs = xs])
      (use assms(1) slots P_TypeSection slots_items in auto)
next
  case (P_FunctionSection xs)
  show ?thesis
    by (rule validated_loop [where P = slots_inv and p = p and f = "on_function True ic" and xs = xs])
      (use assms(1) slots P_FunctionSection slots_items on_function_slots in auto)
next
  case (P_ExportSection xs)
  show ?thesis
    by (rule validated_loop [where P = slots_inv and p = p and f = on_export and xs = xs])
      (use assms(1) slots P_ExportSection slots_items in auto)
next
  case (P_CodeSectionEntry body)
  with assms on_code_slots show ?thesis by auto
next
  case P_ModuleSectionEntry
  with assms show ?thesis by (auto intro!: same_slotsD(2) [OF _ slots] simp: same_slots_def)
qed (use assms slots_items(1) [OF slots] in simp_all)

text \<open>All imports come before the first function body, as the binary format has it.\<close>

definition imports_first :: "payload list \<Rightarrow> bool" where
  "imports_first ps = (\<exists>ps1 ps2. ps = ps1 @ ps2 \<and> code_bodies ps1 = [] \<and> (\<forall>p \<in> set ps2. \<not> is_import_section p))"

lemma code_bodies_Cons_Nil: "code_bodies (p # ps) = [] \<Longrightarrow> code_bodies [p] = [] \<and> code_bodies ps = []"
  by (cases p) auto

lemma import_phase_all:
  "handle_all True ic wp cs ps = Ok cs' \<Longrightarrow> import_phase ic wp cs \<Longrightarrow> code_bodies ps = [] \<Longrightarrow>
     places_data ic \<Longrightarrow> import_phase ic wp cs'"
proof (induction ps arbitrary: cs)
  case (Cons p ps)
  then obtain cs1 where "handle_payload True ic wp p cs = Ok cs1" "handle_all True ic wp cs1 ps = Ok cs'"
    by (auto simp: res_simps)
  with Cons.IH Cons.prems import_phase_step code_bodies_Cons_Nil [OF Cons.prems(3)] show ?case by blast
qed simp

lemma code_phase_all:
  "handle_all True ic wp cs ps = Ok cs' \<Longrightarrow> slots_inv cs \<Longrightarrow> \<forall>p \<in> set ps. \<not> is_import_section p \<Longrightarrow> slots_inv cs'"
proof (induction ps arbitrary: cs)
  case (Cons p ps)
  then obtain cs1 where "handle_payload True ic wp p cs = Ok cs1" "handle_all True ic wp cs1 ps = Ok cs'"
    by (auto simp: res_simps)
  with Cons.IH Cons.prems code_phase_step show ?case by fastforce
qed simp

lemma handle_all_append:
  "handle_all checks ic wp cs (xs @ ys) = and_then (handle_all checks ic wp cs xs) (\<lambda>cs'. handle_all checks ic wp cs' ys)"
  by (simp add: handle_all_def)

lemma imports_have_slots:
  assumes "initial_state ic wp = Ok cs0" and "handle_all True ic wp cs0 ps = Ok cs"
    and "imports_first ps" and "places_data ic"
  shows "slots_inv cs"
proof -
  from assms(3) obtain ps1 ps2 where ps: "ps = ps1 @ ps2" "code_bodies ps1 = []"
    "\<forall>p \<in> set ps2. \<not> is_import_section p" unfolding imports_first_def by blast
  with assms(2) obtain cs1 where run: "handle_all True ic wp cs0 ps1 = Ok cs1" "handle_all True ic wp cs1 ps2 = Ok cs"
    by (auto simp: handle_all_append res_simps)
  have "only_data cs0" "slots_inv cs0"
    using assms(1) by (auto simp: initial_state_def new_asm_def new_module_def only_data_def slots_inv_def res_simps)
  with initial_inv [OF assms(1)] have "import_phase ic wp cs0" by (simp add: import_phase_def)
  from import_phase_all [OF run(1) this ps(2) assms(4)] have "slots_inv cs1" by (simp add: import_phase_def)
  from code_phase_all [OF run(2) this ps(3)] show ?thesis .
qed

section \<open>Through optimising, binding and encoding\<close>

text \<open>The block has the quadword of the import right behind label \<open>l\<close>, with \<open>off\<close> bytes of
  data before it and nothing else.\<close>

definition slot_block :: "iced \<Rightarrow> assembled_module \<Rightarrow> label \<Rightarrow> nat \<Rightarrow> bool" where
  "slot_block ic am l off = (\<exists>before after.
     encode ic (before @ (Some l, ZERO_BYTES) # (None, DQ [import_placeholder]) # after) = Inr (binary am)
     \<and> (\<forall>x \<in> set before. data_instr (snd x)) \<and> length (data_bytes (map snd before)) = off)"

lemma slot_block_bytes:
  assumes "slot_block ic am l off" and ic: "places_data ic"
  shows "off + 8 \<le> length (binary am) \<and> take 8 (drop off (binary am)) = le64 import_placeholder"
proof -
  from assms(1) obtain before after where
    enc: "encode ic ((before @ [(Some l, ZERO_BYTES), (None, DQ [import_placeholder])]) @ after) = Inr (binary am)"
    and b: "\<forall>x \<in> set before. data_instr (snd x)" "length (data_bytes (map snd before)) = off"
    unfolding slot_block_def by auto
  from places_dataD [OF ic _ enc] b
  have bytes: "take (off + 8) (binary am) = data_bytes (map snd before) @ le64 import_placeholder" by auto
  have "length (take (off + 8) (binary am)) = off + 8" unfolding bytes by (simp add: b(2))
  then have "off + 8 \<le> length (binary am)" by simp
  moreover have "take 8 (drop off (binary am)) = drop off (take (off + 8) (binary am))"
    by (simp add: drop_take)
  ultimately show ?thesis by (simp add: bytes b(2))
qed

lemma slot_in_block:
  assumes fin: "finish_module ic cs = Ok am" and placed: "labels_placed (c_label_indices cs) (instructions (c_asm cs))"
    and "length (instructions (c_asm cs)) < 2 ^ 63" and "slot_at cs k off"
  shows "\<exists>l. bt_get (ils (c_tables cs)) k = Some l \<and> slot_block ic am l off"
proof -
  let ?is = "instructions (c_asm cs)" and ?c = "[DQ [import_placeholder]]"
  let ?new = "map (\<lambda>(i, l). (track ?is i, l)) (c_label_indices cs)"
  from assms(4) obtain pre l rest where slot: "?is = pre @ ?c @ rest" "\<forall>i \<in> set pre. data_instr i"
    "off = length (data_bytes pre)" "bt_get (ils (c_tables cs)) k = Some l"
    "(length pre, l) \<in> set (c_label_indices cs)" unfolding slot_at_def by auto
  note pre = data_ends_inert [OF slot(2)] normal_form_data [OF slot(2)]
  have c: "ends_inert ?c" "normal_form ?c = ?c" by (simp_all add: ends_inert_def normal_form_data)
  then have nf: "normal_form ?is = pre @ ?c @ normal_form rest"
    using pre by (simp add: slot(1) optimised_parts(1) del: append_Cons)
  from finish_module_Ok [OF fin indices_ok_placed [OF placed assms(3)]] obtain a m where
    bind: "foldM (bind_label ic (c_function_bodies cs) ?new) (a, c_module cs) (enumerate 0 (pre @ ?c @ normal_form rest))
      = Ok (m, the_module am)" "asm_pending a = None" "asm_lines a = []"
    and enc: "encode ic (asm_lines m) = Inr (binary am)" unfolding nf by blast
  have "\<forall>(i, l') \<in> set (c_label_indices cs). i \<le> length pre \<or> length (pre @ ?c) \<le> i" by auto
  from moved_labels(1-3) [OF placed slot(1) pre(1) c(1) this slot(5)]
  have "bound_lines ?new (length pre) ?c = (Some l, ZERO_BYTES) # map (Pair None) ?c"
    using c(2) pre(2) by (intro bound_at_label) simp_all
  then have "asm_lines m = bound_lines ?new 0 pre @ (Some l, ZERO_BYTES) # (None, DQ [import_placeholder])
      # bound_lines ?new (Suc (length pre)) (normal_form rest)"
    using bind_all_lines [OF bind(1,2)] bind(3) by (simp add: bound_lines_append del: bound_lines.simps append_Cons)
  with enc slot(3,4) bound_data [OF slot(2), of ?new 0] show ?thesis
    unfolding slot_block_def by auto
qed

lemma module_import:
  assumes "delivers wp (new_parser wp) module False payloads" and "compile True ic wp module = Some (Ok am)"
    and "fits ic wp payloads" and "imports_first payloads" and "places_data ic"
    and "bt_get (m_imports (the_module am)) k = Some (md, fld, off)"
  shows "bt_inv (m_imports (the_module am)) \<and> off + 8 \<le> length (binary am)
    \<and> take 8 (drop off (binary am)) = le64 import_placeholder
    \<and> (\<exists>l cs0 cs. initial_state ic wp = Ok cs0 \<and> handle_all True ic wp cs0 payloads = Ok cs
         \<and> bt_get (ils (c_tables cs)) k = Some l \<and> slot_block ic am l off)"
proof -
  from compile_delivered [OF assms(1,2)] obtain cs0 cs where run: "initial_state ic wp = Ok cs0"
    "handle_all True ic wp cs0 payloads = Ok cs" "finish_module ic cs = Ok am" by blast
  have inv: "compile_inv ic wp cs (code_bodies payloads)"
    using handle_all_inv [OF run(2) initial_inv [OF run(1)]] by simp
  then have placed: "labels_placed (c_label_indices cs) (instructions (c_asm cs))"
    and sorted: "bt_inv (m_imports (c_module cs))"
    by (simp_all add: compile_inv_def code_inv_def tables_inv_def)
  have len: "length (instructions (c_asm cs)) < 2 ^ 63" using assms(3) run(1,2) by (simp add: fits_def)
  from finish_keeps [OF run(3) indices_ok_placed [OF placed len]]
  have same: "m_imports (the_module am) = m_imports (c_module cs)" by (simp add: other_fields_def)
  with imports_have_slots [OF run(1,2) assms(4,5)] assms(6) have "slot_at cs k off"
    by (auto simp: slots_inv_def)
  from slot_in_block [OF run(3) placed len this] obtain l where
    l: "bt_get (ils (c_tables cs)) k = Some l" "slot_block ic am l off" by blast
  with slot_block_bytes [OF l(2) assms(5)] sorted same run(1,2) show ?thesis by metis
qed

end
