(* ===== verification/Program_Sound.thy ===== *)
theory Program_Sound
  imports Call_Sound
begin

text \<open>
  Programs of several functions that call each other, themselves and imported functions. The reference is a
  big-step semantics of WebAssembly (\<open>wasm_call\<close>) in which every activation takes its share of
  a bounded stack, indexed by the depth of calls; the machine (\<open>linked\<close>) executes \<open>call\<close> by
  pushing a return address and running the optimised code of the callee up to its \<open>ret\<close>. Imported functions
  are called through the slots in which linking put their addresses; what they do is given. The
  theorem of this theory is that the machine returns what the reference returns.
\<close>

section \<open>Programs\<close>

text \<open>The functions of a program: the number of parameters, all of them \<open>i64\<close>, and the operators; one
  result each.\<close>

type_synonym program = "nat \<Rightarrow> (nat \<times> operator list) option"

text \<open>Imported functions: the number of parameters, and the result for a number of free slots on the stack
  and arguments.\<close>

type_synonym host = "nat \<Rightarrow> (nat \<times> (nat \<Rightarrow> u64 list \<Rightarrow> u64 option)) option"

definition callee ::
  "program \<Rightarrow> host \<Rightarrow> (nat \<Rightarrow> nat \<Rightarrow> u64 list \<Rightarrow> u64 option) \<Rightarrow> nat
     \<Rightarrow> (nat \<times> (nat \<Rightarrow> u64 list \<Rightarrow> u64 option)) option" where
  "callee P H call g = (case P g of Some (n, ops) \<Rightarrow> Some (n, call g) | None \<Rightarrow> H g)"

definition arity :: "program \<Rightarrow> host \<Rightarrow> nat \<Rightarrow> nat option" where
  "arity P H g = (case P g of Some (n, ops) \<Rightarrow> Some n | None \<Rightarrow> map_option fst (H g))"

lemma callee_arity: "callee P H call g = Some (n, fn) \<Longrightarrow> arity P H g = Some n"
  by (auto simp: callee_def arity_def split: option.splits)

text \<open>An operator in a frame that has \<open>h\<close> slots for operands: a call pops its arguments and leaves
  the slots that are then free to the callee.\<close>

fun call_step ::
  "(operator \<Rightarrow> wasm_config \<Rightarrow> wasm_config option) \<Rightarrow> (nat \<Rightarrow> (nat \<times> (nat \<Rightarrow> u64 list \<Rightarrow> u64 option)) option)
     \<Rightarrow> nat \<Rightarrow> operator \<Rightarrow> wasm_config \<Rightarrow> wasm_config option" where
  "call_step step callees h (Call g) (st, ls) =
     (case callees g of None \<Rightarrow> None
      | Some (n, call) \<Rightarrow>
          if n \<le> length st
          then map_option (\<lambda>v. (v # drop n st, ls)) (call (h - length (drop n st)) (rev (take n st)))
          else None)"
| "call_step step callees h op c = step op c"

text \<open>A call of \<open>g\<close> with \<open>h\<close> free slots on the stack: one for the return address, one for the
  saved frame pointer, one for each parameter, the others for operands. \<open>enter\<close> makes locals of arguments.\<close>

fun run_call ::
  "(operator \<Rightarrow> wasm_config \<Rightarrow> wasm_config option) \<Rightarrow> (u64 list \<Rightarrow> u64 list) \<Rightarrow> program \<Rightarrow> host \<Rightarrow> nat
     \<Rightarrow> nat \<Rightarrow> nat \<Rightarrow> u64 list \<Rightarrow> u64 option" where
  "run_call step enter P H 0 g h args = None"
| "run_call step enter P H (Suc depth) g h args =
     (case P g of None \<Rightarrow> None
      | Some (n, ops) \<Rightarrow>
          if length args = n \<and> n + 2 \<le> h
          then (case run_ops (call_step step (callee P H (run_call step enter P H depth)) (h - 2 - n)) (h - 2 - n)
                  ops ([], enter args) of
                  Some ([v], ls) \<Rightarrow> Some v | _ \<Rightarrow> None)
          else None)"

text \<open>WebAssembly's meaning of a call, and that of the emitted code, in which a callee sees its arguments
  reversed and the operands of \<open>i64.sub\<close> are exchanged.\<close>

definition wasm_call :: "program \<Rightarrow> host \<Rightarrow> nat \<Rightarrow> nat \<Rightarrow> nat \<Rightarrow> u64 list \<Rightarrow> u64 option" where
  "wasm_call P H = run_call wasm_step id P H"

definition compiled_call :: "program \<Rightarrow> host \<Rightarrow> nat \<Rightarrow> nat \<Rightarrow> nat \<Rightarrow> u64 list \<Rightarrow> u64 option" where
  "compiled_call P H = run_call compiled_step rev P H"

text \<open>Where they are the same: at most one parameter and no subtraction.\<close>

definition order_free :: "program \<Rightarrow> bool" where
  "order_free P = (\<forall>g n ops. P g = Some (n, ops) \<longrightarrow> n \<le> 1 \<and> I64Sub \<notin> set ops)"

lemma call_step_compiled:
  "op \<noteq> I64Sub \<Longrightarrow> call_step compiled_step callees h op c = call_step wasm_step callees h op c"
  by (cases "(wasm_step, callees, h, op, c)" rule: call_step.cases) (simp_all add: compiled_step_wasm)

lemma compiled_call_wasm:
  assumes "order_free P"
  shows "compiled_call P H depth = wasm_call P H depth"
proof (induction depth)
  case (Suc depth)
  have "compiled_call P H (Suc depth) g h args = wasm_call P H (Suc depth) g h args" for g h args
  proof (cases "P g")
    case (Some f)
    obtain n ops where f: "f = (n, ops)" by (cases f)
    have "run_ops (call_step compiled_step (callee P H (compiled_call P H depth)) h') h' ops c
        = run_ops (call_step wasm_step (callee P H (compiled_call P H depth)) h') h' ops c" for h' c
      using assms Some f by (intro run_ops_cong call_step_compiled) (auto simp: order_free_def)
    moreover have "rev args = args" if "length args = n"
      using that assms Some f by (cases args) (auto simp: order_free_def)
    ultimately show ?thesis using Some f Suc by (simp add: compiled_call_def wasm_call_def)
  qed (simp add: compiled_call_def wasm_call_def)
  then show ?case by blast
qed (simp add: compiled_call_def wasm_call_def fun_eq_iff)

section \<open>The machine\<close>

text \<open>\<open>code\<close> is the code at a label, \<open>ra\<close> any choice of return addresses.\<close>

primrec linked ::
  "(label \<Rightarrow> instr list option) \<Rightarrow> (label \<Rightarrow> (register \<Rightarrow> u64) \<Rightarrow> u64) \<Rightarrow> x86_env \<Rightarrow> nat \<Rightarrow> x86_env" where
  "linked code ra env 0 = env\<lparr>call_to := \<lambda>l s. None\<rparr>"
| "linked code ra env (Suc depth) = env\<lparr>call_to := \<lambda>l s.
     (case code l of None \<Rightarrow> None
      | Some is \<Rightarrow>
          (let a = ra l (regs s)
           in case run_function (linked code ra env depth) is
                (set_reg RSP (regs s RSP - 8) (set_mem (regs s RSP - 8) a s)) of
                None \<Rightarrow> None
              | Some (r, s') \<Rightarrow> if r = a then Some s' else None))\<rparr>"

lemma linked_stack [simp]:
  "stack_top (linked code ra env depth) = stack_top env" "stack_size (linked code ra env depth) = stack_size env"
  "call_at (linked code ra env depth) = call_at env" "label_address (linked code ra env depth) = label_address env"
  by (cases depth; simp)+

section \<open>The stack\<close>

lemma down_down: "down (down b i) j = down b (i + j)"
  by (simp add: down_def algebra_simps)

lemma down_inj: "down b i = down b j \<Longrightarrow> i < 2 ^ 60 \<Longrightarrow> j < 2 ^ 60 \<Longrightarrow> i = j"
  using down_apart [of i j b] by (auto simp: apart_def)

text \<open>A frame whose operands may fill the stack.\<close>

definition on_stack :: "x86_env \<Rightarrow> nat \<Rightarrow> frame \<Rightarrow> bool" where
  "on_stack env b f = (fr_base f = down (stack_top env) b \<and> b + fr_height f = stack_size env \<and> stack_size env < 2 ^ 59
     \<and> (\<forall>j < length (fr_locals f). local_slot f j \<in> down (stack_top env) ` {..stack_size env}))"

text \<open>Addresses beside the stack.\<close>

definition off_stack :: "x86_env \<Rightarrow> u64 \<Rightarrow> bool" where
  "off_stack env x = (\<forall>k \<le> stack_size env. apart (down (stack_top env) k) x)"

lemma dead_below:
  assumes "regs s RSP = down (stack_top env) b" and "b \<le> stack_size env" and "stack_size env < 2 ^ 59"
  shows "dead env s = down (stack_top env) ` {b <.. stack_size env}"
proof (intro equalityI subsetI)
  fix x assume "x \<in> dead env s"
  then obtain k j where k: "x = down (stack_top env) k" "down (stack_top env) b = down (stack_top env) j"
    "j < k" "k \<le> stack_size env" using assms(1) by (auto simp: dead_def)
  with down_inj [OF k(2)] assms(2,3) show "x \<in> down (stack_top env) ` {b <.. stack_size env}" by auto
next
  fix x assume "x \<in> down (stack_top env) ` {b <.. stack_size env}"
  then obtain k where "x = down (stack_top env) k" "b < k" "k \<le> stack_size env" by auto
  with assms(1) show "x \<in> dead env s" unfolding dead_def by blast
qed

lemma on_stack_slot: "on_stack env b f \<Longrightarrow> stack_slot f k = down (stack_top env) (b + k)"
  using down_down [of "stack_top env" b k] by (simp add: on_stack_def stack_slot_def down_def [of _ k])

lemma dead_free:
  assumes "on_stack env b f" and "represents f c s"
  shows "dead env s = free_slots f c"
proof -
  obtain st ls where c: "c = (st, ls)" by (cases c)
  note slot = on_stack_slot [OF assms(1)]
  have len: "length st \<le> fr_height f" and sp: "regs s RSP = down (stack_top env) (b + length st)"
    using assms(2) c slot by (auto simp: represents_def)
  have "dead env s = down (stack_top env) ` {b + length st <.. stack_size env}"
    using dead_below [OF sp] assms(1) len by (simp add: on_stack_def)
  also have "{b + length st <.. stack_size env} = (+) b ` {length st <.. fr_height f}"
    using assms(1) by (simp add: on_stack_def)
  also have "down (stack_top env) ` \<dots> = stack_slot f ` {length st <.. fr_height f}"
    unfolding image_image by (rule image_cong) (simp_all add: slot)
  finally show ?thesis by (simp add: free_slots_def c)
qed

lemma on_stack_outside:
  assumes "on_stack env b f" and "off_stack env x"
  shows "outside f x"
  unfolding outside_def
proof (intro conjI allI ballI impI)
  fix j assume "j < length (fr_locals f)"
  with assms(1) have "local_slot f j \<in> down (stack_top env) ` {..stack_size env}" by (simp add: on_stack_def)
  with assms(2) show "apart (local_slot f j) x" by (auto simp: off_stack_def)
next
  fix k assume "k \<in> {1..fr_height f}"
  with assms(1) have "b + k \<le> stack_size env" by (simp add: on_stack_def)
  with assms(2) on_stack_slot [OF assms(1), of k] show "apart (stack_slot f k) x" by (simp add: off_stack_def)
qed

section \<open>One call\<close>

text \<open>What a call does for its caller: the value in \<open>rax\<close>, pointers as before,
  nothing but the stack below touched, and nothing read from there.\<close>

definition returns_by :: "(x86 \<Rightarrow> x86 option) \<Rightarrow> x86_env \<Rightarrow> x86 \<Rightarrow> u64 \<Rightarrow> bool" where
  "returns_by call env s v = (\<exists>s'. call s = Some s'
     \<and> regs s' RAX = v \<and> regs s' RSP = regs s RSP \<and> regs s' RBP = regs s RBP
     \<and> (\<forall>x. clean (dead env s) x \<longrightarrow> read64 (mem s') x = read64 (mem s) x)
     \<and> (\<forall>t. agree (dead env s) s t \<longrightarrow> (\<exists>t'. call t = Some t' \<and> agree (dead env s) s' t')))"

text \<open>A call of the code at a label, and one of the code at an address.\<close>

definition returns_from :: "x86_env \<Rightarrow> label \<Rightarrow> x86 \<Rightarrow> u64 \<Rightarrow> bool" where
  "returns_from env l s v = returns_by (call_to env l) env s v"

definition host_at :: "x86_env \<Rightarrow> u64 \<Rightarrow> nat \<Rightarrow> (nat \<Rightarrow> u64 list \<Rightarrow> u64 option) \<Rightarrow> bool" where
  "host_at env a n fn = (\<forall>s b v. regs s RSP = down (stack_top env) b \<longrightarrow> b \<le> stack_size env \<longrightarrow>
     fn (stack_size env - b) (arguments n s) = Some v \<longrightarrow> returns_by (call_at env a) env s v)"

text \<open>Every import has been linked: its slot, beside the stack, has the address of the imported function.\<close>

definition linked_imports :: "x86_env \<Rightarrow> (nat \<Rightarrow> label) \<Rightarrow> host \<Rightarrow> x86 \<Rightarrow> bool" where
  "linked_imports env slots H s = (\<forall>g n fn. H g = Some (n, fn) \<longrightarrow>
     off_stack env (label_address env (slots g)) \<and> host_at env (read64 (mem s) (label_address env (slots g))) n fn)"

lemma linked_imports_kept:
  "linked_imports env slots H s \<Longrightarrow> \<forall>x. off_stack env x \<longrightarrow> read64 (mem s') x = read64 (mem s) x \<Longrightarrow> linked_imports env slots H s'"
  unfolding linked_imports_def by metis

lemma linked_imports_outside:
  "linked_imports env slots H s \<Longrightarrow> on_stack env b f \<Longrightarrow> same_outside f s s' \<Longrightarrow> linked_imports env slots H s'"
  using on_stack_outside by (intro linked_imports_kept [of env slots H s s']) (auto simp: same_outside_def)

lemma linked_imports_linked [simp]: "linked_imports (linked code ra env depth) slots H s = linked_imports env slots H s"
  by (simp add: linked_imports_def host_at_def off_stack_def returns_by_def dead_def)

lemma call_sim:
  assumes fr: "frame_ok f" and st: "on_stack env b f" and rep: "represents f (st, ls) s" and ret: "returns_by call env s v"
    and i: "exec1 env i s = call s" "\<And>D. reads_ok env i s D = call_respects call env s D" "\<And>D. popped env i s D = dead env s"
  shows "\<exists>s'. reaches f env [i] (st, ls) s (st, ls) s' \<and> regs s' RAX = v"
proof -
  have dead: "dead env s = free_slots f (st, ls)" by (rule dead_free [OF st rep])
  from ret obtain s' where s': "call s = Some s'" "regs s' RAX = v" "regs s' RSP = regs s RSP" "regs s' RBP = regs s RBP"
    "\<forall>x. clean (dead env s) x \<longrightarrow> read64 (mem s') x = read64 (mem s) x"
    "\<forall>t. agree (dead env s) s t \<longrightarrow> (\<exists>t'. call t = Some t' \<and> agree (dead env s) s' t')"
    by (auto simp: returns_by_def)
  have len: "length st \<le> fr_height f" "fr_height f < 2 ^ 60" "length ls = length (fr_locals f)"
    using rep fr by (auto simp: represents_def frame_ok_def)
  have low: "clean (dead env s) (stack_slot f k)" if "k \<le> length st" for k
    unfolding dead by (rule clean_free_slots [OF order_refl]) (use that len in \<open>auto intro: stack_slot_apart\<close>)
  have loc: "clean (dead env s) (local_slot f j)" if "j < length ls" for j
    unfolding dead by (rule clean_free_slots [OF order_refl]) (use that len frame_local_stack [OF fr] in auto)
  have rep': "represents f (st, ls) s'"
    using rep s'(3-5) low loc by (simp add: represents_def)
  have "same_outside f s s'"
    using s'(5) unfolding same_outside_def dead by (auto simp: clean_def free_slots_def outside_def apart_sym)
  moreover have "call_respects call env s D" if "D \<subseteq> free_slots f (st, ls)" for D
    using that s'(1,6) agree_mono [of D s _ "dead env s"] by (auto simp: call_respects_def dead)
  ultimately have "reaches f env [i] (st, ls) s (st, ls) s'"
    using s'(1) rep' dead i by (auto simp: reaches_def)
  with s'(2) show ?thesis by blast
qed

lemma pops_sim:
  assumes fr: "frame_ok f" and "distinct rs" and "\<forall>r \<in> set rs. is_r64 r \<and> r \<noteq> RSP \<and> r \<noteq> RBP"
    and "length rs = length vs" and "represents f (vs @ st, ls) s"
  shows "\<exists>s'. reaches f env (map POP rs) (vs @ st, ls) s (st, ls) s' \<and> map (regs s') rs = vs
    \<and> (\<forall>q. q \<notin> set rs \<longrightarrow> q \<noteq> RSP \<longrightarrow> regs s' q = regs s q)"
  using assms(2-5)
proof (induction rs arbitrary: vs s)
  case Nil
  then show ?case by (auto intro: reaches_Nil)
next
  case (Cons r rs)
  then obtain v vs' where vs: "vs = v # vs'" "length rs = length vs'" by (cases vs) auto
  with Cons.prems reaches_pop [OF fr, of v "vs' @ st" ls s r env] obtain s1 where s1:
    "reaches f env [POP r] (v # vs' @ st, ls) s (vs' @ st, ls) s1" "regs s1 r = v"
    "\<forall>q. q \<noteq> r \<longrightarrow> q \<noteq> RSP \<longrightarrow> regs s1 q = regs s q" by auto
  then have "represents f (vs' @ st, ls) s1" by (simp add: reaches_def)
  from Cons.IH [OF _ _ vs(2) this] Cons.prems obtain s' where s':
    "reaches f env (map POP rs) (vs' @ st, ls) s1 (st, ls) s'" "map (regs s') rs = vs'"
    "\<forall>q. q \<notin> set rs \<longrightarrow> q \<noteq> RSP \<longrightarrow> regs s' q = regs s1 q" by auto
  have r: "regs s' r = v" using s'(3) s1(2) Cons.prems by auto
  have "reaches f env (map POP (r # rs)) (vs @ st, ls) s (st, ls) s'"
    using reaches_Cons [OF s1(1) s'(1)] vs(1) by simp
  moreover have "map (regs s') (r # rs) = vs" using r s'(2) vs(1) by simp
  moreover have "\<forall>q. q \<notin> set (r # rs) \<longrightarrow> q \<noteq> RSP \<longrightarrow> regs s' q = regs s q" using s'(3) s1(3) by simp
  ultimately show ?case by blast
qed

section \<open>Operators with calls\<close>

fun call_op_code :: "tables \<Rightarrow> nat list \<Rightarrow> operator \<Rightarrow> instr list option" where
  "call_op_code tb locals (Call g) =
     (case function_type_of tb g of
        Some ft \<Rightarrow>
          if length (ft_params ft) \<le> 6 \<and> integer_typed (ft_params ft) \<and> integer_typed (ft_returns ft)
          then Some (map POP (rev (take (length (ft_params ft)) integer_registers)) @ call_code tb g
                 @ map PUSH (take (length (ft_returns ft)) [RAX, RDX]))
          else None
      | None \<Rightarrow> None)"
| "call_op_code tb locals op = op_code locals op"

lemma handle_call_op_code:
  "call_op_code tb locals op = Some is \<Longrightarrow> handle_instruction ic tb locals op a = emit ic is a"
proof (cases op)
  case (Call g)
  assume "call_op_code tb locals op = Some is"
  with Call obtain ft where "function_type_of tb g = Some ft" "length (ft_params ft) \<le> 6"
    "integer_typed (ft_params ft)" "integer_typed (ft_returns ft)"
    "is = map POP (rev (take (length (ft_params ft)) integer_registers)) @ call_code tb g
                 @ map PUSH (take (length (ft_returns ft)) [RAX, RDX])"
    by (auto split: option.splits if_splits)
  with handle_call_code [of tb g ft ic locals a] Call show ?thesis by (simp del: handle_instruction.simps)
qed (auto intro: handle_instruction_op_code)

lemma not_call:
  assumes "\<nexists>g. op = Call g"
  shows "call_step step callees h op c = step op c" "call_op_code tb locals op = op_code locals op"
  using assms by (cases op; simp)+

text \<open>The functions of a program have labels, imported ones have slots, and their types are known to the compiler.\<close>

definition declared :: "tables \<Rightarrow> program \<Rightarrow> host \<Rightarrow> bool" where
  "declared tb P H = (\<forall>g n. arity P H g = Some n \<longrightarrow> n \<le> 6
     \<and> (\<exists>ft t. function_type_of tb g = Some ft \<and> ft_params ft = replicate n I64 \<and> ft_returns ft = [t] \<and> is_int t)
     \<and> (if P g = None then bt_get (got tb) g = None \<and> (\<exists>l. bt_get (ils tb) g = Some l)
        else \<exists>l. bt_get (got tb) g = Some l))"

lemma declaredD:
  assumes "declared tb P H" and "arity P H g = Some n"
  shows "n \<le> 6" "\<exists>ft t. function_type_of tb g = Some ft \<and> ft_params ft = replicate n I64 \<and> ft_returns ft = [t] \<and> is_int t"
    "P g \<noteq> None \<Longrightarrow> \<exists>l. bt_get (got tb) g = Some l"
    "P g = None \<Longrightarrow> bt_get (got tb) g = None \<and> (\<exists>l. bt_get (ils tb) g = Some l)"
  using assms unfolding declared_def by meson+

definition import_slot :: "tables \<Rightarrow> nat \<Rightarrow> label" where
  "import_slot tb g = the (bt_get (ils tb) g)"

lemma call_code_declared:
  assumes "declared tb P H" and "arity P H g = Some n"
  shows "P g \<noteq> None \<Longrightarrow> \<exists>l. bt_get (got tb) g = Some l \<and> call_code tb g = [CALL_label l]"
    and "P g = None \<Longrightarrow> call_code tb g = [MOV_rm R10 (MemLabel (import_slot tb g)), CALL_r R10]"
  using declaredD(3,4) [OF assms] by (auto simp: call_code_def import_slot_def)

lemma call_op_code_declared:
  assumes "declared tb P H" and "arity P H g = Some n"
  shows "call_op_code tb locals (Call g) = Some (map POP (rev (take n integer_registers)) @ call_code tb g @ [PUSH RAX])"
  using declaredD(2) [OF assms] declaredD(1) [OF assms] by (auto simp: integer_typed_def is_int_def)

text \<open>The calls that a body makes find their callees: \<open>call\<close> says what they return.\<close>

definition calls_return ::
  "x86_env \<Rightarrow> tables \<Rightarrow> program \<Rightarrow> host \<Rightarrow> (nat \<Rightarrow> nat \<Rightarrow> u64 list \<Rightarrow> u64 option) \<Rightarrow> bool" where
  "calls_return env tb P H call = (\<forall>g n ops l s b v. P g = Some (n, ops) \<longrightarrow> bt_get (got tb) g = Some l \<longrightarrow>
     regs s RSP = down (stack_top env) b \<longrightarrow> b \<le> stack_size env \<longrightarrow> linked_imports env (import_slot tb) H s \<longrightarrow>
     call g (stack_size env - b) (arguments n s) = Some v \<longrightarrow> returns_from env l s v)"

text \<open>The call instructions, once the arguments are in their registers.\<close>

lemma callee_sim:
  assumes fr: "frame_ok f" and st: "on_stack env b f" and calls: "calls_return env tb P H call" and tb: "declared tb P H"
    and ready: "linked_imports env (import_slot tb) H s" and rep: "represents f (st, ls) s"
    and callee: "callee P H call g = Some (n, fn)" and v: "fn (fr_height f - length st) (arguments n s) = Some v"
  shows "\<exists>s'. reaches f env (call_code tb g) (st, ls) s (st, ls) s' \<and> regs s' RAX = v"
proof -
  note C = call_code_declared [OF tb callee_arity [OF callee]]
  have sp: "regs s RSP = down (stack_top env) (b + length st)" "length st \<le> fr_height f"
    using rep on_stack_slot [OF st] by (simp_all add: represents_def)
  have room: "b + length st \<le> stack_size env" "stack_size env - (b + length st) = fr_height f - length st"
    using st sp(2) by (auto simp: on_stack_def)
  show ?thesis
  proof (cases "P g")
    case (Some x)
    then obtain ops where g: "P g = Some (n, ops)" "fn = call g" using callee by (auto simp: callee_def split: prod.splits)
    from C(1) Some obtain l where l: "bt_get (got tb) g = Some l" "call_code tb g = [CALL_label l]" by auto
    have "returns_by (call_to env l) env s v"
      using calls g l(1) sp(1) room ready v unfolding calls_return_def returns_from_def by metis
    from call_sim [OF fr st rep this, of "CALL_label l"] l(2) show ?thesis by simp
  next
    case None
    then have H: "H g = Some (n, fn)" using callee by (simp add: callee_def)
    let ?a = "label_address env (import_slot tb g)"
    from ready H have slot: "off_stack env ?a" and host: "host_at env (read64 (mem s) ?a) n fn"
      by (auto simp: linked_imports_def)
    let ?s = "set_reg R10 (read64 (mem s) ?a) s"
    have rep1: "represents f (st, ls) ?s" using rep by (simp add: represents_set_reg)
    have "clean D ?a" if "D \<subseteq> free_slots f (st, ls)" for D
      using on_stack_outside [OF st slot] by (intro clean_free_slots [OF that]) (auto simp: outside_def apart_sym [of ?a])
    then have "reaches f env [MOV_rm R10 (MemLabel (import_slot tb g))] (st, ls) s (st, ls) ?s"
      using rep1 by (intro reaches_quiet) (simp_all add: same_outside_def machine_simps)
    moreover have "arguments n ?s = arguments n s"
      by (auto simp: arguments_def machine_simps integer_registers_def dest!: in_set_takeD)
    then have "returns_by (call_at env (regs ?s R10)) env ?s v"
      using host sp(1) room v unfolding host_at_def by (simp add: machine_simps)
    from call_sim [OF fr st rep1 this, of "CALL_r R10"] obtain s' where
      "reaches f env [CALL_r R10] (st, ls) ?s (st, ls) s'" "regs s' RAX = v" by auto
    ultimately show ?thesis using reaches_Cons C(2) None by fastforce
  qed
qed

lemma call_op_sim:
  assumes fr: "frame_ok f" and st: "on_stack env b f" and calls: "calls_return env tb P H call" and tb: "declared tb P H"
    and ready: "linked_imports env (import_slot tb) H s"
    and rep: "represents f c s" and step: "call_step compiled_step (callee P H call) (fr_height f) op c = Some c'"
    and room: "length (fst c') \<le> fr_height f" and code: "call_op_code tb (fr_locals f) op = Some is"
  shows "\<exists>s'. reaches f env is c s c' s'"
proof (cases "\<exists>g. op = Call g")
  case True
  then obtain g where Call: "op = Call g" ..
  obtain st0 ls where c: "c = (st0, ls)" by (cases c)
  from step Call c obtain n fn v where g: "callee P H call g = Some (n, fn)" "n \<le> length st0"
    and v: "fn (fr_height f - length (drop n st0)) (rev (take n st0)) = Some v" "c' = (v # drop n st0, ls)"
    by (auto split: option.splits if_splits)
  note arity = callee_arity [OF g(1)]
  let ?rs = "rev (take n integer_registers)" and ?st = "drop n st0"
  have "is": "is = map POP ?rs @ call_code tb g @ [PUSH RAX]"
    using call_op_code_declared [OF tb arity, of "fr_locals f"] code Call by simp
  have rs: "distinct ?rs" "\<forall>r \<in> set ?rs. is_r64 r \<and> r \<noteq> RSP \<and> r \<noteq> RBP"
    using integer_registers_plain distinct_registers by (auto dest: in_set_takeD)
  have len: "length ?rs = length (take n st0)"
    using declaredD(1) [OF tb arity] g(2) by (simp add: integer_registers_def)
  have "represents f (take n st0 @ ?st, ls) s" using rep c by simp
  from pops_sim [OF fr rs len this, of env] obtain s1 where
    s1: "reaches f env (map POP ?rs) (take n st0 @ ?st, ls) s (?st, ls) s1" "map (regs s1) ?rs = take n st0" by blast
  then have rep1: "represents f (?st, ls) s1" and out: "same_outside f s s1" by (simp_all add: reaches_def)
  have "rev (map (regs s1) ?rs) = map (regs s1) (take n integer_registers)" by (simp add: rev_map)
  then have "arguments n s1 = rev (take n st0)" using s1(2) by (simp add: arguments_def)
  with callee_sim [OF fr st calls tb linked_imports_outside [OF ready st out] rep1 g(1)] v(1) obtain s2 where
    s2: "reaches f env (call_code tb g) (?st, ls) s1 (?st, ls) s2" "regs s2 RAX = v" by metis
  then have "represents f (?st, ls) s2" by (simp add: reaches_def)
  from reaches_push [OF fr this, of RAX env] room v(2) s2(2) obtain s3 where
    "reaches f env [PUSH RAX] (?st, ls) s2 (v # ?st, ls) s3" by auto
  with s1(1) s2(1) have "reaches f env (map POP ?rs @ call_code tb g @ [PUSH RAX]) (take n st0 @ ?st, ls) s (v # ?st, ls) s3"
    by (blast intro: reaches_append)
  then show ?thesis using c v(2) "is" by auto
next
  case False
  with step code have "compiled_step op c = Some c'" "op_code (fr_locals f) op = Some is" by (simp_all add: not_call)
  with op_sim [OF fr rep _ room] show ?thesis by blast
qed

section \<open>Optimising around calls\<close>

lemma swap_free_pops:
  assumes "cur \<in> {[], [PUSH RAX], [PUSH RBP, MOV_rr Rm_r RBP RSP]}" and "set rs \<subseteq> set integer_registers"
  shows "swap_free (cur @ map POP rs)"
proof -
  have "RAX \<notin> set rs" "RBP \<notin> set rs" "RSP \<notin> set rs"
    using assms(2) by (auto simp: integer_registers_def)
  with assms(1) show ?thesis by (auto simp: swap_free_def moves_def)
qed

lemma pieces_pops: "\<forall>r \<in> set rs. is_r64 r \<Longrightarrow> pieces_ok cur (map POP rs @ xs) = pieces_ok (cur @ map POP rs) xs"
  by (induction rs arbitrary: cur) simp_all

lemma pieces_all_inert:
  "xs \<noteq> [] \<Longrightarrow> \<forall>i \<in> set xs. inert i \<Longrightarrow> swap_free cur \<Longrightarrow> pieces_ok cur (xs @ ys) = pieces_ok [] ys"
  using pieces_inert [of "tl xs" ys] by (cases xs) simp_all

lemma pieces_call_body:
  assumes "ops_code (call_op_code tb locals) ops = Some is" and "declared tb P H"
    and "\<forall>g. Call g \<in> set ops \<longrightarrow> arity P H g \<noteq> None" and "cur \<in> {[], [PUSH RAX], [PUSH RBP, MOV_rr Rm_r RBP RSP]}"
    and "is = [] \<Longrightarrow> pieces_ok cur rest" and "pieces_ok [] rest" and "pieces_ok [PUSH RAX] rest"
  shows "pieces_ok cur (is @ rest)"
  using assms(1,3-5)
proof (induction ops arbitrary: cur "is")
  case (Cons op ops)
  then obtain xs ys where code: "call_op_code tb locals op = Some xs" "ops_code (call_op_code tb locals) ops = Some ys" "is = xs @ ys"
    by (auto split: option.splits)
  show ?case
  proof (cases "xs = []")
    case True
    with Cons.IH [OF code(2) _ Cons.prems(3)] Cons.prems(2,4) code(3) show ?thesis by simp
  next
    case False
    have rest: "pieces_ok [] (ys @ rest)" "pieces_ok [PUSH RAX] (ys @ rest)"
      using Cons.IH [OF code(2)] Cons.prems(2) assms(6,7) by simp_all
    show ?thesis
    proof (cases "\<exists>g. op = Call g")
      case True
      with Cons.prems(2) obtain g n where g: "op = Call g" "arity P H g = Some n" by fastforce
      let ?rs = "rev (take n integer_registers)"
      have xs: "xs = map POP ?rs @ call_code tb g @ [PUSH RAX]"
        using call_op_code_declared [OF assms(2) g(2), of locals] code(1) g(1) by simp
      have calls: "call_code tb g \<noteq> []" "\<forall>i \<in> set (call_code tb g). inert i"
        using call_code_declared [OF assms(2) g(2)] by (cases "P g"; auto)+
      have rs: "set ?rs \<subseteq> set integer_registers" "\<forall>r \<in> set ?rs. is_r64 r"
        using integer_registers_plain by (auto dest: in_set_takeD)
      have "is @ rest = map POP ?rs @ call_code tb g @ PUSH RAX # ys @ rest" using xs code(3) by simp
      with pieces_pops [OF rs(2), of cur "call_code tb g @ PUSH RAX # ys @ rest"]
        pieces_all_inert [OF calls swap_free_pops [OF Cons.prems(3) rs(1)]] rest(2)
      show ?thesis by simp
    next
      case no_call: False
      with code(1) have "op_code locals op = Some xs" by (simp add: not_call)
      with no_call False Cons.prems(3) swap_free_cases rest code(3) show ?thesis
        by (cases op) (auto split: if_splits)
    qed
  qed
qed simp

lemma pieces_call_leaf:
  assumes "ops_code (call_op_code tb locals) ops = Some is" and "declared tb P H"
    and "\<forall>g. Call g \<in> set ops \<longrightarrow> arity P H g \<noteq> None" and "is \<noteq> []"
  shows "pieces_ok [] (leaf_code enc n is)"
  using pieces_call_body [OF assms(1-3)] assms(4) pieces_epilogue by (intro pieces_framed) auto

text \<open>A body that leaves a value has code.\<close>

lemma call_ops_code_empty:
  assumes "declared tb P H"
  shows "ops_code (call_op_code tb locals) ops = Some [] \<Longrightarrow> \<forall>g. Call g \<in> set ops \<longrightarrow> arity P H g \<noteq> None \<Longrightarrow>
    run_ops (call_step compiled_step callees h) h ops c = Some c' \<Longrightarrow> c' = c"
proof (induction ops arbitrary: c)
  case (Cons op ops)
  then have code: "call_op_code tb locals op = Some []" "ops_code (call_op_code tb locals) ops = Some []"
    by (auto split: option.splits)
  have "\<nexists>g. op = Call g"
  proof
    assume "\<exists>g. op = Call g"
    with Cons.prems(2) obtain g n where "op = Call g" "arity P H g = Some n" by fastforce
    with call_op_code_declared [OF assms, of g n locals] code(1) show False by simp
  qed
  with code(1) have "op = End" by (cases op) (auto split: if_splits)
  with Cons code(2) show ?case by (cases c) (auto split: if_splits)
qed simp

section \<open>Calls of compiled functions\<close>

text \<open>The optimised code of a function, called with enough room on the stack: \<open>body\<close> says that its
  operators leave \<open>v\<close>.\<close>

lemma optimised_runs:
  assumes n: "n \<le> 6" and h: "h < 2 ^ 59" and fp: "fp = regs s RSP - 8" and pieces: "pieces_ok [] (leaf_code enc n is)"
    and body: "\<And>s1. represents (leaf_frame fp n h) ([], rev (arguments n s)) s1 \<Longrightarrow>
      \<forall>x. (\<forall>k \<le> n. apart (down fp k) x) \<longrightarrow> read64 (mem s1) x = read64 (mem s) x \<Longrightarrow>
      \<exists>s2. reaches (leaf_frame fp n h) env is ([], rev (arguments n s)) s1 ([v], ls) s2"
  shows "\<exists>u. regs u RAX = v \<and> regs u RSP = regs s RSP \<and> regs u RBP = regs s RBP
    \<and> (\<forall>x. clean (down fp ` {..n + h}) x \<longrightarrow> read64 (mem u) x = read64 (mem s) x)
    \<and> (\<forall>t. agree (down fp ` {..n + h}) s t \<longrightarrow>
         (\<exists>w. run env (normal_form (leaf_code enc n is)) t = Some w \<and> agree (down fp ` {..n + h}) u w))"
proof -
  let ?D = "down fp ` {..n + h}" and ?c = "leaf_code enc n is"
  from framed_runs [OF n h fp body order_refl, of enc] obtain u where u: "run env ?c s = Some u"
    "regs u RAX = v" "regs u RSP = regs s RSP" "regs u RBP = regs s RBP"
    "\<forall>x. (\<forall>k \<le> n + h. apart (down fp k) x) \<longrightarrow> read64 (mem u) x = read64 (mem s) x"
    "disciplined env ?c s ?D" "popped_all env ?c s ?D \<subseteq> ?D" by blast
  have "simulates env ?c (normal_form ?c)" using pieces_simulate [OF pieces] by simp
  from simulatesD [OF this _ order_refl u(6,1)] have "\<exists>w. run env (normal_form ?c) t = Some w \<and> agree ?D u w"
    if "agree ?D s t" for t
    using that agree_mono [OF _ u(7)] by blast
  moreover have "read64 (mem u) x = read64 (mem s) x" if "clean ?D x" for x
    using u(5) that by (auto simp: clean_def apart_sym)
  ultimately show ?thesis using u(2-4) by blast
qed

lemma normal_form_ret: "normal_form (xs @ [RET]) = normal_form xs @ [RET]"
  using normal_form_inert [of RET xs "[]"] by (simp add: normal_form.simps [of "[]"])

lemma arguments_set: "arguments n (set_reg RSP a (set_mem b v s)) = arguments n s"
  by (auto simp: arguments_def machine_simps dest!: in_set_takeD) (simp add: integer_registers_def)

lemma call_returns_from:
  assumes n: "n \<le> 6" and size: "stack_size env < 2 ^ 59" and room: "b + n + 2 \<le> stack_size env"
    and sp: "regs s RSP = down (stack_top env) b" and code: "code l = Some (normal_form (leaf_code enc n is @ [RET]))"
    and pieces: "pieces_ok [] (leaf_code enc n is)"
    and body: "\<And>s1. represents (leaf_frame (down (stack_top env) (b + 2)) n (stack_size env - b - 2 - n)) ([], rev (arguments n s)) s1 \<Longrightarrow>
      \<forall>x. off_stack env x \<longrightarrow> read64 (mem s1) x = read64 (mem s) x \<Longrightarrow>
      \<exists>s2. reaches (leaf_frame (down (stack_top env) (b + 2)) n (stack_size env - b - 2 - n)) (linked code ra env depth) is
        ([], rev (arguments n s)) s1 ([v], ls) s2"
  shows "returns_from (linked code ra env (Suc depth)) l s v"
proof -
  let ?top = "stack_top env" and ?h = "stack_size env - b - 2 - n" and ?fp = "down (stack_top env) (b + 2)"
  let ?E = "linked code ra env depth" and ?D = "down (down (stack_top env) (b + 2)) ` {..n + (stack_size env - b - 2 - n)}"
  define a where "a = ra l (regs s)"
  define enter where "enter t = set_reg RSP (down ?top (b + 1)) (set_mem (down ?top (b + 1)) a t)" for t
  have ret: "down ?top b - 8 = down ?top (b + 1)" "down ?top (b + 1) - 8 = ?fp" "?fp + 8 = down ?top (b + 1)"
    by (simp_all add: down_def)
  have dead: "dead (linked code ra env (Suc depth)) s = down ?top ` {b <.. stack_size env}"
    using dead_below [of s "linked code ra env (Suc depth)" b] sp size room by (simp del: linked.simps)
  have "{b + 1 <.. stack_size env} = {b + 2 .. stack_size env}" by auto
  also have "\<dots> = (+) (b + 2) ` {0..n + ?h}" using room by (simp only: image_add_atLeastAtMost) simp
  also have "{0..n + ?h} = {..n + ?h}" by (simp add: atMost_atLeast0)
  finally have D: "?D = down ?top ` {b + 1 <.. stack_size env}"
    by (simp add: down_down image_image)
  have "{b <.. stack_size env} = insert (b + 1) {b + 1 <.. stack_size env}" using room by auto
  then have dead_eq: "dead (linked code ra env (Suc depth)) s = insert (down ?top (b + 1)) ?D"
    unfolding dead D by simp
  have args: "arguments n (enter s) = arguments n s" by (simp only: enter_def arguments_set)
  have h: "?h < 2 ^ 59" using size by simp
  have regs: "regs (enter s) RSP = down ?top (b + 1)" "regs (enter s) RBP = regs s RBP"
    by (simp_all add: enter_def machine_simps)
  have fp: "?fp = regs (enter s) RSP - 8" by (simp only: regs ret)
  have entered: "\<forall>x. off_stack env x \<longrightarrow> read64 (mem s1) x = read64 (mem s) x"
    if s1: "\<forall>x. (\<forall>k \<le> n. apart (down ?fp k) x) \<longrightarrow> read64 (mem s1) x = read64 (mem (enter s)) x" for s1
  proof (intro allI impI)
    fix x assume x: "off_stack env x"
    have "apart (down ?fp k) x" if "k \<le> n" for k
      using x that room unfolding down_down off_stack_def by simp
    moreover have "apart (down ?top (b + 1)) x" using x room by (simp add: off_stack_def)
    ultimately show "read64 (mem s1) x = read64 (mem s) x"
      using s1 by (simp add: enter_def machine_simps read_write_apart)
  qed
  have body': "\<exists>s2. reaches (leaf_frame ?fp n ?h) ?E is ([], rev (arguments n (enter s))) s1 ([v], ls) s2"
    if "represents (leaf_frame ?fp n ?h) ([], rev (arguments n (enter s))) s1"
      "\<forall>x. (\<forall>k \<le> n. apart (down ?fp k) x) \<longrightarrow> read64 (mem s1) x = read64 (mem (enter s)) x" for s1
    using body [OF _ entered [OF that(2)]] that(1) by (simp only: args)
  from optimised_runs [OF n h fp pieces body'] obtain u where u:
    "regs u RAX = v" "regs u RSP = down ?top (b + 1)" "regs u RBP = regs s RBP"
    "\<forall>x. clean ?D x \<longrightarrow> read64 (mem u) x = read64 (mem (enter s)) x"
    "\<forall>t. agree ?D (enter s) t \<longrightarrow> (\<exists>w. run ?E (normal_form (leaf_code enc n is)) t = Some w \<and> agree ?D u w)"
    unfolding regs by blast
  have clean: "clean ?D (down ?top (b + 1))"
    using down_return_slot [of _ ?fp] ret(3) size room by (auto simp: clean_def)
  have runs: "\<exists>t'. call_to (linked code ra env (Suc depth)) l t = Some t' \<and> agree ?D (set_reg RSP (regs s RSP) u) t'"
    if t: "agree (insert (down ?top (b + 1)) ?D) s t" for t
  proof -
    have "agree ?D (enter s) (enter t)"
      using agree_push [OF t, of "down ?top (b + 1)" a] unfolding enter_def
      by (auto intro!: agree_set_reg intro: agree_mono)
    with u(5) obtain w where w: "run ?E (normal_form (leaf_code enc n is)) (enter t) = Some w" "agree ?D u w" by blast
    have "read64 (mem w) (regs w RSP) = a"
      using agree_read [OF w(2) clean] agree_regs [OF w(2)] u(2,4) clean by (simp add: enter_def machine_simps)
    moreover have "regs w RSP + 8 = regs s RSP" using agree_regs [OF w(2)] u(2) sp by (simp add: down_def)
    ultimately have "run_function ?E (normal_form (leaf_code enc n is @ [RET])) (enter t) = Some (a, set_reg RSP (regs s RSP) w)"
      using w(1) by (simp add: run_function_def normal_form_ret)
    moreover have "enter t = set_reg RSP (regs t RSP - 8) (set_mem (regs t RSP - 8) (ra l (regs t)) t)"
      using agree_regs [OF t] sp ret(1) by (simp add: enter_def a_def)
    ultimately have "call_to (linked code ra env (Suc depth)) l t = Some (set_reg RSP (regs s RSP) w)"
      using code agree_regs [OF t] by (simp add: a_def)
    with agree_set_reg [OF w(2)] show ?thesis by blast
  qed
  from runs [OF agree_refl] obtain s' where s': "call_to (linked code ra env (Suc depth)) l s = Some s'"
    "agree ?D (set_reg RSP (regs s RSP) u) s'" by blast
  have "read64 (mem s') x = read64 (mem s) x" if x: "clean (insert (down ?top (b + 1)) ?D) x" for x
  proof -
    have "clean ?D x" "apart (down ?top (b + 1)) x" using x by (auto simp: clean_def apart_sym)
    with agree_read [OF s'(2)] u(4) show ?thesis by (simp add: enter_def machine_simps read_write_apart)
  qed
  moreover have "\<exists>t'. call_to (linked code ra env (Suc depth)) l t = Some t' \<and> agree (insert (down ?top (b + 1)) ?D) s' t'"
    if "agree (insert (down ?top (b + 1)) ?D) s t" for t
  proof -
    from runs [OF that] obtain t' where "call_to (linked code ra env (Suc depth)) l t = Some t'"
      "agree ?D (set_reg RSP (regs s RSP) u) t'" by blast
    with s'(2) show ?thesis by (blast intro: agree_mono agree_trans agree_sym)
  qed
  moreover have "regs s' RAX = v" "regs s' RSP = regs s RSP" "regs s' RBP = regs s RBP"
    using agree_regs [OF s'(2)] u(1,3) by (simp_all add: machine_simps)
  ultimately show ?thesis unfolding returns_from_def returns_by_def dead_eq using s'(1) by blast
qed

text \<open>All functions of a program at their labels.\<close>

definition compiled_program ::
  "tables \<Rightarrow> mov_encoding \<Rightarrow> (label \<Rightarrow> instr list option) \<Rightarrow> program \<Rightarrow> host \<Rightarrow> bool" where
  "compiled_program tb enc code P H = (declared tb P H \<and>
     (\<forall>g n ops. P g = Some (n, ops) \<longrightarrow> (\<forall>g'. Call g' \<in> set ops \<longrightarrow> arity P H g' \<noteq> None)
        \<and> (\<exists>l is. bt_get (got tb) g = Some l \<and> ops_code (call_op_code tb (param_offsets n)) ops = Some is
             \<and> code l = Some (normal_form (leaf_code enc n is @ [RET])))))"

lemma compiled_programD:
  assumes "compiled_program tb enc code P H" and "P g = Some (n, ops)" and "bt_get (got tb) g = Some l"
  shows "declared tb P H" "n \<le> 6" "\<forall>g'. Call g' \<in> set ops \<longrightarrow> arity P H g' \<noteq> None"
    "\<exists>is. ops_code (call_op_code tb (param_offsets n)) ops = Some is
       \<and> code l = Some (normal_form (leaf_code enc n is @ [RET]))"
proof -
  show decl: "declared tb P H" using assms(1) by (simp add: compiled_program_def)
  have "arity P H g = Some n" using assms(2) by (simp add: arity_def)
  with declaredD(1) [OF decl] show "n \<le> 6" by blast
  from assms show "\<forall>g'. Call g' \<in> set ops \<longrightarrow> arity P H g' \<noteq> None" unfolding compiled_program_def by blast
  from assms show "\<exists>is. ops_code (call_op_code tb (param_offsets n)) ops = Some is
       \<and> code l = Some (normal_form (leaf_code enc n is @ [RET]))" unfolding compiled_program_def by fastforce
qed

lemma leaf_on_stack:
  assumes "fp = down (stack_top env) b" and "b + n + h = stack_size env" and "stack_size env < 2 ^ 59"
  shows "on_stack env (b + n) (leaf_frame fp n h)"
proof -
  have "local_slot (leaf_frame fp n h) j \<in> down (stack_top env) ` {..stack_size env}" if "j < n" for j
    using that assms down_down [of "stack_top env" b "Suc j"] by (simp add: leaf_local_slot)
  then show ?thesis
    using assms down_down [of "stack_top env" b n] by (simp add: on_stack_def leaf_frame_def down_def [of _ n])
qed

lemma linked_returns:
  assumes P: "compiled_program tb enc code P H" and size: "stack_size env < 2 ^ 59"
  shows "calls_return (linked code ra env depth) tb P H (compiled_call P H depth)"
proof (induction depth)
  case 0
  show ?case by (simp add: calls_return_def compiled_call_def)
next
  case (Suc depth)
  let ?E = "linked code ra env depth"
  show ?case
    unfolding calls_return_def
  proof (intro allI impI)
    fix g n ops l s b v
    assume g: "P g = Some (n, ops)" "bt_get (got tb) g = Some l"
      and sp: "regs s RSP = down (stack_top (linked code ra env (Suc depth))) b" "b \<le> stack_size (linked code ra env (Suc depth))"
      and ready: "linked_imports (linked code ra env (Suc depth)) (import_slot tb) H s"
      and v: "compiled_call P H (Suc depth) g (stack_size (linked code ra env (Suc depth)) - b) (arguments n s) = Some v"
    note C = compiled_programD [OF P g]
    let ?fp = "down (stack_top env) (b + 2)" and ?h = "stack_size env - b - 2 - n"
    let ?f = "leaf_frame ?fp n ?h"
    from v g(1) obtain ls where room: "n + 2 \<le> stack_size env - b"
      and run: "run_ops (call_step compiled_step (callee P H (compiled_call P H depth)) ?h) ?h ops ([], rev (arguments n s)) = Some ([v], ls)"
      by (auto simp: compiled_call_def simp del: linked.simps split: if_splits option.splits list.splits)
    from C(4) obtain "is" where "is": "ops_code (call_op_code tb (param_offsets n)) ops = Some is"
      "code l = Some (normal_form (leaf_code enc n is @ [RET]))" by blast
    have "is \<noteq> []" using "is"(1) run call_ops_code_empty [OF C(1) _ C(3)] by fastforce
    with pieces_call_leaf [OF "is"(1) C(1,3)] have pieces: "pieces_ok [] (leaf_code enc n is)" by blast
    have fr: "frame_ok ?f" using C(2) size by (intro leaf_frame_ok) simp
    have st: "on_stack ?E (b + 2 + n) ?f" using room size by (intro leaf_on_stack) simp_all
    have body: "\<exists>s2. reaches ?f ?E is ([], rev (arguments n s)) s1 ([v], ls) s2"
      if s1: "represents ?f ([], rev (arguments n s)) s1" "\<forall>x. off_stack env x \<longrightarrow> read64 (mem s1) x = read64 (mem s) x" for s1
    proof (rule ops_sim [where I = "linked_imports ?E (import_slot tb) H", OF call_op_sim [OF fr st Suc C(1)] _ _ s1(1)])
      show "linked_imports ?E (import_slot tb) H s1"
        using linked_imports_kept [OF _ s1(2)] ready by (simp del: linked.simps)
    qed (use linked_imports_outside [OF _ st] run "is"(1) in auto)
    show "returns_from (linked code ra env (Suc depth)) l s v"
      by (rule call_returns_from [OF C(2) size _ _ "is"(2) pieces body]) (use room sp in \<open>auto simp del: linked.simps\<close>)
  qed
qed

end
