(* ===== verification/Program_Compiled.thy ===== *)
theory Program_Compiled
  imports Program_Sound Finish_Sound
begin

text \<open>
  From \<open>compile\<close> to the machine of \<open>Program_Sound\<close>: the functions of a module that call each other are compiled
  one by one, each with the tables as they are then. The lemmas show that the code of each
  is that of the finished tables, so that the module is a \<open>compiled_program\<close>.
\<close>

section \<open>The program of a module\<close>

text \<open>The functions with \<open>i64\<close> parameters, one result and no declared locals.\<close>

definition i64_function :: "func_type \<Rightarrow> func_body \<Rightarrow> (nat \<times> operator list) option" where
  "i64_function ft body =
     (case (fb_locals body, fb_operators body, ft_returns ft) of
        (Inr [], Inr rd, [t]) \<Rightarrow>
          if list_all (\<lambda>p. p = I64) (ft_params ft) then Some (length (ft_params ft), operators_of rd) else None
      | _ \<Rightarrow> None)"

definition module_program :: "payload list \<Rightarrow> program" where
  "module_program payloads g =
     Option.bind (found_type payloads g) (\<lambda>ft.
     Option.bind (map_of (zip (body_indices 0 payloads) (code_bodies payloads)) g) (i64_function ft))"

text \<open>A part of it that calls nothing else but the imported functions \<open>H\<close> and has no 32-bit operators.\<close>

definition program_of :: "payload list \<Rightarrow> program \<Rightarrow> host \<Rightarrow> bool" where
  "program_of payloads P H = (\<forall>g n ops. P g = Some (n, ops) \<longrightarrow> module_program payloads g = Some (n, ops)
     \<and> I32Add \<notin> set ops \<and> I32Sub \<notin> set ops \<and> (\<forall>g'. Call g' \<in> set ops \<longrightarrow> arity P H g' \<noteq> None))"

text \<open>Imported functions with \<open>i64\<close> parameters and one integer result.\<close>

definition host_of :: "payload list \<Rightarrow> wasm_module \<Rightarrow> host \<Rightarrow> bool" where
  "host_of payloads m H = (\<forall>g n fn. H g = Some (n, fn) \<longrightarrow> n \<le> 6 \<and> bt_get (m_imports m) g \<noteq> None
     \<and> (\<exists>ft t. found_type payloads g = Some ft \<and> ft_params ft = replicate n I64 \<and> ft_returns ft = [t] \<and> is_int t))"

lemma i64_function_Some:
  assumes "i64_function ft body = Some (n, ops)"
  shows "ft_params ft = replicate n I64 \<and> (\<exists>t. ft_returns ft = [t]) \<and> fb_locals body = Inr []
    \<and> (\<exists>rd. fb_operators body = Inr rd \<and> operators_of rd = ops)"
  using assms
  by (auto simp: i64_function_def list_all_iff split: sum.splits list.splits if_splits
      intro!: replicate_length_same [symmetric])

lemma program_ofD:
  assumes "program_of payloads P H" and "P g = Some (n, ops)"
  shows "\<exists>j ft t rd. j < length (code_bodies payloads) \<and> body_indices 0 payloads ! j = g
    \<and> found_type payloads g = Some ft \<and> ft_params ft = replicate n I64 \<and> ft_returns ft = [t]
    \<and> fb_locals (code_bodies payloads ! j) = Inr [] \<and> fb_operators (code_bodies payloads ! j) = Inr rd
    \<and> operators_of rd = ops"
proof -
  from assms obtain ft body where ft: "found_type payloads g = Some ft" "i64_function ft body = Some (n, ops)"
    and body: "map_of (zip (body_indices 0 payloads) (code_bodies payloads)) g = Some body"
    by (fastforce simp: program_of_def module_program_def Option.bind_eq_Some_conv)
  from map_of_SomeD [OF body] obtain j where "j < length (code_bodies payloads)" "body_indices 0 payloads ! j = g"
    "code_bodies payloads ! j = body" by (auto simp: in_set_zip)
  with ft i64_function_Some [OF ft(2)] show ?thesis by blast
qed

section \<open>The operators that were taken\<close>

lemma compile_operators_taken:
  "foldM (compile_operator ic wp tb locals) (fv, h, a) rd = Ok y \<Longrightarrow> op \<in> set (operators_of rd) \<Longrightarrow>
     \<exists>b b'. handle_instruction ic tb locals op b = Ok b'"
proof (induction rd arbitrary: fv h a)
  case (Cons x rd)
  from Cons.prems(1) obtain z where z: "compile_operator ic wp tb locals (fv, h, a) x = Ok z"
    "foldM (compile_operator ic wp tb locals) z rd = Ok y" by (auto simp: res_simps)
  from compile_operator_Ok [OF z(1)] obtain op1 off fv1 a1 h1 where x: "x = Inr (op1, off)"
    "handle_instruction ic tb locals op1 a = Ok a1" "z = (fv1, h1, a1)" by blast
  with Cons.prems(2) Cons.IH [OF z(2) [unfolded x(3)]] show ?case by (auto simp: operators_of_def)
qed (simp add: operators_of_def)

lemma compile_function_taken:
  assumes "compile_function checks ic wp tb ft cs fv a = Ok (h, a')" and "ft_params ft = replicate n I64"
    and "fb_locals cs = Inr []" and "fb_operators cs = Inr rd" and "op \<in> set (operators_of rd)"
  shows "\<exists>b b'. handle_instruction ic tb (param_offsets n) op b = Ok b'"
proof -
  have "n \<le> 6" using compile_function_typed [OF assms(1)] assms(2) by simp
  then have lay: "layout_params checks (replicate n I64) = Ok (param_offsets n, 8 * n)"
    by (intro layout_i64) simp
  from assms(1) obtain b y where "foldM (compile_operator ic wp tb (param_offsets n)) (fv, operand_stack_height wp fv, b) rd = Ok y"
    unfolding compile_function_def assms(2) by (auto simp: res_simps lay assms(3,4) simp del: emit_simps)
  from compile_operators_taken [OF this assms(5)] show ?thesis .
qed

lemma taken_code:
  assumes "handle_instruction ic tb locals op b = Ok b'" and "op \<noteq> I32Add" and "op \<noteq> I32Sub" and "\<nexists>g. op = Call g"
  shows "\<exists>is. op_code locals op = Some is"
  using assms by (cases op) (auto split: if_splits)

lemma taken_call: "handle_instruction ic tb locals (Call g) b = Ok b' \<Longrightarrow> \<exists>ft. function_type_of tb g = Some ft"
  by (cases "function_type_of tb g") auto

text \<open>A function whose type was known when a call to it was compiled had its final label or slot then.\<close>

lemma call_code_kept:
  assumes "types_kept tb tables" and "total_tables tb" and "total_tables tables" and "function_type_of tb g = Some ft"
  shows "function_type_of tables g = Some ft" and "call_code tb g = call_code tables g"
proof -
  show "function_type_of tables g = Some ft" using types_kept_lookup [OF assms(1,4)] .
  have "g \<in> dom (bt_get (function_types tb))"
    using assms(4) by (auto simp: function_type_of_def Option.bind_eq_Some_conv)
  then consider l where "bt_get (got tb) g = Some l" | l where "bt_get (got tb) g = None" "bt_get (ils tb) g = Some l"
    using assms(2) by (cases "bt_get (got tb) g") (auto simp: total_tables_def)
  then show "call_code tb g = call_code tables g"
  proof cases
    case 1
    with assms(1) have "bt_get (got tables) g = Some l" by (simp add: types_kept_def)
    with 1 show ?thesis by (simp add: call_code_def)
  next
    case 2
    with assms(1) have l: "bt_get (ils tables) g = Some l" by (simp add: types_kept_def)
    with assms(3) have "bt_get (got tables) g = None" by (fastforce simp: total_tables_def)
    with 2 l show ?thesis by (simp add: call_code_def)
  qed
qed

lemma ops_code_same:
  "(\<And>op. op \<in> set ops \<Longrightarrow> \<exists>is. oc op = Some is \<and> oc' op = Some is) \<Longrightarrow>
     \<exists>is. ops_code oc ops = Some is \<and> ops_code oc' ops = Some is"
proof (induction ops)
  case (Cons op ops)
  then obtain xs ys where "oc op = Some xs" "oc' op = Some xs" "ops_code oc ops = Some ys" "ops_code oc' ops = Some ys"
    by (metis list.set_intros)
  then show ?case by simp
qed simp

section \<open>The code of a module\<close>

text \<open>What \<open>module_bodies\<close> says of the finished tables and a body of the program.\<close>

definition placed_body :: "iced \<Rightarrow> assembled_module \<Rightarrow> tables \<Rightarrow> nat \<Rightarrow> nat \<Rightarrow> operator list \<Rightarrow> bool" where
  "placed_body ic am tables g n ops = (\<exists>l is ip. bt_get (got tables) g = Some l
     \<and> ops_code (call_op_code tables (param_offsets n)) ops = Some is
     \<and> emitted_at ic am l (normal_form (leaf_code (mov_rr_code ic) n is @ [RET])) ip
     \<and> function_entry_point (the_module am) (ByIndex g) = Some ip)"

lemma body_placed:
  assumes ok: "compile_function True ic wp tb ft body fv a = Ok (h, a')" "instructions a' = instructions a @ code"
    and at: "emitted_at ic am l (normal_form code) ip" "function_entry_point (the_module am) (ByIndex g) = Some ip"
    and kept: "types_kept tb tables" "total_tables tb" "total_tables tables" "bt_get (got tables) g = Some l"
    and ft: "ft_params ft = replicate n I64" "ft_returns ft = [t]"
    and body: "fb_locals body = Inr []" "fb_operators body = Inr rd"
    and ops: "I32Add \<notin> set (operators_of rd)" "I32Sub \<notin> set (operators_of rd)"
      "\<forall>g'. Call g' \<in> set (operators_of rd) \<longrightarrow> arity P H g' \<noteq> None"
    and tables: "declared tables P H"
  shows "placed_body ic am tables g n (operators_of rd)"
proof -
  have "\<exists>is. call_op_code tb (param_offsets n) op = Some is \<and> call_op_code tables (param_offsets n) op = Some is"
    if op: "op \<in> set (operators_of rd)" for op
  proof -
    from compile_function_taken [OF ok(1) ft(1) body op] obtain b b' where
      taken: "handle_instruction ic tb (param_offsets n) op b = Ok b'" by blast
    show ?thesis
    proof (cases "\<exists>g. op = Call g")
      case False
      then have "op_code (param_offsets n) op \<noteq> None" using taken_code [OF taken _ _ False] op ops(1,2) by auto
      then show ?thesis using not_call(2) [OF False] by simp
    next
      case True
      with op ops(3) obtain g' m where g': "op = Call g'" "arity P H g' = Some m" by fastforce
      from taken_call taken g'(1) obtain ft' where ft': "function_type_of tb g' = Some ft'" by blast
      from call_code_kept [OF kept(1-3) ft'] ft'
      have "call_op_code tb (param_offsets n) (Call g') = call_op_code tables (param_offsets n) (Call g')" by simp
      with call_op_code_declared [OF tables g'(2), of "param_offsets n"] g'(1) show ?thesis by metis
    qed
  qed
  from ops_code_same [of "operators_of rd" "call_op_code tb (param_offsets n)" "call_op_code tables (param_offsets n)", OF this]
  obtain "is" where code: "ops_code (call_op_code tb (param_offsets n)) (operators_of rd) = Some is"
    "ops_code (call_op_code tables (param_offsets n)) (operators_of rd) = Some is" by blast
  have "n \<le> 6" "is_int t" using compile_function_typed [OF ok(1)] ft by (auto simp: integer_typed_def is_int_def)
  from compile_function_emits [OF handle_call_op_code ok(1) ft this(2,1) body code(1)]
  have "code = leaf_code (mov_rr_code ic) n is @ [RET]" using emit_Ok ok(2) by fastforce
  with at kept(4) code(2) show ?thesis unfolding placed_body_def by blast
qed

lemma module_program_placed:
  assumes "delivers wp (new_parser wp) module False payloads" and "compile True ic wp module = Some (Ok am)"
    and "fits ic wp payloads" and P: "program_of payloads P H" and H: "host_of payloads (the_module am) H"
  shows "\<exists>cs0 cs tables. initial_state ic wp = Ok cs0 \<and> handle_all True ic wp cs0 payloads = Ok cs \<and> tables = c_tables cs
    \<and> declared tables P H \<and> inj_on (bt_get (got tables)) (dom (bt_get (got tables)))
    \<and> (\<forall>g n ops. P g = Some (n, ops) \<longrightarrow> placed_body ic am tables g n ops)"
proof -
  from module_bodies [OF assms(1-3)] obtain cs0 cs tables where
    cs: "initial_state ic wp = Ok cs0" "handle_all True ic wp cs0 payloads = Ok cs" "tables = c_tables cs"
    and slots: "m_imports (the_module am) = m_imports (c_module cs)"
      "dom (bt_get (m_imports (c_module cs))) = dom (bt_get (ils tables))"
    and types: "\<forall>k. function_type_of tables k = found_type payloads k" and total: "total_tables tables"
    and inj: "inj_on (bt_get (got tables)) (dom (bt_get (got tables)))"
    and bodies: "\<forall>j < length (code_bodies payloads). \<exists>tb ft fv h a a' code l ip.
         found_type payloads (body_indices 0 payloads ! j) = Some ft
         \<and> compile_function True ic wp tb ft (code_bodies payloads ! j) fv a = Ok (h, a')
         \<and> instructions a' = instructions a @ code \<and> emitted_at ic am l (normal_form code) ip
         \<and> function_entry_point (the_module am) (ByIndex (body_indices 0 payloads ! j)) = Some ip
         \<and> function_stack_height (the_module am) (ByIndex (body_indices 0 payloads ! j)) = Some h
         \<and> types_kept tb tables \<and> total_tables tb \<and> bt_get (got tables) (body_indices 0 payloads ! j) = Some l"
    by (elim exE conjE)
  have decl: "declared tables P H"
    unfolding declared_def
  proof (intro allI impI)
    fix g n assume g: "arity P H g = Some n"
    show "n \<le> 6 \<and> (\<exists>ft t. function_type_of tables g = Some ft \<and> ft_params ft = replicate n I64 \<and> ft_returns ft = [t] \<and> is_int t)
      \<and> (if P g = None then bt_get (got tables) g = None \<and> (\<exists>l. bt_get (ils tables) g = Some l)
         else \<exists>l. bt_get (got tables) g = Some l)"
    proof (cases "P g")
      case None
      with g obtain fn where h: "H g = Some (n, fn)" by (auto simp: arity_def)
      with H slots have "g \<in> dom (bt_get (ils tables))" by (auto simp: host_of_def)
      with total H h types None show ?thesis by (fastforce simp: host_of_def total_tables_def)
    next
      case (Some x)
      with g obtain ops where P_g: "P g = Some (n, ops)" by (cases x) (auto simp: arity_def)
      from program_ofD [OF P P_g] obtain j ft t where j: "j < length (code_bodies payloads)" "body_indices 0 payloads ! j = g"
        "found_type payloads g = Some ft" "ft_params ft = replicate n I64" "ft_returns ft = [t]" by blast
      with bodies [rule_format, OF j(1)] obtain tb fv h a a' l where
        "compile_function True ic wp tb ft (code_bodies payloads ! j) fv a = Ok (h, a')" "bt_get (got tables) g = Some l" by auto
      with compile_function_typed j(3-5) types P_g show ?thesis by (fastforce simp: integer_typed_def is_int_def)
    qed
  qed
  have "placed_body ic am tables g n ops" if g: "P g = Some (n, ops)" for g n ops
  proof -
    from program_ofD [OF P g] obtain j ft t rd where j: "j < length (code_bodies payloads)" "body_indices 0 payloads ! j = g"
      "found_type payloads g = Some ft" "ft_params ft = replicate n I64" "ft_returns ft = [t]"
      "fb_locals (code_bodies payloads ! j) = Inr []" "fb_operators (code_bodies payloads ! j) = Inr rd"
      "operators_of rd = ops" by blast
    from bodies [rule_format, OF j(1)] j(2,3) obtain tb fv h a a' code l ip where
      c: "compile_function True ic wp tb ft (code_bodies payloads ! j) fv a = Ok (h, a')"
        "instructions a' = instructions a @ code" "emitted_at ic am l (normal_form code) ip"
        "function_entry_point (the_module am) (ByIndex g) = Some ip"
      and kept: "types_kept tb tables" "total_tables tb" "bt_get (got tables) g = Some l" by auto
    have "I32Add \<notin> set (operators_of rd)" "I32Sub \<notin> set (operators_of rd)"
      "\<forall>g'. Call g' \<in> set (operators_of rd) \<longrightarrow> arity P H g' \<noteq> None"
      using P g j(8) unfolding program_of_def by blast+
    from body_placed [OF c kept(1,2) total kept(3) j(4-7) this decl] j(8) show ?thesis by simp
  qed
  with cs decl inj show ?thesis by blast
qed

text \<open>The code at each label, as a map.\<close>

lemma placed_code_map:
  assumes inj: "inj_on (bt_get (got tables)) (dom (bt_get (got tables)))" and decl: "declared tables P H"
    and placed: "\<forall>g n ops. P g = Some (n, ops) \<longrightarrow> placed_body ic am tables g n ops"
    and closed: "\<forall>g n ops g'. P g = Some (n, ops) \<longrightarrow> Call g' \<in> set ops \<longrightarrow> arity P H g' \<noteq> None"
  shows "\<exists>code. compiled_program tables (mov_rr_code ic) code P H
    \<and> (\<forall>l is. code l = Some is \<longrightarrow> (\<exists>ip. emitted_at ic am l is ip))
    \<and> (\<forall>g. P g \<noteq> None \<longrightarrow> (\<exists>l is ip. bt_get (got tables) g = Some l \<and> code l = Some is
         \<and> emitted_at ic am l is ip \<and> function_entry_point (the_module am) (ByIndex g) = Some ip))"
proof -
  define body where "body g = Option.bind (P g) (\<lambda>(n, ops).
    map_option (\<lambda>is. normal_form (leaf_code (mov_rr_code ic) n is @ [RET])) (ops_code (call_op_code tables (param_offsets n)) ops))" for g
  define code where "code l = (if \<exists>g. bt_get (got tables) g = Some l then body (THE g. bt_get (got tables) g = Some l) else None)" for l
  have at: "code l = body g" if "bt_get (got tables) g = Some l" for g l
  proof -
    have "(THE g. bt_get (got tables) g = Some l) = g"
      using that by (intro the_equality inj_onD [OF inj]) auto
    with that show ?thesis by (auto simp: code_def)
  qed
  have all: "\<exists>l is ip. bt_get (got tables) g = Some l \<and> ops_code (call_op_code tables (param_offsets n)) ops = Some is
      \<and> code l = Some (normal_form (leaf_code (mov_rr_code ic) n is @ [RET]))
      \<and> emitted_at ic am l (normal_form (leaf_code (mov_rr_code ic) n is @ [RET])) ip
      \<and> function_entry_point (the_module am) (ByIndex g) = Some ip" if g: "P g = Some (n, ops)" for g n ops
    using placed [rule_format, OF g] at g by (fastforce simp: placed_body_def body_def)
  then have "compiled_program tables (mov_rr_code ic) code P H"
    unfolding compiled_program_def using decl closed by blast
  moreover have "\<exists>ip. emitted_at ic am l is ip" if l: "code l = Some is" for l "is"
  proof -
    from l obtain g where g: "bt_get (got tables) g = Some l" unfolding code_def by (meson option.distinct(1))
    with at l have "body g = Some is" by metis
    then obtain n ops where "P g = Some (n, ops)" by (auto simp: body_def Option.bind_eq_Some_conv)
    from all [OF this] g l show ?thesis by auto
  qed
  moreover have "\<exists>l is ip. bt_get (got tables) g = Some l \<and> code l = Some is
      \<and> emitted_at ic am l is ip \<and> function_entry_point (the_module am) (ByIndex g) = Some ip" if "P g \<noteq> None" for g
  proof -
    from that obtain n ops where "P g = Some (n, ops)" by auto
    from all [OF this] show ?thesis by blast
  qed
  ultimately show ?thesis by blast
qed

text \<open>All of it for a module: the code map, and the slots of the imports.\<close>

lemma module_program_code:
  assumes "delivers wp (new_parser wp) module False payloads" and "compile True ic wp module = Some (Ok am)"
    and "fits ic wp payloads" and "program_of payloads P H" and "host_of payloads (the_module am) H"
  shows "\<exists>cs0 cs tables code. initial_state ic wp = Ok cs0 \<and> handle_all True ic wp cs0 payloads = Ok cs \<and> tables = c_tables cs
    \<and> compiled_program tables (mov_rr_code ic) code P H
    \<and> (\<forall>l is. code l = Some is \<longrightarrow> (\<exists>ip. emitted_at ic am l is ip))
    \<and> (\<forall>g. P g \<noteq> None \<longrightarrow> (\<exists>l is ip. bt_get (got tables) g = Some l \<and> code l = Some is
         \<and> emitted_at ic am l is ip \<and> function_entry_point (the_module am) (ByIndex g) = Some ip))"
proof -
  from module_program_placed [OF assms] obtain cs0 cs tables where
    cs: "initial_state ic wp = Ok cs0" "handle_all True ic wp cs0 payloads = Ok cs" "tables = c_tables cs"
    and decl: "declared tables P H" and inj: "inj_on (bt_get (got tables)) (dom (bt_get (got tables)))"
    and placed: "\<forall>g n ops. P g = Some (n, ops) \<longrightarrow> placed_body ic am tables g n ops" by (elim exE conjE)
  have "\<forall>g n ops g'. P g = Some (n, ops) \<longrightarrow> Call g' \<in> set ops \<longrightarrow> arity P H g' \<noteq> None"
    using assms(4) unfolding program_of_def by blast
  from cs placed_code_map [OF inj decl placed this] show ?thesis by blast
qed

lemma program_returns:
  assumes "compiled_program tables enc code P H" and "order_free P" and "P g = Some (n, ops)" and "bt_get (got tables) g = Some l"
    and "stack_size env < 2 ^ 59" and "b \<le> stack_size env" and "regs s RSP = down (stack_top env) b"
    and "linked_imports env (import_slot tables) H s"
    and "wasm_call P H depth g (stack_size env - b) (arguments n s) = Some v"
  shows "returns_from (linked code ra env depth) l s v"
  using linked_returns [OF assms(1,5), of ra depth] assms(3,4,6-9)
  unfolding calls_return_def linked_stack linked_imports_linked compiled_call_wasm [OF assms(2)] by metis

text \<open>A function of such a program, called through an address, is an imported function for others.\<close>

lemma program_hosts:
  assumes "compiled_program tables enc code P Map.empty" and "order_free P" and "P g = Some (n, ops)"
    and "bt_get (got tables) g = Some l" and "stack_size env < 2 ^ 59"
    and "stack_top env' = stack_top env" and "stack_size env' = stack_size env"
    and "call_at env' a = call_to (linked code ra env depth) l"
  shows "host_at env' a n (wasm_call P Map.empty depth g)"
  unfolding host_at_def
proof (intro allI impI)
  fix s b v
  assume "regs s RSP = down (stack_top env') b" "b \<le> stack_size env'"
    "wasm_call P Map.empty depth g (stack_size env' - b) (arguments n s) = Some v"
  with assms(6,7) have "returns_from (linked code ra env depth) l s v"
    by (intro program_returns [OF assms(1-5)]) (simp_all add: linked_imports_def)
  with assms(6-8) show "returns_by (call_at env' a) env' s v"
    by (simp add: returns_from_def returns_by_def dead_def)
qed

end
