(* ===== verification/Program_Total.thy ===== *)
theory Program_Total
  imports Program_Compiled
begin

text \<open>
  Programs that return. A body that is validated and calls only functions which return, returns when the
  stack has room; a program whose functions call each other without recursion returns at a depth, and on a
  stack of a size, that can be computed beforehand.
\<close>

section \<open>Validated bodies\<close>

text \<open>The height of the operand stack after an operator, in a function with \<open>n\<close> parameters: what validation computes for
  the operators with 64-bit operands. \<open>ar\<close> is the number of parameters of a called function.\<close>

fun height_after :: "(nat \<Rightarrow> nat option) \<Rightarrow> nat \<Rightarrow> operator \<Rightarrow> nat \<Rightarrow> nat option" where
  "height_after ar n (I64Const v) k = Some (Suc k)"
| "height_after ar n I64Add k = (if 2 \<le> k then Some (k - 1) else None)"
| "height_after ar n I64Sub k = (if 2 \<le> k then Some (k - 1) else None)"
| "height_after ar n Nop k = Some k"
| "height_after ar n End k = Some k"
| "height_after ar n (LocalGet i) k = (if i < n then Some (Suc k) else None)"
| "height_after ar n (LocalSet i) k = (if i < n \<and> 1 \<le> k then Some (k - 1) else None)"
| "height_after ar n (Call g) k =
     (case ar g of None \<Rightarrow> None | Some m \<Rightarrow> if m \<le> k then Some (Suc (k - m)) else None)"
| "height_after ar n _ k = None"

fun heights :: "(nat \<Rightarrow> nat option) \<Rightarrow> nat \<Rightarrow> operator list \<Rightarrow> nat \<Rightarrow> nat option" where
  "heights ar n [] k = Some k"
| "heights ar n (op # ops) k = Option.bind (height_after ar n op k) (heights ar n ops)"

lemma height_after_le: "height_after ar n op k = Some k' \<Longrightarrow> k' \<le> Suc k"
  by (cases "(ar, n, op, k)" rule: height_after.cases) (auto split: if_splits option.splits)

text \<open>A callee that returns with at least \<open>d\<close> free slots.\<close>

definition returns_given :: "nat \<Rightarrow> nat \<Rightarrow> (nat \<Rightarrow> u64 list \<Rightarrow> u64 option) \<Rightarrow> bool" where
  "returns_given d m fn = (\<forall>h \<ge> d. \<forall>args. length args = m \<longrightarrow> fn h args \<noteq> None)"

lemma returns_given_more: "returns_given d m fn \<Longrightarrow> d \<le> d' \<Longrightarrow> returns_given d' m fn"
  unfolding returns_given_def using order_trans [of d d'] by blast

lemma step_defined:
  assumes "height_after ar n op k = Some k'" and "length st = k" and "length ls = n" and "k + d \<le> h"
    and "\<And>g m. op = Call g \<Longrightarrow> ar g = Some m \<Longrightarrow> \<exists>fn. callees g = Some (m, fn) \<and> returns_given d m fn"
  shows "\<exists>st' ls'. call_step wasm_step callees h op (st, ls) = Some (st', ls') \<and> length st' = k' \<and> length ls' = n"
proof (cases "\<exists>g. op = Call g")
  case True
  then obtain g where Call: "op = Call g" ..
  with assms(1) obtain m where m: "ar g = Some m" "m \<le> k" "k' = Suc (k - m)" by (auto split: option.splits if_splits)
  from assms(5) [OF Call m(1)] obtain fn where fn: "callees g = Some (m, fn)" "returns_given d m fn" by blast
  have "d \<le> h - length (drop m st)" "length (rev (take m st)) = m" using assms(2,4) m(2) by simp_all
  with fn(2) obtain v where "fn (h - length (drop m st)) (rev (take m st)) = Some v" unfolding returns_given_def by blast
  with Call fn(1) m assms(2,3) show ?thesis by simp
next
  case False
  have two: "\<exists>x y zs. st = x # y # zs" if "2 \<le> length st"
    using that by (cases st rule: remdups_adj.cases) auto
  from False assms(1-3) two show ?thesis
    by (cases op) (auto simp: not_call split: if_splits, (cases st; auto)?)
qed

lemma run_defined:
  assumes "\<And>g m. Call g \<in> set ops \<Longrightarrow> ar g = Some m \<Longrightarrow> \<exists>fn. callees g = Some (m, fn) \<and> returns_given d m fn"
    and "heights ar n ops k = Some k'" and "length st = k" and "length ls = n" and "k + length ops + d \<le> h"
  shows "\<exists>st' ls'. run_ops (call_step wasm_step callees h) h ops (st, ls) = Some (st', ls') \<and> length st' = k'"
  using assms
proof (induction ops arbitrary: k st ls)
  case (Cons op ops)
  then obtain k1 where k1: "height_after ar n op k = Some k1" "heights ar n ops k1 = Some k'"
    by (auto simp: Option.bind_eq_Some_conv)
  from step_defined [OF k1(1) Cons.prems(3,4), of d h callees] Cons.prems(1,5) obtain st1 ls1 where
    one: "call_step wasm_step callees h op (st, ls) = Some (st1, ls1)" "length st1 = k1" "length ls1 = n" by auto
  have "k1 + length ops + d \<le> h" using height_after_le [OF k1(1)] Cons.prems(5) by simp
  with Cons.IH [OF _ k1(2) one(2,3)] Cons.prems(1) obtain st' ls' where
    "run_ops (call_step wasm_step callees h) h ops (st1, ls1) = Some (st', ls')" "length st' = k'" by auto
  with one \<open>k1 + length ops + d \<le> h\<close> show ?case by simp
qed simp

section \<open>Programs without recursion\<close>

definition validated :: "program \<Rightarrow> host \<Rightarrow> bool" where
  "validated P H = (\<forall>g n ops. P g = Some (n, ops) \<longrightarrow> heights (arity P H) n ops 0 = Some 1)"

text \<open>A function calls only functions of a lower level.\<close>

definition ranked :: "program \<Rightarrow> (nat \<Rightarrow> nat) \<Rightarrow> bool" where
  "ranked P level = (\<forall>g n ops g'. P g = Some (n, ops) \<longrightarrow> Call g' \<in> set ops \<longrightarrow> P g' \<noteq> None \<longrightarrow> level g' < level g)"

text \<open>Every imported function returns if it gets \<open>d\<close> slots.\<close>

definition hosts_return :: "nat \<Rightarrow> host \<Rightarrow> bool" where
  "hosts_return d H = (\<forall>g n fn. H g = Some (n, fn) \<longrightarrow> returns_given d n fn)"

text \<open>How many slots are enough for a call: return address, frame pointer, parameters, one for each operator, and
  what the callees need.\<close>

fun called :: "operator list \<Rightarrow> nat list" where
  "called [] = []"
| "called (Call g # ops) = g # called ops"
| "called (_ # ops) = called ops"

fun room_for :: "program \<Rightarrow> nat \<Rightarrow> nat \<Rightarrow> nat \<Rightarrow> nat" where
  "room_for P d 0 g = d"
| "room_for P d (Suc depth) g =
     (case P g of None \<Rightarrow> d
      | Some (n, ops) \<Rightarrow> n + 2 + length ops + foldr max (map (room_for P d depth) (called ops)) d)"

lemma Call_called: "Call g \<in> set ops \<Longrightarrow> g \<in> set (called ops)"
  by (induction ops rule: called.induct) auto

lemma foldr_max_bounds: "(d :: nat) \<le> foldr max xs d" "x \<in> set xs \<Longrightarrow> x \<le> foldr max xs d"
  by (induction xs) auto

lemma wasm_call_returns:
  assumes valid: "validated P H" and levels: "ranked P level" and hosts: "hosts_return d H"
    and "P g = Some (n, ops)" and "level g < depth"
  shows "returns_given (room_for P d depth g) n (wasm_call P H depth g)"
  using assms(4,5)
proof (induction depth arbitrary: g n ops)
  case (Suc depth)
  let ?callees = "callee P H (wasm_call P H depth)" and ?d = "foldr max (map (room_for P d depth) (called ops)) d"
  have callees: "\<exists>fn. ?callees g' = Some (m, fn) \<and> returns_given ?d m fn"
    if call: "Call g' \<in> set ops" and ar: "arity P H g' = Some m" for g' m
  proof (cases "P g'")
    case None
    with ar hosts obtain fn where fn: "?callees g' = Some (m, fn)" "returns_given d m fn"
      by (auto simp: arity_def callee_def hosts_return_def)
    with returns_given_more [OF fn(2) foldr_max_bounds(1)] show ?thesis by blast
  next
    case (Some x)
    with ar obtain ops' where P': "P g' = Some (m, ops')" by (cases x) (auto simp: arity_def)
    have "level g' < depth" using levels Suc.prems call P' unfolding ranked_def by fastforce
    note ret = Suc.IH [OF P' this]
    have "room_for P d depth g' \<le> ?d" using Call_called [OF call] by (intro foldr_max_bounds(2)) simp
    from returns_given_more [OF ret this] P' show ?thesis by (simp add: callee_def)
  qed
  have "wasm_call P H (Suc depth) g h args \<noteq> None" if h: "n + 2 + length ops + ?d \<le> h" and args: "length args = n" for h args
  proof -
    have "heights (arity P H) n ops 0 = Some 1" using valid Suc.prems(1) by (simp add: validated_def)
    moreover have "0 + length ops + ?d \<le> h - 2 - n" using h by linarith
    ultimately obtain st ls where
      "run_ops (call_step wasm_step ?callees (h - 2 - n)) (h - 2 - n) ops ([], args) = Some (st, ls)" "length st = 1"
      using run_defined [of ops "arity P H" ?callees ?d n 0 1 "[]" args "h - 2 - n", OF callees] args by auto
    moreover from this(2) obtain v where "st = [v]" by (auto simp: length_Suc_conv)
    ultimately show ?thesis using Suc.prems(1) h args by (simp add: wasm_call_def)
  qed
  then show ?case using Suc.prems(1) by (simp add: returns_given_def)
qed simp

end
