(* ===== verification/Module_Contents.thy ===== *)
theory Module_Contents
  imports Finish_Sound
begin

text \<open>
  What a compiled module (\<open>src/parawasm/src/x86_64/mod.rs\<close>) says about the WebAssembly module it
  came from: its memories, and the functions its exports name.
\<close>

fun item_list :: "'a item \<Rightarrow> 'a list" where
  "item_list (Inr x) = [x]"
| "item_list (Inl e) = []"

fun declared_memories :: "payload list \<Rightarrow> memory_type list" where
  "declared_memories [] = []"
| "declared_memories (P_MemorySection ms # ps) = concat (map item_list ms) @ declared_memories ps"
| "declared_memories (_ # ps) = declared_memories ps"

fun declared_exports :: "payload list \<Rightarrow> export_entry list" where
  "declared_exports [] = []"
| "declared_exports (P_ExportSection es # ps) = concat (map item_list es) @ declared_exports ps"
| "declared_exports (_ # ps) = declared_exports ps"

text \<open>The last export of a name, whatever it exports.\<close>

definition export_index :: "export_entry list \<Rightarrow> string \<Rightarrow> nat option" where
  "export_index es = map_of (map (\<lambda>e. (ex_field e, ex_index e)) (rev es))"

definition contents :: "'v cstate \<Rightarrow> memory_type list \<Rightarrow> export_entry list \<Rightarrow> bool" where
  "contents cs ms es = (m_memories (c_module cs) = ms \<and> bt_get (m_exports (c_module cs)) = export_index es)"

lemma contents_same:
  "contents cs ms es \<Longrightarrow> m_memories (c_module cs') = m_memories (c_module cs) \<Longrightarrow>
     m_exports (c_module cs') = m_exports (c_module cs) \<Longrightarrow> contents cs' ms es"
  by (simp add: contents_def)

lemma contents_quiet:
  "contents cs ms es \<Longrightarrow> validate wp p cs = Ok cs' \<Longrightarrow> contents cs' ms es"
  "contents cs ms es \<Longrightarrow> on_import True ic cs i = Ok cs' \<Longrightarrow> contents cs' ms es"
  "contents cs ms es \<Longrightarrow> on_function True ic cs f = Ok cs' \<Longrightarrow> contents cs' ms es"
  "contents cs ms es \<Longrightarrow> on_code True ic wp body cs = Ok cs' \<Longrightarrow> contents cs' ms es"
  by (auto elim!: contents_same simp: validate_def res_simps dest: on_import_Ok on_function_Ok on_code_Ok)

lemma contents_type:
  assumes "contents cs ms es" and "on_type True cs t = Ok cs'"
  shows "contents cs' ms es"
proof -
  from assms(2) obtain d where "lift_reader t = Ok d" by (auto simp: on_type_def res_simps)
  with assms show ?thesis by (cases d) (auto simp: on_type_def res_simps elim: contents_same)
qed

lemma contents_memory: "contents cs ms es \<Longrightarrow> on_memory cs m = Ok cs' \<Longrightarrow> contents cs' (ms @ item_list m) es"
  by (cases m) (auto simp: on_memory_def contents_def res_simps)

lemma contents_export: "contents cs ms es \<Longrightarrow> on_export cs e = Ok cs' \<Longrightarrow> contents cs' ms (es @ item_list e)"
  by (cases e) (auto simp: on_export_def contents_def export_index_def res_simps bt_get_upd)

lemma section_contents:
  assumes "and_then (validate wp p cs) (\<lambda>cs. foldM f cs xs) = Ok cs'" and "contents cs ms es"
    and step: "\<And>cs x cs' ms es. contents cs ms es \<Longrightarrow> f cs x = Ok cs' \<Longrightarrow> contents cs' (ms @ g x) (es @ h x)"
  shows "contents cs' (ms @ concat (map g xs)) (es @ concat (map h xs))"
proof -
  have loop: "foldM f cs xs = Ok cs' \<Longrightarrow> contents cs ms es \<Longrightarrow>
      contents cs' (ms @ concat (map g xs)) (es @ concat (map h xs))" for cs ms es
  proof (induction xs arbitrary: cs ms es)
    case (Cons x xs)
    then obtain cs1 where "f cs x = Ok cs1" "foldM f cs1 xs = Ok cs'" by (auto simp: res_simps)
    with Cons.IH step Cons.prems(2) show ?case by fastforce
  qed simp
  from assms(1) obtain cs1 where "validate wp p cs = Ok cs1" "foldM f cs1 xs = Ok cs'" by (auto simp: res_simps)
  with loop contents_quiet(1) [OF assms(2)] show ?thesis by blast
qed

lemma handle_payload_contents:
  assumes "handle_payload True ic wp p cs = Ok cs'" and c: "contents cs ms es"
  shows "contents cs' (ms @ declared_memories [p]) (es @ declared_exports [p])"
proof (cases p)
  case (P_MemorySection xs)
  have "contents cs' (ms @ concat (map item_list xs)) (es @ concat (map (\<lambda>_. []) xs))"
    by (rule section_contents [OF _ c, of wp p on_memory xs]) (use assms(1) P_MemorySection contents_memory in auto)
  with P_MemorySection show ?thesis by simp
next
  case (P_ExportSection xs)
  have "contents cs' (ms @ concat (map (\<lambda>_. []) xs)) (es @ concat (map item_list xs))"
    by (rule section_contents [OF _ c, of wp p on_export xs]) (use assms(1) P_ExportSection contents_export in auto)
  with P_ExportSection show ?thesis by simp
next
  case (P_TypeSection xs)
  have "contents cs' (ms @ concat (map (\<lambda>_. []) xs)) (es @ concat (map (\<lambda>_. []) xs))"
    by (rule section_contents [OF _ c, of wp p "on_type True" xs]) (use assms(1) P_TypeSection contents_type in auto)
  with P_TypeSection show ?thesis by simp
next
  case (P_ImportSection xs)
  have "contents cs' (ms @ concat (map (\<lambda>_. []) xs)) (es @ concat (map (\<lambda>_. []) xs))"
    by (rule section_contents [OF _ c, of wp p "on_import True ic" xs])
      (use assms(1) P_ImportSection contents_quiet(2) in auto)
  with P_ImportSection show ?thesis by simp
next
  case (P_FunctionSection xs)
  have "contents cs' (ms @ concat (map (\<lambda>_. []) xs)) (es @ concat (map (\<lambda>_. []) xs))"
    by (rule section_contents [OF _ c, of wp p "on_function True ic" xs])
      (use assms(1) P_FunctionSection contents_quiet(3) in auto)
  with P_FunctionSection show ?thesis by simp
next
  case (P_CodeSectionEntry body)
  with assms contents_quiet(4) show ?thesis by auto
next
  case P_ModuleSectionEntry
  with assms show ?thesis by (auto elim: contents_same)
qed (use assms contents_quiet(1) [OF c] in simp_all)

lemma handle_all_contents:
  "handle_all True ic wp cs ps = Ok cs' \<Longrightarrow> contents cs ms es \<Longrightarrow>
     contents cs' (ms @ declared_memories ps) (es @ declared_exports ps)"
proof (induction ps arbitrary: cs ms es)
  case (Cons p ps)
  then obtain cs1 where cs1: "handle_payload True ic wp p cs = Ok cs1" "handle_all True ic wp cs1 ps = Ok cs'"
    by (auto simp: res_simps)
  have "declared_memories [p] @ declared_memories ps = declared_memories (p # ps)"
    "declared_exports [p] @ declared_exports ps = declared_exports (p # ps)" by (cases p; simp)+
  with Cons.IH [OF cs1(2) handle_payload_contents [OF cs1(1) Cons.prems(2)]] show ?case by simp
qed simp

lemma module_contents:
  assumes "delivers wp (new_parser wp) module False payloads" and "compile True ic wp module = Some (Ok am)"
    and "fits ic wp payloads"
  shows "m_memories (the_module am) = declared_memories payloads
    \<and> bt_get (m_exports (the_module am)) = export_index (declared_exports payloads)"
proof -
  from compile_delivered [OF assms(1,2)] obtain cs0 cs where run: "initial_state ic wp = Ok cs0"
    "handle_all True ic wp cs0 payloads = Ok cs" "finish_module ic cs = Ok am" by blast
  have "bt_get [] = export_index []" by (rule ext) (simp add: export_index_def)
  then have "contents cs0 [] []"
    using run(1) by (auto simp: initial_state_def new_module_def contents_def res_simps)
  from handle_all_contents [OF run(2) this]
  have c: "contents cs (declared_memories payloads) (declared_exports payloads)" by simp
  have "compile_inv ic wp cs (code_bodies payloads)"
    using handle_all_inv [OF run(2) initial_inv [OF run(1)]] by simp
  then have "indices_ok (c_label_indices cs)"
    using assms(3) run(1,2) by (auto simp: compile_inv_def code_inv_def fits_def intro: indices_ok_placed)
  from finish_keeps [OF run(3) this] c show ?thesis by (simp add: other_fields_def contents_def)
qed

end
