(* ===== verification/Dump_Asm.thy ===== *)
theory Dump_Asm
  imports Wasm_Module
begin

text \<open>
  \<open>AssembledModule::dump_asm\<close> of \<open>src/parawasm/src/x86_64/mod.rs\<close> (feature \<open>test\<close>), which the test
  emulator calls before it runs a function: it prints the disassembled code from the
  first function on. The decoder and the formatter of the package \<open>iced-x86\<close> are the parameter
  \<open>dis\<close>, the list of the instructions decoded from some bytes. The result is the printed text, or
  a panic: slices are bounds checked, and additions on addresses are checked or wrap.
\<close>

section \<open>The code\<close>

record decoded =
  d_ip :: u64
  d_len :: nat
  d_call :: bool                    \<comment> \<open>the mnemonic is \<open>Call\<close>\<close>
  d_displacement :: u64
  d_text :: string                  \<comment> \<open>what the formatter writes\<close>

text \<open>\<open>{}\<close>, \<open>{:X}\<close> on numbers, and padding with zeros.\<close>

definition digit :: "nat \<Rightarrow> char" where
  "digit n = char_of (if n < 10 then 48 + n else 55 + n)"

fun radix :: "nat \<Rightarrow> nat \<Rightarrow> string" where
  "radix b n = (if b < 2 \<or> n < b then [digit n] else radix b (n div b) @ [digit (n mod b)])"

declare radix.simps [simp del]

definition hex :: "nat \<Rightarrow> nat \<Rightarrow> string" where
  "hex width n = (let s = radix 16 n in replicate (width - length s) (CHR ''0'') @ s)"

definition first_function :: "wasm_module \<Rightarrow> nat" where
  "first_function m = (case map snd (m_function_bodies m) of [] \<Rightarrow> 0 | v # vs \<Rightarrow> fold min vs v)"

text \<open>The line with the name or the number of a function that begins at the instruction.\<close>

definition function_line :: "wasm_module \<Rightarrow> u64 \<Rightarrow> string" where
  "function_line m ip =
     (case find (\<lambda>(_, v). of_nat v - of_nat (first_function m) = ip) (m_function_bodies m) of
        None \<Rightarrow> ''''
      | Some (index, _) \<Rightarrow>
          (case find (\<lambda>(_, v). v = index) (m_exports m) of
             Some (name, _) \<Rightarrow> name
           | None \<Rightarrow> radix 10 index) @ '':'' @ [CHR 0x0A])"

definition dump_instruction :: "bool \<Rightarrow> wasm_module \<Rightarrow> u64 \<Rightarrow> u8 list \<Rightarrow> decoded \<Rightarrow> ('e, string) res" where
  "dump_instruction checks m off code d =
     and_then (u64_add checks (d_ip d) off) (\<lambda>sum.
     and_then (u64_add checks sum (of_nat (first_function m))) (\<lambda>address.
     and_then (if d_call d \<and> 0 < d_displacement d
               then and_then (u64_add checks off (d_displacement d)) (\<lambda>sum.
                    and_then (u64_add checks sum (of_nat (first_function m))) (\<lambda>target.
                    Ok ('' // -> '' @ hex 16 (unat target))))
               else Ok '''') (\<lambda>target.
     and_then (slice_range (unat (d_ip d)) (unat (d_ip d) + d_len d) code) (\<lambda>instr_bytes.
     Ok (function_line m (d_ip d) @ ''  '' @ hex 16 (unat address) @ '' '' @ d_text d @ target @ '' ( ''
         @ concat (map (\<lambda>b. hex 2 (unat b) @ '' '') instr_bytes) @ '')'' @ [CHR 0x0A])))))"

definition dump_asm :: "bool \<Rightarrow> (u8 list \<Rightarrow> decoded list) \<Rightarrow> assembled_module \<Rightarrow> u64 \<Rightarrow> ('e, string) res" where
  "dump_asm checks dis am off =
     and_then (slice_from (first_function (the_module am)) (binary am)) (\<lambda>code.
     foldM (\<lambda>out d. and_then (dump_instruction checks (the_module am) off code d) (\<lambda>s. Ok (out @ s))) '''' (dis code))"

section \<open>What is printed\<close>

text \<open>A decoder goes through the bytes one instruction after the other and uses all of them.\<close>

fun tiles :: "nat \<Rightarrow> decoded list \<Rightarrow> u8 list \<Rightarrow> bool" where
  "tiles pos [] code = (pos = length code)"
| "tiles pos (d # ds) code = (unat (d_ip d) = pos \<and> 0 < d_len d \<and> pos + d_len d \<le> length code \<and> tiles (pos + d_len d) ds code)"

lemma tiles_le: "tiles pos ds code \<Longrightarrow> pos \<le> length code"
  by (induction pos ds code rule: tiles.induct) auto

lemma first_function_least: "(i, v) \<in> set (m_function_bodies m) \<Longrightarrow> first_function m \<le> v"
proof -
  have "fold min vs a \<le> a \<and> (\<forall>v \<in> set vs. fold min vs a \<le> v)" for vs :: "nat list" and a
    by (induction vs arbitrary: a) (auto, (metis min.bounded_iff)+)
  then show "(i, v) \<in> set (m_function_bodies m) \<Longrightarrow> ?thesis"
    by (fastforce simp: first_function_def split: list.splits)
qed

lemma dump_instruction_total:
  assumes "unat off + unat (d_ip d) + first_function m < 2 ^ 64" and "unat (d_ip d) + d_len d \<le> length code"
    and "d_call d \<Longrightarrow> unat off + unat (d_displacement d) + first_function m < 2 ^ 64"
  shows "\<exists>shown. dump_instruction checks m off code d = Ok (shown @ '' ( ''
    @ concat (map (\<lambda>b. hex 2 (unat b) @ '' '') (take (d_len d) (drop (unat (d_ip d)) code))) @ '')'' @ [CHR 0x0A])"
proof -
  have f: "unat (of_nat (first_function m) :: u64) = first_function m"
    using assms(1) by (simp add: unat_of_nat)
  let ?target = "if d_call d \<and> 0 < d_displacement d
      then '' // -> '' @ hex 16 (unat (off + d_displacement d + of_nat (first_function m))) else []"
  have "dump_instruction checks m off code d = Ok ((function_line m (d_ip d) @ ''  ''
      @ hex 16 (unat (d_ip d + off + of_nat (first_function m))) @ '' '' @ d_text d @ ?target) @ '' ( ''
      @ concat (map (\<lambda>b. hex 2 (unat b) @ '' '') (take (d_len d) (drop (unat (d_ip d)) code))) @ '')'' @ [CHR 0x0A])"
    using assms f by (cases "d_call d") (simp_all add: dump_instruction_def arith_simps unat_add_in_range)
  then show ?thesis by blast
qed

text \<open>The dump of a module whose code the decoder covers succeeds and shows all of its bytes from
  the first function on, in order, an instruction on each line.\<close>

lemma dump_asm_shows_code:
  assumes "first_function (the_module am) \<le> length (binary am)"
    and "tiles 0 (dis (drop (first_function (the_module am)) (binary am))) (drop (first_function (the_module am)) (binary am))"
    and "unat off + length (binary am) < 2 ^ 64"
    and "\<forall>d \<in> set (dis (drop (first_function (the_module am)) (binary am))).
        unat off + unat (d_displacement d) + first_function (the_module am) < 2 ^ 64"
  shows "\<exists>ls. (dump_asm checks dis am off :: ('e, string) res) = Ok (concat (map (\<lambda>(shown, bytes).
      shown @ '' ( '' @ concat (map (\<lambda>b. hex 2 (unat b) @ '' '') bytes) @ '')'' @ [CHR 0x0A]) ls))
    \<and> concat (map snd ls) = drop (first_function (the_module am)) (binary am)"
proof -
  let ?m = "the_module am" and ?code = "drop (first_function (the_module am)) (binary am)"
  let ?line = "\<lambda>(shown, bytes). shown @ '' ( '' @ concat (map (\<lambda>b. hex 2 (unat b) @ '' '') bytes) @ '')'' @ [CHR 0x0A]"
  define step :: "string \<Rightarrow> decoded \<Rightarrow> ('e, string) res" where
    "step out d = and_then (dump_instruction checks ?m off ?code d) (\<lambda>s. Ok (out @ s))" for out d
  have "\<exists>ls. foldM step out ds = Ok (out @ concat (map ?line ls)) \<and> concat (map snd ls) = drop pos ?code"
    if "tiles pos ds ?code" "\<forall>d \<in> set ds. unat off + unat (d_displacement d) + first_function ?m < 2 ^ 64" for ds pos out
    using that
  proof (induction ds arbitrary: pos out)
    case Nil
    then show ?case by (auto intro!: exI [of _ "[]"])
  next
    case (Cons d ds)
    let ?bytes = "take (d_len d) (drop pos ?code)"
    have "unat off + unat (d_ip d) + first_function ?m < 2 ^ 64" "unat (d_ip d) + d_len d \<le> length ?code"
      using Cons.prems(1) assms(1,3) by auto
    then have "\<exists>shown. (dump_instruction checks ?m off ?code d :: ('e, string) res) = Ok (?line (shown, ?bytes))"
      using dump_instruction_total [of off d ?m ?code checks] Cons.prems by simp
    then obtain shown where d: "step out d = Ok (out @ ?line (shown, ?bytes))" by (auto simp: step_def)
    have "tiles (pos + d_len d) ds ?code"
      "\<forall>d \<in> set ds. unat off + unat (d_displacement d) + first_function ?m < 2 ^ 64" using Cons.prems by auto
    from Cons.IH [OF this] obtain ls where
      ls: "foldM step (out @ ?line (shown, ?bytes)) ds = Ok ((out @ ?line (shown, ?bytes)) @ concat (map ?line ls))"
      "concat (map snd ls) = drop (pos + d_len d) ?code" by blast
    have "?bytes @ drop (pos + d_len d) ?code = drop pos ?code"
      by (metis add.commute append_take_drop_id drop_drop)
    with d ls show ?case by (intro exI [of _ "(shown, ?bytes) # ls"]) simp
  qed
  from this [OF assms(2,4), of "[]"] assms(1) show ?thesis
    by (simp add: dump_asm_def step_def [abs_def])
qed

end
