(* ===== verification/State_Result.thy ===== *)
theory State_Result
  imports Para_Prelude
begin

text \<open>
  Methods on \<open>&mut self\<close> that return a \<open>Result\<close>: a computation changes the state and ends with a
  value, an error or a panic. What was done before an error stays done.
  \<open>seq\<close> is sequencing with \<open>?\<close> after the first computation.
\<close>

type_synonym ('s, 'e, 'a) mut_method = "'s \<Rightarrow> ('e, 'a) res \<times> 's"

definition give :: "'a \<Rightarrow> ('s, 'e, 'a) mut_method" where
  "give x = (\<lambda>s. (Ok x, s))"

definition seq :: "('s, 'e, 'a) mut_method \<Rightarrow> ('a \<Rightarrow> ('s, 'e, 'b) mut_method) \<Rightarrow> ('s, 'e, 'b) mut_method" where
  "seq m f = (\<lambda>s. case m s of
     (Ok x, s') \<Rightarrow> f x s'
   | (Err er, s') \<Rightarrow> (Err er, s')
   | (Panic p, s') \<Rightarrow> (Panic p, s'))"

text \<open>Reading the state, changing it, and a computation that does not touch it.\<close>

definition look :: "('s \<Rightarrow> 'a) \<Rightarrow> ('s, 'e, 'a) mut_method" where
  "look f = (\<lambda>s. (Ok (f s), s))"

definition alter :: "('s \<Rightarrow> 's) \<Rightarrow> ('s, 'e, unit) mut_method" where
  "alter f = (\<lambda>s. (Ok (), f s))"

definition pure :: "('e, 'a) res \<Rightarrow> ('s, 'e, 'a) mut_method" where
  "pure r = (\<lambda>s. (r, s))"

text \<open>A loop over a list, stopped by the first error.\<close>

fun each :: "('b \<Rightarrow> ('s, 'e, unit) mut_method) \<Rightarrow> 'b list \<Rightarrow> ('s, 'e, unit) mut_method" where
  "each f [] = give ()"
| "each f (x # xs) = seq (f x) (\<lambda>_. each f xs)"

lemma method_simps [simp]:
  "give x s = (Ok x, s)" "look f s = (Ok (f s), s)" "alter g s = (Ok (), g s)" "pure r s = (r, s)"
  by (simp_all add: give_def look_def alter_def pure_def)

lemma seq_Ok_iff [res_simps]: "(seq m f s = (Ok y, s')) = (\<exists>x s1. m s = (Ok x, s1) \<and> f x s1 = (Ok y, s'))"
  by (auto simp: seq_def split: prod.splits res.splits)

lemma seq_Ok: "m s = (Ok x, s1) \<Longrightarrow> seq m f s = f x s1"
  by (simp add: seq_def)

lemma seq_fails: "m s = (r, s1) \<Longrightarrow> \<not> is_ok r \<Longrightarrow> snd (seq m f s) = s1"
  by (cases r) (simp_all add: seq_def)

lemma seq_simps [simp]:
  "seq (give x) f s = f x s" "seq (look g) f s = f (g s) s" "seq (alter h) k s = k () (h s)"
  "seq (pure (Ok x)) f s = f x s" "seq (pure (Panic p)) f s = (Panic p, s)" "seq (pure (Err er)) f s = (Err er, s)"
  by (simp_all add: seq_def)

text \<open>A relation between the states before and after: when it is reflexive and transitive, what every
  step of a method keeps, whether it succeeds or fails, the method keeps.\<close>

definition keeps :: "('s \<Rightarrow> 's \<Rightarrow> bool) \<Rightarrow> ('s, 'e, 'a) mut_method \<Rightarrow> bool" where
  "keeps R m = (\<forall>s. R s (snd (m s)))"

lemma keeps_option:
  "keeps R m \<Longrightarrow> (\<And>x. keeps R (f x)) \<Longrightarrow> keeps R (case v of None \<Rightarrow> m | Some x \<Rightarrow> f x)"
  by (cases v) simp_all

locale kept_relation =
  fixes R :: "'s \<Rightarrow> 's \<Rightarrow> bool"
  assumes refl: "R s s"
    and trans: "R s s1 \<Longrightarrow> R s1 s2 \<Longrightarrow> R s s2"
begin

lemma keeps_pure: "keeps R (pure r)" "keeps R (give x)" "keeps R (look f)"
  by (simp_all add: keeps_def refl)

lemma keeps_seq:
  assumes "keeps R m" and "\<And>x. keeps R (f x)"
  shows "keeps R (seq m f)"
proof -
  have "R s (snd (seq m f s))" for s
  proof (cases "m s")
    case (Pair r s1)
    with assms(1) have "R s s1" by (metis keeps_def snd_conv)
    with Pair assms(2) show ?thesis
      by (cases r) (auto simp: seq_def keeps_def intro: trans)
  qed
  then show ?thesis by (simp add: keeps_def)
qed

lemma keeps_each: "(\<And>x. keeps R (f x)) \<Longrightarrow> keeps R (each f xs)"
  by (induction xs) (simp_all add: keeps_pure keeps_seq)

lemmas keeps_rules = keeps_option keeps_seq keeps_pure keeps_each

end

end
