(* ===== verification/Emulator.thy ===== *)
theory Emulator
  imports Dump_Asm State_Result
begin

text \<open>
  The test emulator, \<open>src/parawasm_tests/src/testing.rs\<close>: compiled modules are placed one
  after the other behind a small trampoline, and a function is called by starting the
  processor emulator at the trampoline with the function's address in \<open>r10\<close>.

  The processor emulator (package \<open>unicorn_engine\<close>) is the parameter \<open>unicorn\<close>. A
  module is shared between the emulator and its user through \<open>Rc<RefCell<Module>>\<close>; the
  emulator's list of modules is the store, and a reference is a position in it (nobody
  holds a borrow across a call). What \<open>call_function\<close> prints matters only when printing
  panics (\<open>dump_asm\<close>).
\<close>

section \<open>The processor emulator as a parameter\<close>

type_synonym uc_error = string

text \<open>\<open>RegisterX86\<close>: the two registers the code names; the others by number.\<close>

datatype uc_register = UC_RSP | UC_R10 | UC_other nat

text \<open>\<open>emu_start begin until\<close> returns the addresses of the executed instructions, in order, as
  they are given to a code hook, and the outcome.\<close>

type_synonym ('u, 'a) uc_call = "'u \<Rightarrow> (uc_error + 'a) \<times> 'u"

record 'u unicorn =
  uc_new :: "uc_error + 'u"
  mem_map :: "u64 \<Rightarrow> u64 \<Rightarrow> ('u, unit) uc_call"
  mem_write :: "u64 \<Rightarrow> u8 list \<Rightarrow> ('u, unit) uc_call"
  mem_read :: "u64 \<Rightarrow> nat \<Rightarrow> ('u, u8 list) uc_call"
  reg_write :: "uc_register \<Rightarrow> u64 \<Rightarrow> ('u, unit) uc_call"
  reg_read :: "uc_register \<Rightarrow> ('u, u64) uc_call"
  add_code_hook :: "('u, unit) uc_call"
  remove_hook :: "('u, unit) uc_call"
  emu_start :: "u64 \<Rightarrow> u64 \<Rightarrow> 'u \<Rightarrow> u64 list \<times> (uc_error + unit) \<times> 'u"

section \<open>Data\<close>

text \<open>The two \<open>From\<close> conversions are the first two constructors.\<close>

datatype emu_error = EmulationError uc_error | InternalAssemblyError iced_error | FunctionNotFound

record emu_module =
  em_offset :: u64
  em_module :: assembled_module
  executed_instructions :: "(nat, nat) btree"

text \<open>\<open>hooks\<close> are the code hooks installed in the engine. Each has a copy of the list of modules
  (references) at the time it was installed; it is given by the length of that list.\<close>

record 'u emulator =
  engine :: 'u
  hooks :: "nat list"
  module_offset :: u64
  trampoline_len :: u64
  trampoline_offset :: u64
  em_modules :: "emu_module list"

type_synonym ('u, 'a) emu_method = "('u emulator, emu_error, 'a) mut_method"

definition lift_uc :: "uc_error + 'a \<Rightarrow> (emu_error, 'a) res" where
  "lift_uc x = (case x of Inl er \<Rightarrow> Err (EmulationError er) | Inr v \<Rightarrow> Ok v)"

definition on_engine :: "('u, 'a) uc_call \<Rightarrow> ('u, 'a) emu_method" where
  "on_engine call = (\<lambda>em. case call (engine em) of (r, u) \<Rightarrow> (lift_uc r, em\<lparr>engine := u\<rparr>))"

text \<open>The \<open>?\<close> operator on results of the assembler package.\<close>

fun lift_asm :: "(compile_error, 'a) res \<Rightarrow> (emu_error, 'a) res" where
  "lift_asm (Ok v) = Ok v"
| "lift_asm (Err (AssemblerError er)) = Err (InternalAssemblyError er)"
| "lift_asm (Err (WasmReaderError er)) = Panic ''unreachable''"
| "lift_asm (Panic m) = Panic m"

section \<open>Setting up\<close>

definition trampoline_code :: "iced \<Rightarrow> (compile_error, u8 list) res" where
  "trampoline_code ic = and_then (new_asm ic) (\<lambda>a. and_then (emit ic [CALL_r R10, NOP] a)
     (\<lambda>a. lift_iced (encode ic (asm_lines a))))"

text \<open>A call on an engine that is not yet part of an emulator.\<close>

definition try_uc :: "('u, 'a) uc_call \<Rightarrow> 'u \<Rightarrow> (emu_error, 'u) res" where
  "try_uc call u = (case call u of (Inl er, u') \<Rightarrow> Err (EmulationError er) | (Inr x, u') \<Rightarrow> Ok u')"

definition new_emulator :: "bool \<Rightarrow> iced \<Rightarrow> 'u unicorn \<Rightarrow> (emu_error, 'u emulator) res" where
  "new_emulator checks ic uc =
     and_then (lift_uc (uc_new uc)) (\<lambda>u.
     and_then (try_uc (mem_map uc 0 (128 * 1024 * 1024)) u) (\<lambda>u.
     and_then (lift_asm (trampoline_code ic)) (\<lambda>trampoline.
     and_then (try_uc (mem_write uc 0 trampoline) u) (\<lambda>u.
     and_then (try_uc (reg_write uc UC_RSP (128 * 1024 * 1024 - 1)) u) (\<lambda>u.
     and_then (u64_add checks 0 (of_nat (length trampoline))) (\<lambda>off.
     Ok \<lparr>engine = u, hooks = [], module_offset = off, trampoline_len = of_nat (length trampoline),
         trampoline_offset = 0, em_modules = []\<rparr>))))))"

text \<open>\<open>add_module\<close> returns the reference to the new module.\<close>

definition add_module :: "bool \<Rightarrow> 'u unicorn \<Rightarrow> assembled_module \<Rightarrow> ('u, nat) emu_method" where
  "add_module checks uc am =
     seq (look module_offset) (\<lambda>off.
     seq (on_engine (mem_write uc off (binary am))) (\<lambda>_.
     seq (pure (u64_add checks off (of_nat (length (binary am))))) (\<lambda>next_off.
     seq (look (\<lambda>em. length (em_modules em))) (\<lambda>i.
     seq (alter (\<lambda>em. em\<lparr>module_offset := next_off, em_modules := em_modules em @
       [\<lparr>em_offset = off, em_module = am, executed_instructions = []\<rparr>]\<rparr>)) (\<lambda>_.
     give i)))))"

definition update_module :: "'u unicorn \<Rightarrow> emu_module \<Rightarrow> ('u, unit) emu_method" where
  "update_module uc m = on_engine (mem_write uc (em_offset m) (binary (em_module m)))"

definition add_memory :: "bool \<Rightarrow> 'u unicorn \<Rightarrow> u8 list \<Rightarrow> ('u, u64) emu_method" where
  "add_memory checks uc mem =
     seq (look module_offset) (\<lambda>off.
     seq (on_engine (mem_write uc off mem)) (\<lambda>_.
     seq (pure (u64_add checks off (of_nat (length mem)))) (\<lambda>next_off.
     seq (alter (\<lambda>em. em\<lparr>module_offset := next_off\<rparr>)) (\<lambda>_.
     give off))))"

section \<open>Calling\<close>

text \<open>The test of \<open>find_map\<close> in the code hook, and the hook: the position of the
  matching module in the list, and the count of the instruction in it. The addition of offset
  and length does not wrap, and so does not panic either, in an emulator that satisfies the
  invariant of \<open>Emulator_Layout\<close>, as every reachable one does. The counter is a \<open>usize\<close> in the code
  and a number without bound here.\<close>

definition candidate_matches :: "u64 \<Rightarrow> emu_module \<Rightarrow> bool" where
  "candidate_matches addr m =
     (em_offset m \<le> addr \<and> addr \<le> em_offset m + of_nat (length (binary (em_module m))))"

fun matching_module :: "u64 \<Rightarrow> emu_module list \<Rightarrow> nat option" where
  "matching_module addr [] = None"
| "matching_module addr (m # ms) =
     (if candidate_matches addr m then Some 0 else map_option Suc (matching_module addr ms))"

definition count_instruction :: "nat \<Rightarrow> emu_module \<Rightarrow> emu_module" where
  "count_instruction off m =
     (case bt_get (executed_instructions m) off of
        None \<Rightarrow> m\<lparr>executed_instructions := bt_insert off 1 (executed_instructions m)\<rparr>
      | Some c \<Rightarrow> m\<lparr>executed_instructions := bt_insert off (c + 1) (executed_instructions m)\<rparr>)"

definition code_hook :: "u64 \<Rightarrow> emu_module list \<Rightarrow> nat \<Rightarrow> emu_module list" where
  "code_hook addr ms k = (case matching_module addr (take k ms) of
     None \<Rightarrow> ms
   | Some i \<Rightarrow> ms[i := count_instruction (unat (addr - em_offset (ms ! i))) (ms ! i)])"

text \<open>An instruction is executed: every installed hook is called.\<close>

definition execute_hooks :: "nat list \<Rightarrow> emu_module list \<Rightarrow> u64 \<Rightarrow> emu_module list" where
  "execute_hooks ks ms addr = foldl (code_hook addr) ms ks"

definition start_engine :: "'u unicorn \<Rightarrow> u64 \<Rightarrow> u64 \<Rightarrow> ('u, unit) emu_method" where
  "start_engine uc start_at stop_at = (\<lambda>em.
     case emu_start uc start_at stop_at (engine em) of (executed, r, u) \<Rightarrow>
       (lift_uc r, em\<lparr>engine := u, em_modules := foldl (execute_hooks (hooks em)) (em_modules em) executed\<rparr>))"

text \<open>\<open>call_function\<close>. The reference is a position in the list of modules.\<close>

definition call_function ::
  "bool \<Rightarrow> (u8 list \<Rightarrow> decoded list) \<Rightarrow> 'u unicorn \<Rightarrow> nat \<Rightarrow> function_identifier \<Rightarrow> ('u, unit) emu_method" where
  "call_function checks dis uc i identifier =
     seq (look (\<lambda>em. em_modules em ! i)) (\<lambda>m.
     seq (look trampoline_offset) (\<lambda>off.
     seq (look trampoline_len) (\<lambda>len.
     seq (pure (u64_add checks off len)) (\<lambda>dump_at.
     seq (pure (dump_asm checks dis (em_module m) dump_at)) (\<lambda>_.
     (case function_entry_point (the_module (em_module m)) identifier of
        None \<Rightarrow> pure (Err FunctionNotFound)
      | Some function_offset \<Rightarrow>
     seq (look em_modules) (\<lambda>ms.
     seq (each (update_module uc) ms) (\<lambda>_.
     seq (on_engine (add_code_hook uc)) (\<lambda>_.
     seq (alter (\<lambda>em. em\<lparr>hooks := hooks em @ [length ms]\<rparr>)) (\<lambda>_.
     seq (pure (u64_add checks (em_offset m) (of_nat function_offset))) (\<lambda>address.
     seq (on_engine (reg_write uc UC_R10 address)) (\<lambda>_.
     seq (look trampoline_offset) (\<lambda>off.
     seq (look trampoline_len) (\<lambda>len.
     seq (pure (u64_add checks off len)) (\<lambda>stop_at.
     seq (start_engine uc off stop_at) (\<lambda>_.
     seq (on_engine (remove_hook uc)) (\<lambda>_.
     alter (\<lambda>em. em\<lparr>hooks := butlast (hooks em)\<rparr>))))))))))))))))))"

section \<open>Stack and registers\<close>

text \<open>\<open>read_u64\<close> and \<open>write_u64\<close> stand for the functions of the package \<open>byteorder\<close>.\<close>

definition pop_u64 :: "bool \<Rightarrow> (u8 list \<Rightarrow> u64) \<Rightarrow> 'u unicorn \<Rightarrow> ('u, u64) emu_method" where
  "pop_u64 checks read_u64 uc =
     seq (on_engine (reg_read uc UC_RSP)) (\<lambda>stack.
     seq (on_engine (mem_read uc stack 8)) (\<lambda>buf.
     seq (pure (u64_add checks stack 8)) (\<lambda>stack.
     seq (on_engine (reg_write uc UC_RSP stack)) (\<lambda>_.
     give (read_u64 buf)))))"

definition push_u64 :: "bool \<Rightarrow> (u64 \<Rightarrow> u8 list) \<Rightarrow> 'u unicorn \<Rightarrow> u64 \<Rightarrow> ('u, unit) emu_method" where
  "push_u64 checks write_u64 uc val =
     seq (on_engine (reg_read uc UC_RSP)) (\<lambda>stack.
     seq (pure (u64_sub checks stack 8)) (\<lambda>stack.
     seq (on_engine (reg_write uc UC_RSP stack)) (\<lambda>_.
     on_engine (mem_write uc stack (write_u64 val)))))"

definition read_register :: "'u unicorn \<Rightarrow> uc_register \<Rightarrow> ('u, u64) emu_method" where
  "read_register uc r = on_engine (reg_read uc r)"

definition write_register :: "'u unicorn \<Rightarrow> uc_register \<Rightarrow> u64 \<Rightarrow> ('u, unit) emu_method" where
  "write_register uc r val = on_engine (reg_write uc r val)"

definition instruction_execution_count :: "emu_module \<Rightarrow> nat \<Rightarrow> nat" where
  "instruction_execution_count m off = (case bt_get (executed_instructions m) off of Some v \<Rightarrow> v | None \<Rightarrow> 0)"

definition module_address :: "emu_module \<Rightarrow> u64" where
  "module_address m = em_offset m"

text \<open>What \<open>Deref\<close> and \<open>DerefMut\<close> of a module reference are for: the user links an import of the
  module that the reference denotes, in place.\<close>

definition link_module ::
  "(u64 \<Rightarrow> u8 list) \<Rightarrow> nat \<Rightarrow> string \<Rightarrow> string option \<Rightarrow> u64 \<Rightarrow> ('u, unit) emu_method" where
  "link_module write_u64 i module name addr =
     seq (look (\<lambda>em. em_modules em ! i)) (\<lambda>m.
     seq (pure (link_import write_u64 (em_module m) module name addr)) (\<lambda>am.
     alter (\<lambda>em. em\<lparr>em_modules := (em_modules em)[i := m\<lparr>em_module := am\<rparr>]\<rparr>)))"

end
