(* ===== verification/Emulator_Layout.thy ===== *)
theory Emulator_Layout
  imports Emulator
begin

text \<open>
  Where the modules of the emulator are. \<open>layout\<close> says that the trampoline and the modules
  occupy separate ranges of addresses in the order in which the modules were added; every method
  keeps it, also when it fails half-way, and so does linking an import, which changes
  the bytes of a module but not their number. Arithmetic is that of a build with overflow checks.
\<close>

section \<open>The layout\<close>

definition module_end :: "emu_module \<Rightarrow> nat" where
  "module_end m = unat (em_offset m) + length (binary (em_module m))"

definition placed :: "nat \<Rightarrow> nat \<Rightarrow> emu_module list \<Rightarrow> bool" where
  "placed low high ms = (low \<le> high \<and> (\<forall>m \<in> set ms. low \<le> unat (em_offset m) \<and> module_end m \<le> high)
     \<and> sorted_wrt (\<lambda>m m'. module_end m \<le> unat (em_offset m')) ms)"

definition layout :: "'u emulator \<Rightarrow> bool" where
  "layout em = (trampoline_offset em = 0 \<and> placed (unat (trampoline_len em)) (unat (module_offset em)) (em_modules em))"

text \<open>What the layout is about: positions and code of the modules.\<close>

definition places :: "emu_module list \<Rightarrow> (u64 \<times> nat) list" where
  "places ms = map (\<lambda>m. (em_offset m, length (binary (em_module m)))) ms"

lemma placed_places: "places ms = places ms' \<Longrightarrow> placed low high ms = placed low high ms'"
proof -
  have "placed low high ms = (low \<le> high \<and> (\<forall>(off, len) \<in> set (places ms). low \<le> unat off \<and> unat off + len \<le> high)
      \<and> sorted_wrt (\<lambda>(off, len) (off', len'). unat off + len \<le> unat off') (places ms))" for ms
    by (simp add: placed_def places_def sorted_wrt_map module_end_def)
  then show "places ms = places ms' \<Longrightarrow> ?thesis" by simp
qed

section \<open>Methods that leave the layout alone\<close>

definition same_layout :: "'u emulator \<Rightarrow> 'u emulator \<Rightarrow> bool" where
  "same_layout em em' = (trampoline_offset em' = trampoline_offset em \<and> trampoline_len em' = trampoline_len em
     \<and> module_offset em' = module_offset em \<and> places (em_modules em') = places (em_modules em))"

interpretation lay: kept_relation same_layout
  by unfold_locales (simp_all add: same_layout_def)

lemma same_layout_keeps: "same_layout em em' \<Longrightarrow> layout em \<Longrightarrow> layout em'"
  using placed_places [of "em_modules em'" "em_modules em"] by (simp add: layout_def same_layout_def)

lemma same_layout_engine [simp]: "same_layout em (em\<lparr>engine := u\<rparr>)" "same_layout em (em\<lparr>hooks := ks\<rparr>)"
  by (simp_all add: same_layout_def)

lemma keeps_engine [intro]: "keeps same_layout (on_engine call)"
  by (simp add: keeps_def on_engine_def split: prod.splits)

lemma keeps_hooks [intro]: "keeps same_layout (alter (\<lambda>em. em\<lparr>hooks := f em\<rparr>))"
  by (simp add: keeps_def)

lemma places_count [simp]: "places (ms[i := count_instruction off (ms ! i)]) = places ms"
  by (cases "i < length ms")
    (auto simp: places_def count_instruction_def map_update list_update_same_conv list_update_beyond split: option.splits)

lemma places_hook [simp]: "places (code_hook addr ms k) = places ms"
  by (simp add: code_hook_def split: option.splits)

lemma places_hooks [simp]: "places (execute_hooks ks ms addr) = places ms"
  unfolding execute_hooks_def by (induction ks arbitrary: ms) simp_all

lemma places_executed [simp]: "places (foldl (execute_hooks ks) ms addrs) = places ms"
  by (induction addrs arbitrary: ms) simp_all

lemma keeps_start [intro]: "keeps same_layout (start_engine uc a b)"
  by (auto simp: keeps_def start_engine_def same_layout_def split: prod.splits)

lemma keeps_call: "keeps same_layout (call_function checks dis uc i identifier)"
  unfolding call_function_def update_module_def
  by (intro lay.keeps_rules keeps_engine keeps_hooks keeps_start)

lemma keeps_stack:
  "keeps same_layout (push_u64 checks write_u64 uc v)" "keeps same_layout (pop_u64 checks read_u64 uc)"
  "keeps same_layout (read_register uc r)" "keeps same_layout (write_register uc r v)"
  unfolding push_u64_def pop_u64_def read_register_def write_register_def
  by (intro lay.keeps_rules keeps_engine)+

section \<open>Methods that extend the layout\<close>

lemma placed_snoc:
  assumes "placed low (unat off) ms" and "high = unat off + length (binary am)"
  shows "placed low high (ms @ [\<lparr>em_offset = off, em_module = am, executed_instructions = x\<rparr>])"
  using assms by (fastforce simp: placed_def sorted_wrt_append module_end_def)

lemma placed_higher: "placed low high ms \<Longrightarrow> high \<le> high' \<Longrightarrow> placed low high' ms"
  by (auto simp: placed_def)

lemma add_module_layout:
  assumes "layout em" and "length (binary am) < 2 ^ 64"
  shows "layout (snd (add_module True uc am em))"
proof -
  obtain r u where w: "mem_write uc (module_offset em) (binary am) (engine em) = (r, u)" by fastforce
  show ?thesis
  proof (cases "u64_add True (module_offset em) (of_nat (length (binary am))) :: (emu_error, u64) res")
    case (Ok off)
    with assms(2) have "unat off = unat (module_offset em) + length (binary am)"
      using unat_add_checked [OF Ok] by (simp add: unat_of_nat)
    from placed_snoc [OF _ this] assms(1) Ok w show ?thesis
      by (cases r) (auto simp: add_module_def on_engine_def lift_uc_def layout_def seq_def)
  qed (use w assms(1) in \<open>cases r; simp add: add_module_def on_engine_def lift_uc_def layout_def seq_def\<close>)+
qed

lemma add_memory_layout:
  assumes "layout em"
  shows "layout (snd (add_memory True uc mem em))"
proof -
  obtain r u where w: "mem_write uc (module_offset em) mem (engine em) = (r, u)" by fastforce
  show ?thesis
  proof (cases "u64_add True (module_offset em) (of_nat (length mem)) :: (emu_error, u64) res")
    case (Ok off)
    from placed_higher [of _ "unat (module_offset em)" _ "unat off"] unat_add_checked [OF Ok] assms Ok w
    show ?thesis by (cases r) (auto simp: add_memory_def on_engine_def lift_uc_def layout_def seq_def)
  qed (use w assms in \<open>cases r; simp add: add_memory_def on_engine_def lift_uc_def layout_def seq_def\<close>)+
qed

text \<open>Linking an import keeps the length of the code.\<close>

lemma link_import_length:
  assumes "link_import le64 am module name addr = Ok am'"
  shows "length (binary am') = length (binary am) \<and> the_module am' = the_module am"
  using assms le.patched_length by (auto simp: link_import_def binary_def split: option.splits if_splits)

lemma link_module_layout: "keeps same_layout (link_module le64 i module name addr)"
proof -
  have "same_layout em (snd (link_module le64 i module name addr em))" for em :: "'a emulator"
  proof (cases "link_import le64 (em_module (em_modules em ! i)) module name addr :: (emu_error, assembled_module) res")
    case (Ok am)
    let ?m = "(em_modules em ! i)\<lparr>em_module := am\<rparr>"
    have "places ((em_modules em)[i := ?m]) = places (em_modules em)"
      using link_import_length [OF Ok]
      by (cases "i < length (em_modules em)") (auto simp: places_def map_update list_update_same_conv list_update_beyond)
    with Ok show ?thesis by (simp add: link_module_def same_layout_def)
  qed (simp_all add: link_module_def same_layout_def)
  then show ?thesis by (simp add: keeps_def)
qed

section \<open>Emulators that can arise\<close>

inductive emu_reach :: "iced \<Rightarrow> 'u unicorn \<Rightarrow> 'u emulator \<Rightarrow> bool" for ic uc where
  New: "new_emulator True ic uc = Ok em \<Longrightarrow> emu_reach ic uc em"
| Add_module: "emu_reach ic uc em \<Longrightarrow> length (binary am) < 2 ^ 64 \<Longrightarrow> emu_reach ic uc (snd (add_module True uc am em))"
| Add_memory: "emu_reach ic uc em \<Longrightarrow> emu_reach ic uc (snd (add_memory True uc mem em))"
| Call_function: "emu_reach ic uc em \<Longrightarrow> emu_reach ic uc (snd (call_function True dis uc i identifier em))"
| Push: "emu_reach ic uc em \<Longrightarrow> emu_reach ic uc (snd (push_u64 True le64 uc v em))"
| Pop: "emu_reach ic uc em \<Longrightarrow> emu_reach ic uc (snd (pop_u64 True le_decode uc em))"
| Write_register: "emu_reach ic uc em \<Longrightarrow> emu_reach ic uc (snd (write_register uc r v em))"
| Link: "emu_reach ic uc em \<Longrightarrow> emu_reach ic uc (snd (link_module le64 i module name addr em))"

lemma kept_layout: "keeps same_layout m \<Longrightarrow> layout em \<Longrightarrow> layout (snd (m em))"
  using same_layout_keeps by (auto simp: keeps_def)

lemma new_layout: "new_emulator True ic uc = Ok em \<Longrightarrow> layout em"
  by (auto simp: new_emulator_def res_simps layout_def placed_def u64_add_checked)

lemma reach_layout: "emu_reach ic uc em \<Longrightarrow> layout em"
  by (induction rule: emu_reach.induct)
    (simp_all add: new_layout add_module_layout add_memory_layout kept_layout keeps_call keeps_stack link_module_layout)

end
