(* ===== verification/Emulator_Sound.thy ===== *)
theory Emulator_Sound
  imports Emulator_Layout
begin

text \<open>
  What the emulator does for a test: the stack helpers, the state of memory when a function is
  entered, and the counts of executed instructions. The processor emulator is trusted for its
  registers and its memory only (\<open>uc_laws\<close>); what it executes is a parameter.
\<close>

section \<open>What the package promises\<close>

text \<open>Reads change nothing; a write is read back, leaves other addresses and the registers alone;
  installing and removing a hook changes neither memory nor registers.\<close>

definition memory_of :: "'u unicorn \<Rightarrow> 'u \<Rightarrow> u64 \<Rightarrow> nat \<Rightarrow> uc_error + u8 list" where
  "memory_of uc u a n = fst (mem_read uc a n u)"

definition register_of :: "'u unicorn \<Rightarrow> 'u \<Rightarrow> uc_register \<Rightarrow> uc_error + u64" where
  "register_of uc u r = fst (reg_read uc r u)"

definition uc_laws :: "'u unicorn \<Rightarrow> bool" where
  "uc_laws uc = ((\<forall>a n u. snd (mem_read uc a n u) = u) \<and> (\<forall>r u. snd (reg_read uc r u) = u)
     \<and> (\<forall>a bs u u'. mem_write uc a bs u = (Inr (), u') \<longrightarrow>
          memory_of uc u' a (length bs) = Inr bs \<and> register_of uc u' = register_of uc u
          \<and> (\<forall>b n. unat b + n \<le> unat a \<or> unat a + length bs \<le> unat b \<longrightarrow> memory_of uc u' b n = memory_of uc u b n))
     \<and> (\<forall>r v u u'. reg_write uc r v u = (Inr (), u') \<longrightarrow>
          register_of uc u' = (register_of uc u)(r := Inr v) \<and> memory_of uc u' = memory_of uc u)
     \<and> (\<forall>u u'. add_code_hook uc u = (Inr (), u') \<longrightarrow>
          register_of uc u' = register_of uc u \<and> memory_of uc u' = memory_of uc u))"

lemma on_engine_Ok [res_simps]:
  "(on_engine call em = (Ok x, em')) = (\<exists>u. call (engine em) = (Inr x, u) \<and> em' = em\<lparr>engine := u\<rparr>)"
  by (auto simp: on_engine_def lift_uc_def split: prod.splits sum.splits)

lemma pure_Ok [res_simps]: "(pure r s = (Ok x, s')) = (r = Ok x \<and> s' = s)"
  by auto

section \<open>Stack\<close>

lemma uc_reads: "uc_laws uc \<Longrightarrow> mem_read uc a n u = (memory_of uc u a n, u) \<and> reg_read uc r u = (register_of uc u r, u)"
  by (metis memory_of_def prod.collapse register_of_def uc_laws_def)

lemma uc_mem_write:
  assumes "uc_laws uc" and "mem_write uc a bs u = (Inr (), u')"
  shows "memory_of uc u' a (length bs) = Inr bs" and "register_of uc u' = register_of uc u"
    and "unat b + n \<le> unat a \<or> unat a + length bs \<le> unat b \<Longrightarrow> memory_of uc u' b n = memory_of uc u b n"
  using assms unfolding uc_laws_def by blast+

lemma uc_reg_write:
  assumes "uc_laws uc" and "reg_write uc r v u = (Inr (), u')"
  shows "register_of uc u' = (register_of uc u)(r := Inr v)" and "memory_of uc u' = memory_of uc u"
  using assms unfolding uc_laws_def by blast+

lemma push_u64_Ok:
  assumes "uc_laws uc" and "push_u64 True le64 uc v em = (Ok (), em')"
  shows "\<exists>rsp u. register_of uc (engine em) UC_RSP = Inr rsp \<and> 8 \<le> unat rsp
    \<and> em' = em\<lparr>engine := u\<rparr>
    \<and> register_of uc u = (register_of uc (engine em))(UC_RSP := Inr (rsp - 8))
    \<and> memory_of uc u (rsp - 8) 8 = Inr (le64 v)
    \<and> (\<forall>b n. unat b + n \<le> unat (rsp - 8) \<or> unat rsp \<le> unat b \<longrightarrow> memory_of uc u b n = memory_of uc (engine em) b n)"
proof -
  from assms(2) obtain rsp u1 u where o: "reg_read uc UC_RSP (engine em) = (Inr rsp, engine em)"
    "u64_sub True rsp 8 = (Ok (rsp - 8) :: (emu_error, u64) res)"
    "reg_write uc UC_RSP (rsp - 8) (engine em) = (Inr (), u1)" "mem_write uc (rsp - 8) (le64 v) u1 = (Inr (), u)"
    "em' = em\<lparr>engine := u\<rparr>"
    using uc_reads [OF assms(1)] by (auto simp: push_u64_def res_simps u64_sub_def split: if_splits)
  then have rsp: "\<not> rsp < 8" by (auto simp: u64_sub_def split: if_splits)
  then have le: "8 \<le> unat rsp" by (simp add: word_less_nat_alt)
  with rsp have "unat (rsp - 8) + 8 = unat rsp" by (simp add: unat_sub word_le_nat_alt)
  with o le uc_reg_write [OF assms(1) o(3)] uc_mem_write [OF assms(1) o(4)] uc_reads [OF assms(1)] show ?thesis
    by (auto intro!: exI [of _ rsp] exI [of _ u])
qed

lemma pop_u64_runs:
  assumes "uc_laws uc" and "register_of uc (engine em) UC_RSP = Inr rsp" and "unat rsp + 8 < 2 ^ 64"
    and "memory_of uc (engine em) rsp 8 = Inr buf" and "reg_write uc UC_RSP (rsp + 8) (engine em) = (Inr (), u)"
  shows "pop_u64 True le_decode uc em = (Ok (le_decode buf), em\<lparr>engine := u\<rparr>)"
proof -
  have "u64_add True rsp 8 = (Ok (rsp + 8) :: (emu_error, u64) res)" using assms(3) by (simp add: u64_add_checked)
  with assms(2,4,5) uc_reads [OF assms(1)] show ?thesis
    by (simp add: pop_u64_def on_engine_def seq_def lift_uc_def pure_def)
qed

section \<open>Entering a function\<close>

lemma update_module_Ok [res_simps]:
  "(update_module uc m em = (Ok x, em')) = (\<exists>u. mem_write uc (em_offset m) (binary (em_module m)) (engine em) = (Inr x, u)
     \<and> em' = em\<lparr>engine := u\<rparr>)"
  by (simp add: update_module_def on_engine_Ok)

lemma start_engine_Ok [res_simps]:
  "(start_engine uc a b em = (Ok x, em')) = (\<exists>executed u. emu_start uc a b (engine em) = (executed, Inr x, u)
     \<and> em' = em\<lparr>engine := u, em_modules := foldl (execute_hooks (hooks em)) (em_modules em) executed\<rparr>)"
  by (auto simp: start_engine_def lift_uc_def split: prod.splits sum.splits)

lemma each_update:
  assumes "uc_laws uc" and "each (update_module uc) ms em = (Ok (), em')"
    and "sorted_wrt (\<lambda>m m'. module_end m \<le> unat (em_offset m')) ms"
  shows "\<exists>u. em' = em\<lparr>engine := u\<rparr> \<and> register_of uc u = register_of uc (engine em)
    \<and> (\<forall>m \<in> set ms. memory_of uc u (em_offset m) (length (binary (em_module m))) = Inr (binary (em_module m)))
    \<and> (\<forall>b n. (\<forall>m \<in> set ms. unat b + n \<le> unat (em_offset m)) \<longrightarrow> memory_of uc u b n = memory_of uc (engine em) b n)"
  using assms(2,3)
proof (induction ms arbitrary: em)
  case Nil
  then show ?case by (auto intro!: exI [of _ "engine em"])
next
  case (Cons m ms)
  from Cons.prems(1) obtain u1 where
    u1: "mem_write uc (em_offset m) (binary (em_module m)) (engine em) = (Inr (), u1)"
    "each (update_module uc) ms (em\<lparr>engine := u1\<rparr>) = (Ok (), em')"
    by (auto simp: res_simps)
  note w = uc_mem_write [OF assms(1) u1(1)]
  from Cons.IH [OF u1(2)] Cons.prems(2) obtain u where u: "em' = em\<lparr>engine := u\<rparr>"
    "register_of uc u = register_of uc u1"
    "\<forall>m \<in> set ms. memory_of uc u (em_offset m) (length (binary (em_module m))) = Inr (binary (em_module m))"
    "\<forall>b n. (\<forall>m \<in> set ms. unat b + n \<le> unat (em_offset m)) \<longrightarrow> memory_of uc u b n = memory_of uc u1 b n" by auto
  from Cons.prems(2) have "\<forall>m' \<in> set ms. unat (em_offset m) + length (binary (em_module m)) \<le> unat (em_offset m')"
    by (simp add: module_end_def)
  with u(4) w(1) have "memory_of uc u (em_offset m) (length (binary (em_module m))) = Inr (binary (em_module m))" by simp
  with u w show ?case by (auto intro!: exI [of _ u])
qed

lemma call_function_Ok:
  assumes "call_function checks dis uc i identifier em = (Ok (), em')"
  shows "\<exists>f em1 u2 addr u3 stop executed u4 u5.
    function_entry_point (the_module (em_module (em_modules em ! i))) identifier = Some f
    \<and> each (update_module uc) (em_modules em) em = (Ok (), em1)
    \<and> add_code_hook uc (engine em1) = (Inr (), u2)
    \<and> u64_add checks (em_offset (em_modules em ! i)) (of_nat f) = (Ok addr :: (emu_error, u64) res)
    \<and> reg_write uc UC_R10 addr u2 = (Inr (), u3)
    \<and> u64_add checks (trampoline_offset em1) (trampoline_len em1) = (Ok stop :: (emu_error, u64) res)
    \<and> emu_start uc (trampoline_offset em1) stop u3 = (executed, Inr (), u4)
    \<and> remove_hook uc u4 = (Inr (), u5)
    \<and> em' = em1\<lparr>engine := u5, hooks := hooks em1,
        em_modules := foldl (execute_hooks (hooks em1 @ [length (em_modules em)])) (em_modules em1) executed\<rparr>"
proof -
  obtain f where f: "function_entry_point (the_module (em_module (em_modules em ! i))) identifier = Some f"
    using assms by (cases "function_entry_point (the_module (em_module (em_modules em ! i))) identifier")
      (auto simp: call_function_def res_simps)
  with assms show ?thesis by (fastforce simp: call_function_def res_simps)
qed

section \<open>Counting instructions\<close>

text \<open>The hook counts an address for the first module whose range, including the address after
  its last byte, has it.\<close>

definition attributed :: "emu_module list \<Rightarrow> nat \<Rightarrow> nat \<Rightarrow> u64 \<Rightarrow> bool" where
  "attributed ms j off addr = (matching_module addr ms = Some j \<and> unat (addr - em_offset (ms ! j)) = off)"

lemma matching_module_Some:
  "(matching_module addr ms = Some j) = (j < length ms \<and> candidate_matches addr (ms ! j) \<and> (\<forall>k < j. \<not> candidate_matches addr (ms ! k)))"
proof (induction ms arbitrary: j)
  case (Cons m ms)
  then show ?case by (cases j) (auto simp: less_Suc_eq_0_disj)
qed simp

lemma count_count_instruction:
  "instruction_execution_count (count_instruction off m) off' = instruction_execution_count m off' + of_bool (off' = off)"
  by (auto simp: count_instruction_def instruction_execution_count_def bt_get_insert split: option.splits)

lemma places_nth:
  assumes "places ms = places ms'" and "k < length ms"
  shows "em_offset (ms ! k) = em_offset (ms' ! k)" "candidate_matches addr (ms ! k) = candidate_matches addr (ms' ! k)"
proof -
  have "k < length ms'" using assms by (metis length_map places_def)
  then have "(em_offset (ms ! k), length (binary (em_module (ms ! k))))
      = (em_offset (ms' ! k), length (binary (em_module (ms' ! k))))"
    using assms by (metis (no_types, lifting) nth_map places_def)
  then show "em_offset (ms ! k) = em_offset (ms' ! k)" "candidate_matches addr (ms ! k) = candidate_matches addr (ms' ! k)"
    by (simp_all add: candidate_matches_def)
qed

lemma attributed_places:
  assumes "places ms = places ms'" and "j < length ms"
  shows "attributed ms j off addr = attributed ms' j off addr"
proof -
  have "length ms = length ms'" using assms(1) by (metis length_map places_def)
  with places_nth [OF assms(1)] assms(2) show ?thesis by (auto simp: attributed_def matching_module_Some)
qed

lemma length_places: "places ms = places ms' \<Longrightarrow> length ms = length ms'"
  by (metis length_map places_def)

lemma count_code_hook:
  assumes "j < length ms"
  shows "instruction_execution_count (code_hook addr ms (length ms) ! j) off
    = instruction_execution_count (ms ! j) off + of_bool (attributed ms j off addr)"
proof (cases "matching_module addr ms")
  case (Some i)
  then have "i < length ms" by (simp add: matching_module_Some)
  with Some assms show ?thesis
    by (cases "i = j") (auto simp: code_hook_def attributed_def count_count_instruction)
qed (simp add: code_hook_def attributed_def)

lemma count_execute_hooks:
  assumes "j < length ms" and "\<forall>k \<in> set ks. k = length ms"
  shows "instruction_execution_count (execute_hooks ks ms addr ! j) off
    = instruction_execution_count (ms ! j) off + length ks * of_bool (attributed ms j off addr)"
  using assms unfolding execute_hooks_def
proof (induction ks arbitrary: ms)
  case (Cons k ks)
  let ?ms = "code_hook addr ms (length ms)"
  have p: "places ?ms = places ms" by simp
  with Cons.IH [of ?ms] Cons.prems length_places [OF p] attributed_places [OF p] count_code_hook [of j ms addr off]
  show ?case by simp
qed simp

lemma count_executed:
  assumes "j < length ms" and "\<forall>k \<in> set ks. k = length ms"
  shows "instruction_execution_count (foldl (execute_hooks ks) ms addrs ! j) off
    = instruction_execution_count (ms ! j) off + length ks * length (filter (attributed ms j off) addrs)"
  using assms
proof (induction addrs arbitrary: ms)
  case (Cons a addrs)
  let ?ms = "execute_hooks ks ms a"
  have p: "places ?ms = places ms" by simp
  have "filter (attributed ?ms j off) addrs = filter (attributed ms j off) addrs"
    using attributed_places [OF p, of j] Cons.prems(1) length_places [OF p] by (intro filter_cong) auto
  with Cons.IH [of ?ms] Cons.prems length_places [OF p] count_execute_hooks [OF Cons.prems, of a off]
  show ?case by (simp add: distrib_left)
qed simp

text \<open>Inside a module the attribution is right; the first byte of a module that begins where
  another one ends belongs to the other one.\<close>

lemma module_sum:
  assumes "placed low high ms" and "high < 2 ^ 64" and "k < length ms" and "n \<le> length (binary (em_module (ms ! k)))"
  shows "unat (em_offset (ms ! k) + of_nat n) = unat (em_offset (ms ! k)) + n" and "unat (of_nat n :: u64) = n"
proof -
  have "module_end (ms ! k) \<le> high" using assms(1,3) by (auto simp: placed_def)
  then have "unat (em_offset (ms ! k)) + n < 2 ^ 64" using assms(2,4) by (simp add: module_end_def)
  then show "unat (em_offset (ms ! k) + of_nat n) = unat (em_offset (ms ! k)) + n" "unat (of_nat n :: u64) = n"
    by (simp_all add: unat_plus_if' unat_of_nat)
qed

lemma attributed_inside:
  assumes "placed low high ms" and "high < 2 ^ 64" and "j < length ms"
    and "0 < off \<or> (\<forall>k < j. module_end (ms ! k) \<noteq> unat (em_offset (ms ! j)))"
    and "off < length (binary (em_module (ms ! j)))"
  shows "attributed ms j off addr = (addr = em_offset (ms ! j) + of_nat off)"
proof -
  let ?m = "ms ! j" and ?len = "length (binary (em_module (ms ! j)))"
  note sum = module_sum(1) [OF assms(1,2)]
  have "\<not> candidate_matches (em_offset ?m + of_nat off) (ms ! k)" if "k < j" for k
  proof -
    have "module_end (ms ! k) \<le> unat (em_offset ?m)"
      using assms(1,3) that by (auto simp: placed_def sorted_wrt_iff_nth_less)
    then have "module_end (ms ! k) < unat (em_offset ?m) + off"
      using assms(4) that by (auto simp: le_less)
    with sum [of k "length (binary (em_module (ms ! k)))"] sum [of j off] assms(3,5) that show ?thesis
      by (simp add: candidate_matches_def word_le_nat_alt module_end_def)
  qed
  moreover have "candidate_matches (em_offset ?m + of_nat off) ?m"
    using sum [of j off] sum [of j ?len] assms(3,5) by (simp add: candidate_matches_def word_le_nat_alt)
  moreover have "unat (of_nat off :: u64) = off"
    using module_sum(2) [OF assms(1-3)] assms(5) by simp
  ultimately have "attributed ms j off (em_offset ?m + of_nat off)"
    using assms(3) by (simp add: attributed_def matching_module_Some)
  moreover have "addr = em_offset ?m + of_nat off" if "attributed ms j off addr"
  proof -
    have "of_nat (unat (addr - em_offset ?m)) = (of_nat off :: u64)" using that by (simp add: attributed_def)
    then show ?thesis by (simp add: algebra_simps)
  qed
  ultimately show ?thesis by blast
qed

lemma not_attributed_first:
  assumes "placed low high ms" and "high < 2 ^ 64" and "j < length ms" and "k < j"
    and "module_end (ms ! k) = unat (em_offset (ms ! j))"
  shows "\<not> attributed ms j 0 addr"
proof
  assume a: "attributed ms j 0 addr"
  then have "addr = em_offset (ms ! j)" by (simp add: attributed_def unat_eq_0)
  moreover have "unat (em_offset (ms ! k) + of_nat (length (binary (em_module (ms ! k))))) = module_end (ms ! k)"
    using module_sum(1) [OF assms(1,2)] assms(3,4) by (simp add: module_end_def)
  ultimately have "candidate_matches addr (ms ! k)"
    using assms(5) by (simp add: candidate_matches_def word_le_nat_alt) (simp add: module_end_def)
  with a assms(4) show False by (auto simp: attributed_def matching_module_Some)
qed

lemma call_counts:
  assumes "layout em" and "\<forall>k \<in> set (hooks em). k = length (em_modules em)"
    and "j < length (em_modules em)"
    and "em' = em\<lparr>engine := u, em_modules := foldl (execute_hooks (hooks em @ [length (em_modules em)])) (em_modules em) executed\<rparr>"
  shows "0 < off \<or> (\<forall>k < j. module_end (em_modules em ! k) \<noteq> unat (em_offset (em_modules em ! j))) \<Longrightarrow>
      off < length (binary (em_module (em_modules em ! j))) \<Longrightarrow>
      instruction_execution_count (em_modules em' ! j) off = instruction_execution_count (em_modules em ! j) off
        + Suc (length (hooks em)) * count_list executed (em_offset (em_modules em ! j) + of_nat off)"
    and "k < j \<Longrightarrow> module_end (em_modules em ! k) = unat (em_offset (em_modules em ! j)) \<Longrightarrow>
      instruction_execution_count (em_modules em' ! j) 0 = instruction_execution_count (em_modules em ! j) 0"
proof -
  have pl: "placed (unat (trampoline_len em)) (unat (module_offset em)) (em_modules em)"
    "unat (module_offset em) < 2 ^ 64"
    using assms(1) unsigned_less [of "module_offset em", where 'a = nat] by (simp_all add: layout_def)
  have ks: "\<forall>k \<in> set (hooks em @ [length (em_modules em)]). k = length (em_modules em)" using assms(2) by simp
  note c = count_executed [OF assms(3) ks, where addrs = executed]
  show "instruction_execution_count (em_modules em' ! j) off = instruction_execution_count (em_modules em ! j) off
        + Suc (length (hooks em)) * count_list executed (em_offset (em_modules em ! j) + of_nat off)"
    if "0 < off \<or> (\<forall>k < j. module_end (em_modules em ! k) \<noteq> unat (em_offset (em_modules em ! j)))"
      "off < length (binary (em_module (em_modules em ! j)))"
  proof -
    have "attributed (em_modules em) j off = (=) (em_offset (em_modules em ! j) + of_nat off)"
      using attributed_inside [OF pl assms(3) that] by (intro ext) auto
    with c [of off] assms(4) show ?thesis by (simp add: count_list_eq_length_filter)
  qed
  show "instruction_execution_count (em_modules em' ! j) 0 = instruction_execution_count (em_modules em ! j) 0"
    if "k < j" "module_end (em_modules em ! k) = unat (em_offset (em_modules em ! j))"
    using c [of 0] not_attributed_first [OF pl assms(3) that] assms(4) by simp
qed

text \<open>The engine when the trampoline is started, and the state after the call.\<close>

lemma call_started:
  assumes "uc_laws uc" and "layout em" and "call_function True dis uc i identifier em = (Ok (), em')"
  shows "\<exists>f u executed u' u2. function_entry_point (the_module (em_module (em_modules em ! i))) identifier = Some f
    \<and> emu_start uc 0 (trampoline_len em) u = (executed, Inr (), u')
    \<and> register_of uc u = (register_of uc (engine em))(UC_R10 := Inr (em_offset (em_modules em ! i) + of_nat f))
    \<and> (\<forall>m \<in> set (em_modules em). memory_of uc u (em_offset m) (length (binary (em_module m))) = Inr (binary (em_module m)))
    \<and> (\<forall>n \<le> unat (trampoline_len em). memory_of uc u 0 n = memory_of uc (engine em) 0 n)
    \<and> em' = em\<lparr>engine := u2, em_modules := foldl (execute_hooks (hooks em @ [length (em_modules em)])) (em_modules em) executed\<rparr>"
proof -
  from call_function_Ok [OF assms(3)] obtain f em1 u2 addr u3 stop executed u4 u5 where
    o: "function_entry_point (the_module (em_module (em_modules em ! i))) identifier = Some f"
    "each (update_module uc) (em_modules em) em = (Ok (), em1)" "add_code_hook uc (engine em1) = (Inr (), u2)"
    "u64_add True (em_offset (em_modules em ! i)) (of_nat f) = (Ok addr :: (emu_error, u64) res)"
    "reg_write uc UC_R10 addr u2 = (Inr (), u3)"
    "u64_add True (trampoline_offset em1) (trampoline_len em1) = (Ok stop :: (emu_error, u64) res)"
    "emu_start uc (trampoline_offset em1) stop u3 = (executed, Inr (), u4)"
    "em' = em1\<lparr>engine := u5, hooks := hooks em1,
        em_modules := foldl (execute_hooks (hooks em1 @ [length (em_modules em)])) (em_modules em1) executed\<rparr>" by blast
  have srt: "sorted_wrt (\<lambda>m m'. module_end m \<le> unat (em_offset m')) (em_modules em)"
    and low: "\<forall>m \<in> set (em_modules em). unat (trampoline_len em) \<le> unat (em_offset m)" and z: "trampoline_offset em = 0"
    using assms(2) by (auto simp: layout_def placed_def)
  from each_update [OF assms(1) o(2) srt] obtain u where u: "em1 = em\<lparr>engine := u\<rparr>"
    "register_of uc u = register_of uc (engine em)"
    "\<forall>m \<in> set (em_modules em). memory_of uc u (em_offset m) (length (binary (em_module m))) = Inr (binary (em_module m))"
    "\<forall>b n. (\<forall>m \<in> set (em_modules em). unat b + n \<le> unat (em_offset m)) \<longrightarrow> memory_of uc u b n = memory_of uc (engine em) b n"
    by blast
  have h: "register_of uc u2 = register_of uc u" "memory_of uc u2 = memory_of uc u"
    using assms(1) o(3) u(1) unfolding uc_laws_def by auto
  note w = uc_reg_write [OF assms(1) o(5)]
  have s: "stop = trampoline_len em" "addr = em_offset (em_modules em ! i) + of_nat f"
    using o(4,6) u(1) z by (simp_all add: u64_add_checked)
  have "memory_of uc u3 0 n = memory_of uc (engine em) 0 n" if "n \<le> unat (trampoline_len em)" for n
    using that low u(4) h(2) w(2) by force
  with o(1,7,8) u h w s z show ?thesis
    by (intro exI [of _ f] exI [of _ u3] exI [of _ executed] exI [of _ u4] exI [of _ u5]) auto
qed

end
