(* ===== verification/Emulator_Calls.thy ===== *)
theory Emulator_Calls
  imports Emulator_Sound Optimizer
begin

text \<open>
  The properties of the test emulator: the layout of the modules, the stack helpers, and calls of
  functions, with the two ways in which the counts of executed instructions go wrong.
  They are applied to a simple engine with a flat memory, \<open>flat_unicorn\<close>.
\<close>

section \<open>A flat engine\<close>

type_synonym flat = "(uc_register \<Rightarrow> u64) \<times> (nat \<Rightarrow> u8)"

definition flat_unicorn :: "u64 list \<Rightarrow> flat unicorn" where
  "flat_unicorn executed = \<lparr>
     uc_new = Inr (\<lambda>_. 0, \<lambda>_. 0),
     mem_map = (\<lambda>_ _ u. (Inr (), u)),
     mem_write = (\<lambda>a bs (r, m). (Inr (), (r, \<lambda>k. if unat a \<le> k \<and> k < unat a + length bs then bs ! (k - unat a) else m k))),
     mem_read = (\<lambda>a n (r, m). (Inr (map m [unat a..<unat a + n]), (r, m))),
     reg_write = (\<lambda>x v (r, m). (Inr (), (r(x := v), m))),
     reg_read = (\<lambda>x (r, m). (Inr (r x), (r, m))),
     add_code_hook = (\<lambda>u. (Inr (), u)),
     remove_hook = (\<lambda>u. (Inr (), u)),
     emu_start = (\<lambda>a b (r, m). (executed, if r UC_R10 = 1 then Inr () else Inl ''unmapped'', (r, m)))\<rparr>"

lemma flat_simps [simp]:
  "mem_write (flat_unicorn ex) a bs (r, m) = (Inr (), (r, \<lambda>k. if unat a \<le> k \<and> k < unat a + length bs then bs ! (k - unat a) else m k))"
  "reg_write (flat_unicorn ex) x v (r, m) = (Inr (), (r(x := v), m))"
  "reg_read (flat_unicorn ex) x (r, m) = (Inr (r x), (r, m))"
  "add_code_hook (flat_unicorn ex) u = (Inr (), u)" "remove_hook (flat_unicorn ex) u = (Inr (), u)"
  "emu_start (flat_unicorn ex) a b (r, m) = (ex, if r UC_R10 = 1 then Inr () else Inl ''unmapped'', (r, m))"
  "mem_read (flat_unicorn ex) a n (r, m) = (Inr (map m [unat a..<unat a + n]), (r, m))"
  "register_of (flat_unicorn ex) (r, m) = (\<lambda>x. Inr (r x))"
  "memory_of (flat_unicorn ex) (r, m) = (\<lambda>a n. Inr (map m [unat a..<unat a + n]))"
  by (simp_all add: flat_unicorn_def register_of_def memory_of_def fun_eq_iff)

lemma flat_laws: "uc_laws (flat_unicorn executed)"
  by (auto simp: uc_laws_def intro!: nth_equalityI ext)

text \<open>A module of two bytes with two functions, and the emulators with one and with two copies of it.\<close>

definition sample_code :: assembled_module where
  "sample_code = assembled_from (new_module\<lparr>m_function_bodies := [(0, 0), (1, 1)]\<rparr>) [0x90, 0xc3]"

definition fresh_emulator :: "flat emulator" where
  "fresh_emulator = \<lparr>engine = ((\<lambda>_. 0)(UC_RSP := 128 * 1024 * 1024 - 1), \<lambda>_. 0), hooks = [], module_offset = 0,
     trampoline_len = 0, trampoline_offset = 0, em_modules = []\<rparr>"

lemma fresh_reach: "emu_reach accepting (flat_unicorn ex) fresh_emulator"
  by (rule New)
    (simp add: new_emulator_def flat_unicorn_def lift_uc_def try_uc_def trampoline_code_def new_asm_def add_instruction_def
      u64_add_def fresh_emulator_def accepting_def)

abbreviation one_module :: "u64 list \<Rightarrow> flat emulator" where
  "one_module ex \<equiv> snd (add_module True (flat_unicorn ex) sample_code fresh_emulator)"

abbreviation two_modules :: "u64 list \<Rightarrow> flat emulator" where
  "two_modules ex \<equiv> snd (add_module True (flat_unicorn ex) sample_code (one_module ex))"

lemma sample_code_simps [simp]:
  "binary sample_code = [0x90, 0xc3]" "function_entry_point (the_module sample_code) (ByIndex 0) = Some 0"
  "function_entry_point (the_module sample_code) (ByIndex 1) = Some 1"
  "function_entry_point (the_module sample_code) (ByIndex (Suc 0)) = Some 1"
  by (simp_all add: sample_code_def assembled_from_def binary_def function_entry_point_index)

text \<open>A disassembler that finds no instructions.\<close>

definition no_listing :: "u8 list \<Rightarrow> decoded list" where
  "no_listing code = []"

lemma dump_sample [simp]: "dump_asm checks no_listing sample_code off = Ok []"
  by (simp add: dump_asm_def no_listing_def sample_code_def assembled_from_def first_function_def new_module_def)

lemma sample_reach: "emu_reach accepting (flat_unicorn ex) (one_module ex)" "emu_reach accepting (flat_unicorn ex) (two_modules ex)"
  by (simp_all add: emu_reach.Add_module fresh_reach)

lemma one_module_simps [simp]:
  "em_modules (one_module ex) = [\<lparr>em_offset = 0, em_module = sample_code, executed_instructions = []\<rparr>]"
  "hooks (one_module ex) = []" "trampoline_len (one_module ex) = 0" "module_offset (one_module ex) = 2"
  "trampoline_offset (one_module ex) = 0" "\<exists>m. engine (one_module ex) = ((\<lambda>_. 0)(UC_RSP := 128 * 1024 * 1024 - 1), m)"
  by (simp_all add: add_module_def fresh_emulator_def on_engine_def lift_uc_def u64_add_def seq_def)

lemma two_modules_simps [simp]:
  "em_modules (two_modules ex) = [\<lparr>em_offset = 0, em_module = sample_code, executed_instructions = []\<rparr>,
     \<lparr>em_offset = 2, em_module = sample_code, executed_instructions = []\<rparr>]"
  "hooks (two_modules ex) = []" "trampoline_len (two_modules ex) = 0" "trampoline_offset (two_modules ex) = 0"
  "\<exists>m. engine (two_modules ex) = ((\<lambda>_. 0)(UC_RSP := 128 * 1024 * 1024 - 1), m)"
  by (simp_all add: add_module_def fresh_emulator_def on_engine_def lift_uc_def u64_add_def seq_def)

section \<open>Properties\<close>

text \<open>C17. In every emulator that can arise, by any sequence of adding modules and memory, linking
  imports, calling functions and using the stack, also when some of these fail, the trampoline and
  the modules occupy separate ranges of addresses, in the order of their addition.\<close>

theorem modules_are_apart:
  assumes "emu_reach ic uc em"
  shows "(\<forall>m \<in> set (em_modules em). unat (trampoline_offset em) + unat (trampoline_len em) \<le> unat (em_offset m)
      \<and> unat (em_offset m) + length (binary (em_module m)) \<le> unat (module_offset em))
    \<and> (\<forall>j k. j < k \<and> k < length (em_modules em) \<longrightarrow>
        unat (em_offset (em_modules em ! j)) + length (binary (em_module (em_modules em ! j))) \<le> unat (em_offset (em_modules em ! k)))"
  using reach_layout [OF assms] by (auto simp: layout_def placed_def module_end_def sorted_wrt_iff_nth_less)

theorem modules_are_apart_witness:
  "unat (em_offset (em_modules (two_modules [1]) ! 0)) + 2 \<le> unat (em_offset (em_modules (two_modules [1]) ! 1))"
  using modules_are_apart [OF sample_reach(2) [of "[1]"]] by (auto simp: less_Suc_eq)

text \<open>C18. The stack helpers: in a build with overflow checks \<open>push\<close> panics exactly when the stack pointer is below 8, otherwise
  a \<open>push\<close> that succeeds is undone by \<open>pop\<close>, which returns the value that was pushed, with
  every register as before and memory unchanged outside the eight bytes below the stack pointer.\<close>

theorem push_pop_roundtrip:
  assumes "uc_laws uc" and "\<forall>v u. \<exists>u'. reg_write uc UC_RSP v u = (Inr (), u')"
    and "register_of uc (engine em) UC_RSP = Inr rsp"
  shows "((\<exists>p. fst (push_u64 True le64 uc v em) = Panic p) = (rsp < 8))
    \<and> (\<forall>em1. push_u64 True le64 uc v em = (Ok (), em1) \<longrightarrow>
        (\<exists>em2. pop_u64 True le_decode uc em1 = (Ok v, em2)
          \<and> register_of uc (engine em2) = register_of uc (engine em)
          \<and> (\<forall>b n. unat b + n \<le> unat rsp - 8 \<or> unat rsp \<le> unat b \<longrightarrow>
               memory_of uc (engine em2) b n = memory_of uc (engine em) b n)))"
proof (intro conjI allI impI)
  have rd: "reg_read uc UC_RSP (engine em) = (Inr rsp, engine em)" using uc_reads [OF assms(1)] assms(3) by simp
  obtain u1 where "reg_write uc UC_RSP (rsp - 8) (engine em) = (Inr (), u1)" using assms(2) by blast
  then show "(\<exists>p. fst (push_u64 True le64 uc v em) = Panic p) = (rsp < 8)"
    using rd by (auto simp: push_u64_def on_engine_def seq_def lift_uc_def u64_sub_def pure_def split: prod.splits sum.splits)
next
  fix em1 assume "push_u64 True le64 uc v em = (Ok (), em1)"
  from push_u64_Ok [OF assms(1) this] assms(3) obtain u where u: "8 \<le> unat rsp" "em1 = em\<lparr>engine := u\<rparr>"
    "register_of uc u = (register_of uc (engine em))(UC_RSP := Inr (rsp - 8))"
    "memory_of uc u (rsp - 8) 8 = Inr (le64 v)"
    "\<forall>b n. unat b + n \<le> unat (rsp - 8) \<or> unat rsp \<le> unat b \<longrightarrow> memory_of uc u b n = memory_of uc (engine em) b n" by auto
  have rsp: "unat (rsp - 8) + 8 = unat rsp" using u(1) by (simp add: unat_sub word_le_nat_alt)
  then have below: "unat (rsp - 8) = unat rsp - 8" by simp
  obtain u2 where u2: "reg_write uc UC_RSP rsp u = (Inr (), u2)" using assms(2) by blast
  have "pop_u64 True le_decode uc em1 = (Ok (le_decode (le64 v)), em1\<lparr>engine := u2\<rparr>)"
    using u u2 rsp unsigned_less [of rsp, where 'a = nat] by (intro pop_u64_runs [OF assms(1), of _ "rsp - 8"]) auto
  moreover have "register_of uc u2 = register_of uc (engine em)"
    using uc_reg_write(1) [OF assms(1) u2] u(3) assms(3) by auto
  ultimately show "\<exists>em2. pop_u64 True le_decode uc em1 = (Ok v, em2)
      \<and> register_of uc (engine em2) = register_of uc (engine em)
      \<and> (\<forall>b n. unat b + n \<le> unat rsp - 8 \<or> unat rsp \<le> unat b \<longrightarrow>
           memory_of uc (engine em2) b n = memory_of uc (engine em) b n)"
    using uc_reg_write(2) [OF assms(1) u2] u(5) below by (intro exI [of _ "em1\<lparr>engine := u2\<rparr>"]) simp
qed

theorem push_pop_roundtrip_witness:
  "\<exists>em1 em2. push_u64 True le64 (flat_unicorn []) 42 fresh_emulator = (Ok (), em1)
     \<and> pop_u64 True le_decode (flat_unicorn []) em1 = (Ok 42, em2)"
proof -
  have rw: "\<forall>v u. \<exists>u'. reg_write (flat_unicorn []) UC_RSP v u = (Inr (), u')" by auto
  have rsp: "register_of (flat_unicorn []) (engine fresh_emulator) UC_RSP = Inr (128 * 1024 * 1024 - 1)"
    by (simp add: fresh_emulator_def)
  have "\<exists>em1. push_u64 True le64 (flat_unicorn []) 42 fresh_emulator = (Ok (), em1)"
    by (simp add: push_u64_def fresh_emulator_def on_engine_def lift_uc_def u64_sub_def seq_def)
  with push_pop_roundtrip [OF flat_laws rw rsp, of 42] show ?thesis by blast
qed

text \<open>C12. A successful call on an emulator without a hook left over from a call that failed starts
  the trampoline, unchanged, with the address of the function in \<open>r10\<close>, all other registers as the
  user left them, and in memory the current code of every module, with the imports linked since;
  and the count of every instruction grows by the number of times it was executed, the first
  instruction of a module that begins where another one ends excepted.\<close>

theorem call_function_runs:
  assumes "uc_laws uc" and "emu_reach ic uc em" and "hooks em = []"
    and "call_function True dis uc i identifier em = (Ok (), em')"
  shows "\<exists>f u executed u'. function_entry_point (the_module (em_module (em_modules em ! i))) identifier = Some f
    \<and> emu_start uc 0 (trampoline_len em) u = (executed, Inr (), u')
    \<and> register_of uc u = (register_of uc (engine em))(UC_R10 := Inr (em_offset (em_modules em ! i) + of_nat f))
    \<and> (\<forall>m \<in> set (em_modules em). memory_of uc u (em_offset m) (length (binary (em_module m))) = Inr (binary (em_module m)))
    \<and> (\<forall>n \<le> unat (trampoline_len em). memory_of uc u 0 n = memory_of uc (engine em) 0 n)
    \<and> (\<forall>j < length (em_modules em). \<forall>off < length (binary (em_module (em_modules em ! j))).
        0 < off \<or> (\<forall>k < j. module_end (em_modules em ! k) \<noteq> unat (em_offset (em_modules em ! j))) \<longrightarrow>
        instruction_execution_count (em_modules em' ! j) off = instruction_execution_count (em_modules em ! j) off
          + count_list executed (em_offset (em_modules em ! j) + of_nat off))
    \<and> hooks em' = []"
proof -
  note lay = reach_layout [OF assms(2)]
  from call_started [OF assms(1) lay assms(4)] obtain f u executed u' u2 where
    s: "function_entry_point (the_module (em_module (em_modules em ! i))) identifier = Some f"
    "emu_start uc 0 (trampoline_len em) u = (executed, Inr (), u')"
    "register_of uc u = (register_of uc (engine em))(UC_R10 := Inr (em_offset (em_modules em ! i) + of_nat f))"
    "\<forall>m \<in> set (em_modules em). memory_of uc u (em_offset m) (length (binary (em_module m))) = Inr (binary (em_module m))"
    "\<forall>n \<le> unat (trampoline_len em). memory_of uc u 0 n = memory_of uc (engine em) 0 n"
    and em': "em' = em\<lparr>engine := u2, em_modules := foldl (execute_hooks (hooks em @ [length (em_modules em)])) (em_modules em) executed\<rparr>"
    by blast
  have "\<forall>j < length (em_modules em). \<forall>off < length (binary (em_module (em_modules em ! j))).
        0 < off \<or> (\<forall>k < j. module_end (em_modules em ! k) \<noteq> unat (em_offset (em_modules em ! j))) \<longrightarrow>
        instruction_execution_count (em_modules em' ! j) off = instruction_execution_count (em_modules em ! j) off
          + count_list executed (em_offset (em_modules em ! j) + of_nat off)"
    using call_counts(1) [OF lay _ _ em'] assms(3) by simp
  moreover have "hooks em' = []" using em' assms(3) by simp
  ultimately show ?thesis using s by blast
qed

lemma sample_calls:
  "\<exists>em'. call_function True no_listing (flat_unicorn ex) 0 (ByIndex 1) (one_module ex) = (Ok (), em')"
  "\<exists>em'. call_function True no_listing (flat_unicorn ex) 0 (ByIndex 1) (two_modules ex) = (Ok (), em')"
proof -
  obtain m where "engine (one_module ex) = ((\<lambda>_. 0)(UC_RSP := 128 * 1024 * 1024 - 1), m)"
    using one_module_simps(6) by blast
  then show "\<exists>em'. call_function True no_listing (flat_unicorn ex) 0 (ByIndex 1) (one_module ex) = (Ok (), em')"
    by (simp add: call_function_def update_module_def on_engine_def lift_uc_def seq_def u64_add_def start_engine_def)
  obtain m where "engine (two_modules ex) = ((\<lambda>_. 0)(UC_RSP := 128 * 1024 * 1024 - 1), m)"
    using two_modules_simps(5) by blast
  then show "\<exists>em'. call_function True no_listing (flat_unicorn ex) 0 (ByIndex 1) (two_modules ex) = (Ok (), em')"
    by (simp add: call_function_def update_module_def on_engine_def lift_uc_def seq_def u64_add_def start_engine_def)
qed

theorem call_function_runs_witness:
  "\<exists>em'. call_function True no_listing (flat_unicorn [0, 1, 1]) 0 (ByIndex 1) (one_module [0, 1, 1]) = (Ok (), em')
     \<and> instruction_execution_count (em_modules em' ! 0) 0 = 1 \<and> instruction_execution_count (em_modules em' ! 0) 1 = 2"
proof -
  from sample_calls(1) obtain em' where em': "call_function True no_listing (flat_unicorn [0, 1, 1]) 0 (ByIndex 1) (one_module [0, 1, 1]) = (Ok (), em')"
    by blast
  from call_function_runs [OF flat_laws sample_reach(1) _ this] have
    "\<exists>u executed u'. emu_start (flat_unicorn [0, 1, 1]) 0 0 u = (executed, Inr (), u')
       \<and> instruction_execution_count (em_modules em' ! 0) 0 = count_list executed 0
       \<and> instruction_execution_count (em_modules em' ! 0) 1 = count_list executed 1"
    by (auto simp: instruction_execution_count_def)
  moreover have "executed = [0, 1, 1]" if "emu_start (flat_unicorn [0, 1, 1]) 0 0 u = (executed, Inr (), u')" for u executed u'
    using that by (cases u) simp
  ultimately show ?thesis using em' by auto
qed

text \<open>C39. The first instruction of a module that was placed right behind another module is never
  counted for it: the range of a module is taken to include the address after its last byte, so
  the instruction is counted for the other one.\<close>

theorem first_instruction_missed:
  assumes "uc_laws uc" and "emu_reach ic uc em" and "hooks em = []"
    and "call_function True dis uc i identifier em = (Ok (), em')"
    and "k < j" and "j < length (em_modules em)"
    and "unat (em_offset (em_modules em ! k)) + length (binary (em_module (em_modules em ! k))) = unat (em_offset (em_modules em ! j))"
  shows "instruction_execution_count (em_modules em' ! j) 0 = instruction_execution_count (em_modules em ! j) 0"
proof -
  note lay = reach_layout [OF assms(2)]
  from call_started [OF assms(1) lay assms(4)] obtain executed u2 where
    "em' = em\<lparr>engine := u2, em_modules := foldl (execute_hooks (hooks em @ [length (em_modules em)])) (em_modules em) executed\<rparr>"
    by blast
  from call_counts(2) [OF lay _ assms(6) this assms(5)] assms(3,7) show ?thesis by (simp add: module_end_def)
qed

theorem first_instruction_missed_witness:
  "\<exists>em'. call_function True no_listing (flat_unicorn [2]) 0 (ByIndex 1) (two_modules [2]) = (Ok (), em')
     \<and> instruction_execution_count (em_modules em' ! 1) 0 = 0"
proof -
  from sample_calls(2) obtain em' where em': "call_function True no_listing (flat_unicorn [2]) 0 (ByIndex 1) (two_modules [2]) = (Ok (), em')"
    by blast
  from first_instruction_missed [OF flat_laws sample_reach(2) _ this, of 0 1] have
    "instruction_execution_count (em_modules em' ! 1) 0 = 0" by (simp add: instruction_execution_count_def)
  with em' show ?thesis by blast
qed

text \<open>C40. When the emulation of a call stops with an error, the call returns it and leaves its
  code hook installed; in the next successful call every execution of an instruction is
  counted twice, the first instruction of a module that begins where another one ends excepted.\<close>

theorem failed_call_counts_twice:
  assumes "uc_laws uc" and "emu_reach ic uc em" and "hooks em = []"
    and "function_entry_point (the_module (em_module (em_modules em ! i))) identifier = Some f"
    and "(dump_asm True dis (em_module (em_modules em ! i)) (trampoline_len em) :: (emu_error, string) res) = Ok listing"
    and "each (update_module uc) (em_modules em) em = (Ok (), em\<lparr>engine := u1\<rparr>)"
    and "add_code_hook uc u1 = (Inr (), u2)"
    and "unat (em_offset (em_modules em ! i)) + f < 2 ^ 64"
    and "reg_write uc UC_R10 (em_offset (em_modules em ! i) + of_nat f) u2 = (Inr (), u3)"
    and "emu_start uc 0 (trampoline_len em) u3 = (executed, Inl er, u4)"
  shows "\<exists>em1. call_function True dis uc i identifier em = (Err (EmulationError er), em1)
    \<and> (\<forall>i' identifier' em2. call_function True dis uc i' identifier' em1 = (Ok (), em2) \<longrightarrow>
        (\<exists>u executed u'. emu_start uc 0 (trampoline_len em) u = (executed, Inr (), u')
          \<and> (\<forall>j < length (em_modules em1). \<forall>off < length (binary (em_module (em_modules em1 ! j))).
              0 < off \<or> (\<forall>k < j. module_end (em_modules em1 ! k) \<noteq> unat (em_offset (em_modules em1 ! j))) \<longrightarrow>
              instruction_execution_count (em_modules em2 ! j) off = instruction_execution_count (em_modules em1 ! j) off
                + 2 * count_list executed (em_offset (em_modules em1 ! j) + of_nat off))))"
proof -
  let ?ms = "foldl (execute_hooks [length (em_modules em)]) (em_modules em) executed"
  let ?em1 = "em\<lparr>engine := u4, hooks := [length (em_modules em)], em_modules := ?ms\<rparr>"
  have add: "u64_add True (em_offset (em_modules em ! i)) (of_nat f) = (Ok (em_offset (em_modules em ! i) + of_nat f) :: (emu_error, u64) res)"
    "u64_add True 0 (trampoline_len em) = (Ok (trampoline_len em) :: (emu_error, u64) res)"
    using assms(8) unsigned_less [of "trampoline_len em", where 'a = nat] by (simp_all add: u64_add_checked unat_of_nat)
  have z: "trampoline_offset em = 0" using reach_layout [OF assms(2)] by (simp add: layout_def)
  have call: "call_function True dis uc i identifier em = (Err (EmulationError er), ?em1)"
    using assms(3-7,9,10) add z by (simp add: call_function_def on_engine_def lift_uc_def start_engine_def seq_def)
  then have "?em1 = snd (call_function True dis uc i identifier em)" by simp
  then have lay: "layout ?em1" using emu_reach.Call_function [OF assms(2)] reach_layout by metis
  have len: "length ?ms = length (em_modules em)" by (rule length_places) simp
  have "\<exists>u executed u'. emu_start uc 0 (trampoline_len em) u = (executed, Inr (), u')
      \<and> (\<forall>j < length ?ms. \<forall>off < length (binary (em_module (?ms ! j))).
          0 < off \<or> (\<forall>k < j. module_end (?ms ! k) \<noteq> unat (em_offset (?ms ! j))) \<longrightarrow>
          instruction_execution_count (em_modules em2 ! j) off = instruction_execution_count (?ms ! j) off
            + 2 * count_list executed (em_offset (?ms ! j) + of_nat off))"
    if run: "call_function True dis uc i' identifier' ?em1 = (Ok (), em2)" for i' identifier' em2
  proof -
    from call_started [OF assms(1) lay run] obtain u executed' u' u2' where
      u: "emu_start uc 0 (trampoline_len em) u = (executed', Inr (), u')"
      and em2: "em2 = ?em1\<lparr>engine := u2', em_modules := foldl (execute_hooks (hooks ?em1 @ [length (em_modules ?em1)])) (em_modules ?em1) executed'\<rparr>"
      by auto
    from call_counts(1) [OF lay _ _ em2] len have "\<forall>j < length ?ms. \<forall>off < length (binary (em_module (?ms ! j))).
          0 < off \<or> (\<forall>k < j. module_end (?ms ! k) \<noteq> unat (em_offset (?ms ! j))) \<longrightarrow>
          instruction_execution_count (em_modules em2 ! j) off = instruction_execution_count (?ms ! j) off
            + 2 * count_list executed' (em_offset (?ms ! j) + of_nat off)" by simp
    with u show ?thesis by blast
  qed
  with call show ?thesis by auto
qed

theorem failed_call_counts_twice_witness:
  "\<exists>em1 em2. call_function True no_listing (flat_unicorn [1]) 0 (ByIndex 0) (one_module [1]) = (Err (EmulationError ''unmapped''), em1)
     \<and> call_function True no_listing (flat_unicorn [1]) 0 (ByIndex 1) em1 = (Ok (), em2)
     \<and> instruction_execution_count (em_modules em2 ! 0) 1 = instruction_execution_count (em_modules em1 ! 0) 1 + 2"
proof -
  let ?em = "one_module [1]" and ?uc = "flat_unicorn [1]"
  obtain m where e: "engine ?em = ((\<lambda>_. 0)(UC_RSP := 128 * 1024 * 1024 - 1), m)" using one_module_simps(6) by blast
  obtain u1 where u1: "each (update_module ?uc) (em_modules ?em) ?em = (Ok (), ?em\<lparr>engine := u1\<rparr>)"
    by (simp add: update_module_def on_engine_def lift_uc_def seq_def e)
  obtain r1 m1 where r1: "u1 = (r1, m1)" by (cases u1)
  have "\<exists>u4 executed. emu_start ?uc 0 (trampoline_len ?em) (r1(UC_R10 := 0), m1) = (executed, Inl ''unmapped'', u4)" by simp
  then obtain u4 executed where st: "emu_start ?uc 0 (trampoline_len ?em) (r1(UC_R10 := 0), m1) = (executed, Inl ''unmapped'', u4)" by blast
  from failed_call_counts_twice [OF flat_laws sample_reach(1) _ _ _ u1 _ _ _ st, of 0 "ByIndex 0" 0 no_listing "[]" u1] r1 obtain em1 where
    em1: "call_function True no_listing ?uc 0 (ByIndex 0) ?em = (Err (EmulationError ''unmapped''), em1)"
    and twice: "\<And>i' identifier' em2. call_function True no_listing ?uc i' identifier' em1 = (Ok (), em2) \<Longrightarrow>
        (\<exists>u executed u'. emu_start ?uc 0 0 u = (executed, Inr (), u')
          \<and> (\<forall>j < length (em_modules em1). \<forall>off < length (binary (em_module (em_modules em1 ! j))).
              0 < off \<or> (\<forall>k < j. module_end (em_modules em1 ! k) \<noteq> unat (em_offset (em_modules em1 ! j))) \<longrightarrow>
              instruction_execution_count (em_modules em2 ! j) off = instruction_execution_count (em_modules em1 ! j) off
                + 2 * count_list executed (em_offset (em_modules em1 ! j) + of_nat off)))" by auto
  have em1_is: "em_modules em1 = [\<lparr>em_offset = 0, em_module = sample_code, executed_instructions = [(1, 1)]\<rparr>]"
    and tr: "trampoline_offset em1 = 0" "trampoline_len em1 = 0"
    using em1 e by (auto simp: call_function_def update_module_def on_engine_def lift_uc_def seq_def u64_add_def
        start_engine_def execute_hooks_def code_hook_def candidate_matches_def count_instruction_def)
  obtain r m' where "engine em1 = (r, m')" by (cases "engine em1")
  with em1_is tr have "\<exists>em2. call_function True no_listing ?uc 0 (ByIndex 1) em1 = (Ok (), em2)"
    by (auto simp: call_function_def update_module_def on_engine_def lift_uc_def seq_def u64_add_def start_engine_def)
  then obtain em2 where em2: "call_function True no_listing ?uc 0 (ByIndex 1) em1 = (Ok (), em2)" by blast
  from twice [OF em2] em1_is obtain u ex u' where ex: "emu_start ?uc 0 0 u = (ex, Inr (), u')"
    "instruction_execution_count (em_modules em2 ! 0) 1 = instruction_execution_count (em_modules em1 ! 0) 1 + 2 * count_list ex 1"
    by auto
  from ex(1) have "ex = [1]" by (cases u) simp
  with ex(2) em1 em2 show ?thesis by auto
qed

end
