(* ===== verification/Sample_Modules.thy ===== *)
theory Sample_Modules
  imports Import_Slots Program_Total Module_Contents Emulator_Calls
begin

text \<open>
  Small modules that are compiled here, with instances of the packages: a parser that delivers given payloads,
  assemblers that accept everything, a processor emulator that keeps memory and registers. The theorems on
  whole modules are applied to them.
\<close>

section \<open>One function\<close>

text \<open>One function that adds its two parameters.\<close>

definition sample_payloads :: "payload list" where
  "sample_payloads = [P_TypeSection [Inr (TypeDef_Func binary_type)], P_FunctionSection [Inr 0],
     P_CodeSectionEntry add_function, P_End]"

abbreviation sample_parser :: "(payload list, unit, nat) wasmparser" where
  "sample_parser \<equiv> scripted sample_payloads"

lemma sample_delivers: "delivers sample_parser (new_parser sample_parser) [] False sample_payloads"
  using scripted_delivers [of "butlast sample_payloads" sample_payloads "[]" False]
  by (simp add: scripted_def sample_payloads_def)

lemma scripted_simps [simp]:
  "validate_section (scripted ps) v p = Inr v" "code_section_entry (scripted ps) v = Inr (0, v)"
  "define_locals (scripted ps) fv off count ty = Inr fv" "check_op (scripted ps) fv off op = Inr (Suc fv)"
  "operand_stack_height (scripted ps) fv = fv" "finish_function (scripted ps) fv pos = Inr ()"
  by (simp_all add: scripted_def permissive_def)

lemma sample_handled:
  "\<exists>cs0 cs. initial_state accepting sample_parser = Ok cs0
     \<and> handle_all True accepting sample_parser cs0 sample_payloads = Ok cs
     \<and> length (instructions (c_asm cs)) = 19"
  by (simp add: initial_state_def new_asm_def sample_payloads_def validate_def on_type_def on_function_def
      on_code_def create_label_def add_instruction_def function_type_of_def arith_simps
      compile_function_def binary_type_def add_function_def integer_registers_def
      layout_params_def layout_param_def compile_operator_def pop_back_def pop_front_def
      instructions_def Let_def)

text \<open>An assembler that never fails makes the end of \<open>compile\<close> succeed.\<close>

definition never_fails :: "iced \<Rightarrow> bool" where
  "never_fails ic = (new_assembler ic = None \<and> (\<forall>i. refuses ic i = None)
     \<and> (\<forall>ls p l. refuses_label ic ls p l = None) \<and> (\<forall>ls. \<exists>bytes. encode ic ls = Inr bytes)
     \<and> (\<forall>ls l. \<exists>ip. label_ip ic ls l = Inr ip))"

lemma bind_total: "never_fails ic \<Longrightarrow> \<exists>r. foldM (bind_label ic bodies labels) am xs = Ok r"
proof (induction xs arbitrary: am)
  case (Cons x xs)
  obtain a m n i where eqs: "am = (a, m)" "x = (n, i)" by (cases am; cases x)
  have "\<exists>ip. current_ip ic b l = Ok ip" for b l
    using Cons.prems by (auto simp: never_fails_def current_ip_def) (metis and_then.simps(1) lift_iced_simps(1))
  then have "\<exists>r. bind_label ic bodies labels am x = Ok r"
    using Cons.prems
    by (auto simp: eqs bind_label_def set_label_def add_instruction_def never_fails_def split: option.splits)
      (metis and_then.simps(1))
  with Cons show ?case by auto
qed simp

lemma finish_total:
  assumes "never_fails ic"
  shows "\<exists>am. finish_module ic cs = Ok am"
proof -
  have acc: "accepts ic is" "accepts_moves ic" for "is"
    using assms by (auto simp: never_fails_def accepts_def accepts_moves_def)
  obtain opt labels where o: "optimize ic (instructions (c_asm cs)) (c_label_indices cs) = Ok (opt, labels)"
    using optimize_total [OF acc] by fastforce
  obtain a where a: "emit ic opt ((c_asm cs)\<lparr>asm_lines := [], asm_pending := None\<rparr>) = Ok a"
    using emit_refuses_nothing [of ic] assms by (fastforce simp: never_fails_def)
  obtain b m where b: "foldM (bind_label ic (c_function_bodies cs) labels)
      (a\<lparr>asm_lines := [], asm_pending := None\<rparr>, c_module cs) (enumerate 0 (instructions a)) = Ok (b, m)"
    using bind_total [OF assms] by fastforce
  obtain bytes where "encode ic (asm_lines b) = Inr bytes" using assms unfolding never_fails_def by blast
  with o a b show ?thesis by (simp add: finish_module_def take_instructions_def)
qed

lemma never_fails_accepting: "never_fails accepting"
  by (simp add: never_fails_def accepting_def)

lemma sample_compiles:
  "\<exists>am. compile True accepting sample_parser [] = Some (Ok am)" "fits accepting sample_parser sample_payloads"
proof -
  from sample_handled obtain cs0 cs where cs: "initial_state accepting sample_parser = Ok cs0"
    "handle_all True accepting sample_parser cs0 sample_payloads = Ok cs" "length (instructions (c_asm cs)) = 19"
    by blast
  from finish_total [OF never_fails_accepting, of cs] cs(1,2) parse_loop_delivers [OF sample_delivers]
  show "\<exists>am. compile True accepting sample_parser [] = Some (Ok am)" by (auto simp: compile_def)
  from cs show "fits accepting sample_parser sample_payloads" by (simp add: fits_def)
qed

section \<open>An import\<close>

text \<open>An assembler that encodes the declared data only.\<close>

definition data_iced :: iced where
  "data_iced = accepting\<lparr>encode := (\<lambda>lines. Inr (data_bytes (map snd lines))),
     label_ip := (\<lambda>lines l. Inr (length (data_bytes (map snd (takeWhile (\<lambda>x. fst x \<noteq> Some l) lines)))))\<rparr>"

lemma data_iced_laws: "places_data data_iced" "never_fails data_iced"
proof -
  have "takeWhile (\<lambda>x. fst x \<noteq> Some l) (lines @ [(Some l, i)]) = lines" if "Some l \<notin> fst ` set lines"
    for l i and lines :: "line list"
    using that by (induction lines) auto
  then show "places_data data_iced" by (simp add: places_data_def data_iced_def)
  show "never_fails data_iced" by (simp add: never_fails_def data_iced_def)
qed

definition import_payloads :: "payload list" where
  "import_payloads = [P_TypeSection [Inr (TypeDef_Func binary_type)],
     P_ImportSection [Inr \<lparr>im_module = ''env'', im_field = Some ''f'', im_ty = Import_Function 0\<rparr>], P_End]"

lemma import_handled:
  "\<exists>cs0 cs. initial_state data_iced (scripted import_payloads) = Ok cs0
     \<and> handle_all True data_iced (scripted import_payloads) cs0 import_payloads = Ok cs
     \<and> m_imports (c_module cs) = [(0, ''env'', Some ''f'', 0)] \<and> length (instructions (c_asm cs)) = 2
     \<and> c_label_indices cs = [(1, 1)]"
  by (simp add: initial_state_def new_asm_def import_payloads_def validate_def on_type_def on_import_def
      create_label_def set_label_def add_instruction_def current_ip_def arith_simps Let_def data_iced_def accepting_def
      new_module_def instructions_def)

lemma import_compiles:
  "\<exists>am. compile True data_iced (scripted import_payloads) [] = Some (Ok am)
     \<and> m_imports (the_module am) = [(0, ''env'', Some ''f'', 0)]"
  "delivers (scripted import_payloads) (new_parser (scripted import_payloads)) [] False import_payloads"
  "fits data_iced (scripted import_payloads) import_payloads" "imports_first import_payloads"
proof -
  show d: "delivers (scripted import_payloads) (new_parser (scripted import_payloads)) [] False import_payloads"
    using scripted_delivers [of "butlast import_payloads" import_payloads "[]" False]
    by (simp add: scripted_def import_payloads_def)
  from import_handled obtain cs0 cs where cs: "initial_state data_iced (scripted import_payloads) = Ok cs0"
    "handle_all True data_iced (scripted import_payloads) cs0 import_payloads = Ok cs"
    "m_imports (c_module cs) = [(0, ''env'', Some ''f'', 0)]" "length (instructions (c_asm cs)) = 2"
    "c_label_indices cs = [(1, 1)]" by blast
  obtain am where am: "finish_module data_iced cs = Ok am" using finish_total [OF data_iced_laws(2)] by blast
  have "indices_ok (c_label_indices cs)" by (simp add: cs(5) indices_ok_def)
  from finish_keeps [OF am this] cs(3) have "m_imports (the_module am) = [(0, ''env'', Some ''f'', 0)]"
    by (simp add: other_fields_def)
  with am cs(1,2) parse_loop_delivers [OF d] show "\<exists>am. compile True data_iced (scripted import_payloads) [] = Some (Ok am)
     \<and> m_imports (the_module am) = [(0, ''env'', Some ''f'', 0)]" by (auto simp: compile_def)
  from cs show "fits data_iced (scripted import_payloads) import_payloads" by (simp add: fits_def)
  have "code_bodies import_payloads = []" by (simp add: import_payloads_def)
  then show "imports_first import_payloads"
    unfolding imports_first_def by (intro exI [of _ import_payloads] exI [of _ "[]"]) simp
qed

section \<open>Functions that call each other\<close>

definition unary_type :: func_type where
  "unary_type = \<lparr>ft_params = [I64], ft_returns = [I64]\<rparr>"

text \<open>Function 0 is imported, function 1 doubles its parameter, function 2 calls one after the other.\<close>

definition double_function :: func_body where
  "double_function = \<lparr>fb_locals = Inr [],
     fb_operators = Inr [Inr (LocalGet 0, 0), Inr (LocalGet 0, 2), Inr (I64Add, 4), Inr (End, 5)], fb_position = 6\<rparr>"

definition caller_function :: func_body where
  "caller_function = \<lparr>fb_locals = Inr [],
     fb_operators = Inr [Inr (LocalGet 0, 0), Inr (Call 1, 2), Inr (Call 0, 4), Inr (End, 6)], fb_position = 7\<rparr>"

definition calling_payloads :: "payload list" where
  "calling_payloads = [P_TypeSection [Inr (TypeDef_Func unary_type)],
     P_ImportSection [Inr \<lparr>im_module = ''env'', im_field = Some ''f'', im_ty = Import_Function 0\<rparr>],
     P_FunctionSection [Inr 0, Inr 0], P_CodeSectionEntry double_function, P_CodeSectionEntry caller_function, P_End]"

lemma calling_handled:
  "\<exists>cs0 cs. initial_state data_iced (scripted calling_payloads) = Ok cs0
     \<and> handle_all True data_iced (scripted calling_payloads) cs0 calling_payloads = Ok cs
     \<and> length (instructions (c_asm cs)) < 100 \<and> indices_ok (c_label_indices cs)
     \<and> m_imports (c_module cs) = [(0, ''env'', Some ''f'', 0)]"
  by (simp add: initial_state_def new_asm_def calling_payloads_def validate_def on_type_def on_import_def on_function_def
      on_code_def create_label_def set_label_def add_instruction_def current_ip_def function_type_of_def arith_simps
      compile_function_def unary_type_def double_function_def caller_function_def integer_registers_def
      layout_params_def layout_param_def compile_operator_def pop_back_def pop_front_def emit_call_def
      instructions_def indices_ok_def Let_def data_iced_def accepting_def new_module_def)

lemma calling_compiles:
  "delivers (scripted calling_payloads) (new_parser (scripted calling_payloads)) [] False calling_payloads"
  "\<exists>am. compile True data_iced (scripted calling_payloads) [] = Some (Ok am)
     \<and> m_imports (the_module am) = [(0, ''env'', Some ''f'', 0)]"
  "fits data_iced (scripted calling_payloads) calling_payloads" "imports_first calling_payloads"
proof -
  show d: "delivers (scripted calling_payloads) (new_parser (scripted calling_payloads)) [] False calling_payloads"
    using scripted_delivers [of "butlast calling_payloads" calling_payloads "[]" False]
    by (simp add: scripted_def calling_payloads_def)
  from calling_handled obtain cs0 cs where cs: "initial_state data_iced (scripted calling_payloads) = Ok cs0"
    "handle_all True data_iced (scripted calling_payloads) cs0 calling_payloads = Ok cs"
    "length (instructions (c_asm cs)) < 100" "indices_ok (c_label_indices cs)"
    "m_imports (c_module cs) = [(0, ''env'', Some ''f'', 0)]" by blast
  obtain am where am: "finish_module data_iced cs = Ok am" using finish_total [OF data_iced_laws(2)] by blast
  with finish_keeps [OF am cs(4)] cs(1,2,5) parse_loop_delivers [OF d]
  show "\<exists>am. compile True data_iced (scripted calling_payloads) [] = Some (Ok am)
     \<and> m_imports (the_module am) = [(0, ''env'', Some ''f'', 0)]" by (auto simp: compile_def other_fields_def)
  from cs show "fits data_iced (scripted calling_payloads) calling_payloads" by (simp add: fits_def)
  show "imports_first calling_payloads"
    unfolding imports_first_def
    by (intro exI [of _ "take 3 calling_payloads"] exI [of _ "drop 3 calling_payloads"]) (simp add: calling_payloads_def)
qed

text \<open>The imported function adds one.\<close>

definition calling_program :: program where
  "calling_program = [1 \<mapsto> (1, [LocalGet 0, LocalGet 0, I64Add, End]), 2 \<mapsto> (1, [LocalGet 0, Call 1, Call 0, End])]"

definition calling_host :: host where
  "calling_host = [0 \<mapsto> (1, \<lambda>h args. Some (hd args + 1))]"

lemma calling_types:
  "found_type calling_payloads 0 = Some unary_type" "found_type calling_payloads 1 = Some unary_type"
  "found_type calling_payloads 2 = Some unary_type"
  by (simp_all add: calling_payloads_def found_type_def nth_opt_def)

lemma calling_program_of: "program_of calling_payloads calling_program calling_host" "order_free calling_program"
proof -
  have "map_of (zip (body_indices 0 calling_payloads) (code_bodies calling_payloads))
      = [1 \<mapsto> double_function, 2 \<mapsto> caller_function]"
    by (auto simp: calling_payloads_def function_imports_def)
  then have "module_program calling_payloads 1 = calling_program 1" "module_program calling_payloads 2 = calling_program 2"
    using calling_types by (simp_all add: module_program_def calling_program_def i64_function_def unary_type_def double_function_def
        caller_function_def operators_of_def)
  then show "program_of calling_payloads calling_program calling_host"
    by (auto simp: program_of_def calling_program_def calling_host_def arity_def split: if_splits)
  show "order_free calling_program"
    by (auto simp: order_free_def calling_program_def split: if_splits)
qed

lemma calling_host_of: "m_imports m = [(0, ''env'', Some ''f'', 0)] \<Longrightarrow> host_of calling_payloads m calling_host"
  using calling_types(1) by (auto simp: host_of_def calling_host_def unary_type_def is_int_def split: if_splits)

lemma calling_total: "validated calling_program calling_host" "ranked calling_program (\<lambda>g. g)" "hosts_return 0 calling_host"
  by (auto simp: validated_def ranked_def hosts_return_def returns_given_def calling_program_def calling_host_def arity_def
      split: if_splits)

text \<open>A machine with the imported function at \<open>0x500\<close> and the slots at \<open>0x20000\<close>, above the stack.\<close>

definition calling_env :: x86_env where
  "calling_env = \<lparr>call_to = (\<lambda>l s. None),
     call_at = (\<lambda>a s. if a = 0x500 then Some (set_reg RAX (regs s RDI + 1) s) else None),
     label_address = (\<lambda>l. 0x20000), stack_top = 0x10000, stack_size = 100\<rparr>"

definition calling_state :: x86 where
  "calling_state = set_mem 0x20000 0x500 (set_reg RDI 5 (set_reg RSP 0x10000 sample_state))"

lemma calling_host_at: "host_at calling_env 0x500 1 (\<lambda>h args. Some (hd args + 1))"
proof -
  have "agree D (set_reg RAX (regs s RDI + 1) s) (set_reg RAX (regs t RDI + 1) t)" if "agree D s t" for D s t
    using agree_set_reg [OF that] agree_regs [OF that] by metis
  then show ?thesis
    by (auto simp: host_at_def returns_by_def calling_env_def arguments_def integer_registers_def machine_simps)
qed

lemma calling_slots_apart: "k \<le> 100 \<Longrightarrow> apart (down 0x10000 k) (0x20000 :: u64)"
  using down_apart [of "8192 + k" 0 "0x20000"] by (simp add: down_def)

lemma calling_runs:
  "stack_size calling_env < 2 ^ 59" "0 \<le> stack_size calling_env" "regs calling_state RSP = down (stack_top calling_env) 0"
  "linked_imports calling_env slots calling_host calling_state"
  "wasm_call calling_program calling_host 2 2 (stack_size calling_env - 0) (arguments 1 calling_state) = Some 11"
proof -
  show "stack_size calling_env < 2 ^ 59" "0 \<le> stack_size calling_env" "regs calling_state RSP = down (stack_top calling_env) 0"
    by (simp_all add: calling_env_def calling_state_def down_def machine_simps)
  have "off_stack calling_env 0x20000"
    using calling_slots_apart by (simp add: off_stack_def calling_env_def)
  moreover have "read64 (mem calling_state) 0x20000 = 0x500" by (simp add: calling_state_def machine_simps read_write_same)
  moreover have "label_address calling_env l = 0x20000" for l by (simp add: calling_env_def)
  ultimately show "linked_imports calling_env slots calling_host calling_state"
    using calling_host_at by (simp add: linked_imports_def calling_host_def)
  have "arguments 1 calling_state = [5]"
    by (simp add: arguments_def integer_registers_def calling_state_def machine_simps)
  then show "wasm_call calling_program calling_host 2 2 (stack_size calling_env - 0) (arguments 1 calling_state) = Some 11"
    by (simp add: wasm_call_def calling_env_def calling_program_def calling_host_def callee_def numeral_2_eq_2)
qed

section \<open>An import that is called\<close>

text \<open>Function 0 is imported, function 1 passes its parameter on to it.\<close>

definition importer_function :: func_body where
  "importer_function = \<lparr>fb_locals = Inr [],
     fb_operators = Inr [Inr (LocalGet 0, 0), Inr (Call 0, 2), Inr (End, 4)], fb_position = 5\<rparr>"

definition importer_payloads :: "payload list" where
  "importer_payloads = [P_TypeSection [Inr (TypeDef_Func unary_type)],
     P_ImportSection [Inr \<lparr>im_module = ''env'', im_field = Some ''f'', im_ty = Import_Function 0\<rparr>],
     P_FunctionSection [Inr 0], P_CodeSectionEntry importer_function, P_End]"

definition importer_code :: "instr list" where
  "importer_code = [ZERO_BYTES, DQ [import_placeholder], DQ [0], PUSH RBP, MOV_rr Rm_r RBP RSP, SUB_imm32 RSP 8,
     MOV_mr (Mem Ptr RBP (- 8)) RDI, MOV_rm RAX (Mem Ptr RBP (- 8)), PUSH RAX, POP RDI,
     MOV_rm R10 (MemLabel 1), CALL_r R10, PUSH RAX, POP RAX, ADD_imm32 RSP 8, MOV_rr Rm_r RSP RBP, POP RBP, RET]"

lemma importer_handled:
  "\<exists>cs0 cs. initial_state data_iced (scripted importer_payloads) = Ok cs0
     \<and> handle_all True data_iced (scripted importer_payloads) cs0 importer_payloads = Ok cs
     \<and> instructions (c_asm cs) = importer_code \<and> c_label_indices cs = [(1, 1), (2, 2), (3, 3)] \<and> c_function_bodies cs = [(3, 1)]
     \<and> m_imports (c_module cs) = [(0, ''env'', Some ''f'', 0)] \<and> m_function_bodies (c_module cs) = []"
  by (simp add: initial_state_def new_asm_def importer_payloads_def validate_def on_type_def on_import_def on_function_def
      on_code_def create_label_def set_label_def add_instruction_def current_ip_def function_type_of_def arith_simps
      compile_function_def unary_type_def importer_function_def integer_registers_def
      layout_params_def layout_param_def compile_operator_def pop_back_def pop_front_def emit_call_def
      Let_def data_iced_def accepting_def new_module_def instructions_def importer_code_def numeral_3_eq_3)

lemma importer_optimised:
  "normal_form importer_code = [ZERO_BYTES, DQ [import_placeholder], DQ [0], PUSH RBP, MOV_rr Rm_r RBP RSP, SUB_imm32 RSP 8,
     MOV_mr (Mem Ptr RBP (- 8)) RDI, MOV_rm RAX (Mem Ptr RBP (- 8)), MOV_rr Rm_r RDI RAX,
     MOV_rm R10 (MemLabel 1), CALL_r R10, ADD_imm32 RSP 8, MOV_rr Rm_r RSP RBP, POP RBP, RET]"
  by code_simp

lemma importer_labels: "track importer_code 1 = 1" "track importer_code 2 = 2" "track importer_code 3 = 3"
  by code_simp+

lemma importer_compiles:
  "delivers (scripted importer_payloads) (new_parser (scripted importer_payloads)) [] False importer_payloads"
  "fits data_iced (scripted importer_payloads) importer_payloads" "imports_first importer_payloads"
  "\<exists>am. compile True data_iced (scripted importer_payloads) [] = Some (Ok am)
     \<and> m_imports (the_module am) = [(0, ''env'', Some ''f'', 0)] \<and> m_function_bodies (the_module am) = [(1, 16)]
     \<and> length (binary am) = 16"
proof -
  show d: "delivers (scripted importer_payloads) (new_parser (scripted importer_payloads)) [] False importer_payloads"
    using scripted_delivers [of "butlast importer_payloads" importer_payloads "[]" False]
    by (simp add: scripted_def importer_payloads_def)
  show "imports_first importer_payloads"
    unfolding imports_first_def
    by (intro exI [of _ "take 3 importer_payloads"] exI [of _ "drop 3 importer_payloads"]) (simp add: importer_payloads_def)
  from importer_handled obtain cs0 cs where cs: "initial_state data_iced (scripted importer_payloads) = Ok cs0"
    "handle_all True data_iced (scripted importer_payloads) cs0 importer_payloads = Ok cs"
    "instructions (c_asm cs) = importer_code" "c_label_indices cs = [(1, 1), (2, 2), (3, 3)]" "c_function_bodies cs = [(3, 1)]"
    "m_imports (c_module cs) = [(0, ''env'', Some ''f'', 0)]" "m_function_bodies (c_module cs) = []" by blast
  from cs(1-3) show "fits data_iced (scripted importer_payloads) importer_payloads"
    by (simp add: fits_def importer_code_def)
  obtain am where am: "finish_module data_iced cs = Ok am" using finish_total [OF data_iced_laws(2)] by blast
  have ok: "indices_ok (c_label_indices cs)" by (simp add: cs(4) indices_ok_def)
  from finish_module_Ok [OF am ok] obtain a m where
    "foldM (bind_label data_iced [(3, 1)] [(1, 1), (2, 2), (3, 3)]) (a, c_module cs) (enumerate 0 (normal_form importer_code)) = Ok (m, the_module am)"
    "asm_pending a = None" "asm_lines a = []" "encode data_iced (asm_lines m) = Inr (binary am)"
    unfolding cs(3-5) using importer_labels by auto
  then have "the_module am = (c_module cs)\<lparr>m_function_bodies := [(1, 16)]\<rparr> \<and> binary am = le64 import_placeholder @ le64 0"
    by (auto simp: importer_optimised bind_label_def set_label_def current_ip_def add_instruction_def data_iced_def accepting_def cs(7) res_simps)
  with cs(6) have "m_imports (the_module am) = [(0, ''env'', Some ''f'', 0)]" "m_function_bodies (the_module am) = [(1, 16)]"
    "length (binary am) = 16" by simp_all
  then show "\<exists>am. compile True data_iced (scripted importer_payloads) [] = Some (Ok am)
     \<and> m_imports (the_module am) = [(0, ''env'', Some ''f'', 0)] \<and> m_function_bodies (the_module am) = [(1, 16)]
     \<and> length (binary am) = 16"
    using am cs(1,2) parse_loop_delivers [OF d] by (auto simp: compile_def)
qed

definition tame_unicorn :: "flat unicorn" where
  "tame_unicorn = (flat_unicorn [])\<lparr>emu_start := \<lambda>start_at stop_at u. ([], Inr (), u)\<rparr>"

lemma tame_laws: "uc_laws tame_unicorn"
  using flat_laws [of "[]"] by (simp add: uc_laws_def tame_unicorn_def memory_of_def [abs_def] register_of_def [abs_def])

lemma tame_reach: "emu_reach accepting tame_unicorn fresh_emulator"
  by (rule New)
    (simp add: new_emulator_def tame_unicorn_def flat_unicorn_def lift_uc_def try_uc_def trampoline_code_def new_asm_def add_instruction_def
      u64_add_def fresh_emulator_def accepting_def)

lemma importer_called:
  assumes "m_imports (the_module am) = [(0, ''env'', Some ''f'', 0)]" and "m_function_bodies (the_module am) = [(1, 16)]"
    and "length (binary am) = 16"
  defines "em \<equiv> snd (add_module True tame_unicorn am fresh_emulator)"
  shows "emu_reach accepting tame_unicorn em" "em_modules em = [\<lparr>em_offset = 0, em_module = am, executed_instructions = []\<rparr>]"
    "\<exists>em'. call_function True no_listing tame_unicorn 0 (ByIndex 1) (snd (link_module le64 0 ''env'' (Some ''f'') 7 em)) = (Ok (), em')"
proof -
  show "emu_reach accepting tame_unicorn em" unfolding em_def by (rule emu_reach.Add_module [OF tame_reach]) (simp add: assms(3))
  show "em_modules em = [\<lparr>em_offset = 0, em_module = am, executed_instructions = []\<rparr>]"
    by (simp add: em_def add_module_def fresh_emulator_def on_engine_def lift_uc_def u64_add_def seq_def tame_unicorn_def)
  show "\<exists>em'. call_function True no_listing tame_unicorn 0 (ByIndex 1) (snd (link_module le64 0 ''env'' (Some ''f'') 7 em)) = (Ok (), em')"
  proof -
    have "find_map (import_matches ''env'' (Some ''f'')) (m_imports (the_module am)) = Some 0"
      by (simp add: assms(1) import_matches_def)
    from le.link_import_patches [OF this, of 7] assms(3) obtain am' where
      "(link_import le64 am ''env'' (Some ''f'') 7 :: (emu_error, assembled_module) res) = Ok am'" by (auto simp: binary_def)
    note am' = this link_import_length [OF this]
    have "dump_asm True no_listing am' 0 = (Ok [] :: (emu_error, string) res)"
      using am'(2) assms(2,3) by (simp add: dump_asm_def no_listing_def first_function_def slice_from_def)
    with am' assms(2) show ?thesis
      by (simp add: em_def add_module_def fresh_emulator_def on_engine_def lift_uc_def u64_add_def seq_def tame_unicorn_def
         link_module_def call_function_def update_module_def start_engine_def function_entry_point_index)
  qed
qed

end
