(* ===== verification/Core_Actions.thy ===== *)
theory Core_Actions
  imports Para_Prelude
begin

text \<open>
  What a core of the machine does, one action at a time. The kernel under
  \<open>src/paraos/src/\<close> runs the same code on every core; its functions are translated into
  the sequences of actions they perform, in program order, and \<open>Core_Steps\<close> interleaves
  the sequences of several cores. An action is a port access, a call of a synchronisation
  primitive of the package \<open>spin\<close>, a call of the heap, an access to a local variable that a
  closure shares with its function, or a panic. A call that waits is one
  action that is repeated until it returns.
\<close>

text \<open>Text as the kernel prints it: \<open>str\<close> is a sequence of Unicode scalar values.\<close>

type_synonym rust_str = "u32 list"

abbreviation str :: "string \<Rightarrow> rust_str" where
  "str \<equiv> map of_char"

text \<open>The cells of type \<open>Once<Barrier>\<close>, numbered: a \<open>Kernel\<close> holds a reference to one of them.\<close>

type_synonym cell = nat

datatype action =
    Lock                                     \<comment> \<open>\<open>COM1.mutex.lock()\<close>\<close>
  | Unlock                                   \<comment> \<open>the guard is dropped\<close>
  | Outb u16 u8
  | Await_bits u16 u8                        \<comment> \<open>\<open>while inb(port) & mask == 0 {}\<close>\<close>
  | Call_once cell nat                       \<comment> \<open>\<open>call_once(|| Barrier::new(n))\<close>\<close>
  | Init_once cell "(unit, nat) res"         \<comment> \<open>\<open>call_once\<close> with a closure that computes the number itself\<close>
  | Arrive cell                              \<comment> \<open>\<open>wait()\<close> is entered\<close>
  | Await cell                               \<comment> \<open>\<open>wait()\<close> returns\<close>
  | Elect cell "action list" "action list"   \<comment> \<open>\<open>wait()\<close> returns; what is done if \<open>is_leader()\<close> and if not\<close>
  | Add_to_heap u64 u64
  | Write_total u16 rust_str rust_str        \<comment> \<open>prints \<open>stats_total_bytes()\<close> in MB between two texts\<close>
  | Assign bool                              \<comment> \<open>to the local variable \<open>initialized\<close>\<close>
  | Assert bool string                       \<comment> \<open>\<open>assert!\<close> that it has this value\<close>
  | Abort string                             \<comment> \<open>a panic with this message\<close>
  | Loop                                     \<comment> \<open>\<open>loop {}\<close>\<close>

text \<open>Decimal notation, as \<open>{}\<close> prints an unsigned integer.\<close>

fun decimal :: "nat \<Rightarrow> rust_str" where
  "decimal n = (if n < 10 then [of_nat (48 + n)] else decimal (n div 10) @ [of_nat (48 + n mod 10)])"

declare decimal.simps [simp del]

end
