(* ===== verification/Serial_Port.thy ===== *)
theory Serial_Port
  imports Core_Actions
begin

text \<open>
  The serial port, \<open>src/paraos/src/serial.rs\<close>, and the panic handlers that print to it,
  \<open>src/paraos/src/panic.rs\<close> and those of \<open>main.rs\<close> and \<open>test.rs\<close>. A \<open>Serial\<close> is a reference to a \<open>Port\<close>; the only port of the
  program is the static \<open>COM1\<close>, so a \<open>Serial\<close> is its port number here, there is
  one mutex, and adding the register number to \<open>0x3f8\<close> does not overflow. The guard that \<open>self.0.lock();\<close> returns is not bound to a variable and is
  dropped in the same statement: every \<open>Lock\<close> is followed by its \<open>Unlock\<close>.
  What the actions do, and what cores that print at the same time can send, is in
  \<open>Core_Steps\<close> and \<open>Serial_Sound\<close>.
\<close>

section \<open>Ports\<close>

record port =
  port_number :: u16

definition new_port :: "u16 \<Rightarrow> port" where
  "new_port p = \<lparr>port_number = p\<rparr>"

definition com1 :: port where
  "com1 = new_port 0x3f8"

text \<open>\<open>self.0.lock();\<close> as a statement.\<close>

definition lock_statement :: "action list" where
  "lock_statement = [Lock, Unlock]"

section \<open>The methods of \<open>Serial\<close>\<close>

text \<open>\<open>is_transmit_empty\<close> is the register it reads and the bits one of which has to be set; the
  \<open>while\<close> loop of \<open>write_char\<close> reads until it is.\<close>

definition is_transmit_empty :: "port \<Rightarrow> u16 \<times> u8" where
  "is_transmit_empty p = (port_number p + 5, 0x20)"

definition is_transmit_empty_loop :: "port \<Rightarrow> action list" where
  "is_transmit_empty_loop p = (case is_transmit_empty p of (register, bits) \<Rightarrow> [Await_bits register bits])"

lemma transmit_loop: "is_transmit_empty_loop p = [Await_bits (port_number p + 5) 0x20]"
  by (simp add: is_transmit_empty_loop_def is_transmit_empty_def)

definition serial_init :: "port \<Rightarrow> action list" where
  "serial_init p = lock_statement @
     [Outb (port_number p + 1) 0x00,
      Outb (port_number p + 3) 0x80,
      Outb (port_number p + 0) 0x03,
      Outb (port_number p + 1) 0x00,
      Outb (port_number p + 3) 0x03,
      Outb (port_number p + 2) 0xC7,
      Outb (port_number p + 4) 0x0B,
      Outb (port_number p + 4) 0x0F]"

definition write_str :: "port \<Rightarrow> rust_str \<Rightarrow> action list" where
  "write_str p s = lock_statement @ map (\<lambda>c. Outb (port_number p + 0) (ucast c)) s"

definition write_char :: "port \<Rightarrow> u32 \<Rightarrow> action list" where
  "write_char p c = lock_statement @ is_transmit_empty_loop p @ [Outb (port_number p + 0) (ucast c)]"

text \<open>\<open>core::fmt::write\<close> hands the pieces of the formatted text to \<open>write_str\<close> one after
  the other; \<open>write_str\<close> never fails, so the \<open>expect\<close> on its result never panics.\<close>

definition fmt_write :: "port \<Rightarrow> rust_str list \<Rightarrow> action list" where
  "fmt_write p pieces = concat (map (write_str p) pieces)"

section \<open>Panics\<close>

text \<open>The panic information is the pieces that its \<open>Display\<close> hands to \<open>write_str\<close>.\<close>

definition panic_print :: "rust_str list \<Rightarrow> action list" where
  "panic_print info = serial_init com1 @ fmt_write com1 ([str [CHR 0x0A]] @ info @ [str [CHR 0x0A]])"

definition panic :: "rust_str list \<Rightarrow> action list" where
  "panic info = panic_print info @ [Loop]"

text \<open>The handler of the test build, \<open>src/paraos/src/test.rs\<close>, also tells the debugging device of
  the emulator to exit; the handlers of \<open>main.rs\<close> and \<open>test.rs\<close> are chosen by \<open>cfg(test)\<close>.\<close>

definition test_panic :: "rust_str list \<Rightarrow> action list" where
  "test_panic info = panic_print info @ [Outb 0x501 1, Loop]"

definition panic_handler :: "bool \<Rightarrow> rust_str list \<Rightarrow> action list" where
  "panic_handler test info = (if test then test_panic info else panic info)"

end
