(* ===== verification/Core_Steps.thy ===== *)
theory Core_Steps
  imports Serial_Port
begin

text \<open>
  Several cores at work. The state \<open>sys\<close> keeps what the cores share: the calls made so far
  of the port's mutex and of the \<open>Once<Barrier>\<close> cells, the port accesses, and
  the regions handed to the heap. The local variable of a core that its actions access is kept
  beside them. The parameter \<open>environment\<close> answers for the code and
  hardware that is not part of the repository, as a function of those histories: whether
  the mutex (package \<open>spin\<close>) grants a lock, whether a call of \<open>Barrier::wait\<close> returns
  and whether its caller is the leader,
  which byte \<open>inb\<close> reads, how many bytes the heap
  (package \<open>buddy_system_allocator\<close>) says it holds, and how a panic is shown; and it says
  which of the two panic handlers the build has.

  \<open>perform\<close> is one action of one core, \<open>exec\<close> the run of a core that nobody
  interrupts, and \<open>core_step\<close> one step of any of the cores.
\<close>

section \<open>State and environment\<close>

datatype port_event = Out u16 u8 | In u16 u8
datatype mutex_call = Locked | Unlocked
datatype rendezvous_call =
    Once nat       \<comment> \<open>\<open>call_once\<close> returns; the first one has made a barrier of this size\<close>
  | Begun          \<comment> \<open>the closure of the first \<open>call_once\<close> has panicked and will not return\<close>
  | Arrived nat    \<comment> \<open>this core has entered \<open>wait\<close>\<close>

record sys =
  mutex_calls :: "mutex_call list"
  rendezvous :: "cell \<Rightarrow> rendezvous_call list"
  port_log :: "port_event list"
  heap_regions :: "(u64 \<times> u64) list"
  initialized :: "nat \<Rightarrow> bool"

record environment =
  test_build :: bool
  grants :: "mutex_call list \<Rightarrow> bool"
  released :: "rendezvous_call list \<Rightarrow> nat \<Rightarrow> bool"
  leads :: "rendezvous_call list \<Rightarrow> nat \<Rightarrow> bool"
  inb :: "port_event list \<Rightarrow> u16 \<Rightarrow> u8"
  total_bytes :: "(u64 \<times> u64) list \<Rightarrow> nat"
  panic_text :: "string \<Rightarrow> rust_str list"

definition log_port :: "port_event \<Rightarrow> sys \<Rightarrow> sys" where
  "log_port ev s = s\<lparr>port_log := port_log s @ [ev]\<rparr>"

definition log_mutex :: "mutex_call \<Rightarrow> sys \<Rightarrow> sys" where
  "log_mutex c s = s\<lparr>mutex_calls := mutex_calls s @ [c]\<rparr>"

definition log_rendezvous :: "cell \<Rightarrow> rendezvous_call \<Rightarrow> sys \<Rightarrow> sys" where
  "log_rendezvous cl c s = s\<lparr>rendezvous := (rendezvous s)(cl := rendezvous s cl @ [c])\<rparr>"

definition set_initialized :: "nat \<Rightarrow> bool \<Rightarrow> sys \<Rightarrow> sys" where
  "set_initialized i v s = s\<lparr>initialized := (initialized s)(i := v)\<rparr>"

definition log_heap :: "u64 \<times> u64 \<Rightarrow> sys \<Rightarrow> sys" where
  "log_heap r s = s\<lparr>heap_regions := heap_regions s @ [r]\<rparr>"

lemma log_simps [simp]:
  "port_log (log_port ev s) = port_log s @ [ev]" "port_log (log_mutex c s) = port_log s"
  "port_log (log_rendezvous cl rc s) = port_log s" "port_log (log_heap r s) = port_log s"
  "mutex_calls (log_port ev s) = mutex_calls s" "mutex_calls (log_mutex c s) = mutex_calls s @ [c]"
  "mutex_calls (log_rendezvous cl rc s) = mutex_calls s" "mutex_calls (log_heap r s) = mutex_calls s"
  "heap_regions (log_port ev s) = heap_regions s" "heap_regions (log_mutex c s) = heap_regions s"
  "heap_regions (log_rendezvous cl rc s) = heap_regions s" "heap_regions (log_heap r s) = heap_regions s @ [r]"
  "rendezvous (log_port ev s) = rendezvous s" "rendezvous (log_mutex c s) = rendezvous s"
  "rendezvous (log_heap r s) = rendezvous s"
  "rendezvous (log_rendezvous cl rc s) = (rendezvous s)(cl := rendezvous s cl @ [rc])"
  "initialized (log_port ev s) = initialized s" "initialized (log_mutex c s) = initialized s"
  "initialized (log_rendezvous cl rc s) = initialized s" "initialized (log_heap r s) = initialized s"
  "port_log (set_initialized i v s) = port_log s" "mutex_calls (set_initialized i v s) = mutex_calls s"
  "rendezvous (set_initialized i v s) = rendezvous s" "heap_regions (set_initialized i v s) = heap_regions s"
  "initialized (set_initialized i v s) = (initialized s)(i := v)"
  by (simp_all add: log_port_def log_mutex_def log_rendezvous_def log_heap_def set_initialized_def)

section \<open>Actions\<close>

text \<open>A cell is initialised by the first \<open>call_once\<close> only.\<close>

fun barrier_size :: "rendezvous_call list \<Rightarrow> nat option" where
  "barrier_size [] = None"
| "barrier_size (Once n # h) = Some n"
| "barrier_size (Begun # h) = barrier_size h"
| "barrier_size (Arrived i # h) = barrier_size h"

text \<open>The state after an action and what the core still has to do. \<open>rest\<close> is the program after
  the action; a panic discards it.\<close>

fun perform :: "environment \<Rightarrow> nat \<Rightarrow> action \<Rightarrow> action list \<Rightarrow> sys \<Rightarrow> sys \<times> action list" where
  "perform e i Lock rest s =
     (if grants e (mutex_calls s) then (log_mutex Locked s, rest) else (s, Lock # rest))"
| "perform e i Unlock rest s = (log_mutex Unlocked s, rest)"
| "perform e i (Outb p v) rest s = (log_port (Out p v) s, rest)"
| "perform e i (Await_bits p m) rest s =
     (let v = inb e (port_log s) p
      in (log_port (In p v) s, if and v m \<noteq> 0 then rest else Await_bits p m # rest))"
| "perform e i (Call_once cl n) rest s = (log_rendezvous cl (Once n) s, rest)"
| "perform e i (Arrive cl) rest s = (log_rendezvous cl (Arrived i) s, rest)"
| "perform e i (Await cl) rest s =
     (if released e (rendezvous s cl) i then (s, rest) else (s, Await cl # rest))"
| "perform e i (Add_to_heap a b) rest s = (log_heap (a, b) s, rest)"
| "perform e i (Write_total p before after) rest s =
     (s, fmt_write \<lparr>port_number = p\<rparr>
           [before, decimal (total_bytes e (heap_regions s) div (1024 * 1024)), after] @ rest)"
| "perform e i (Init_once cl r) rest s =
     (case barrier_size (rendezvous s cl) of
        Some n \<Rightarrow> (log_rendezvous cl (Once n) s, rest)
      | None \<Rightarrow>
          if Begun \<in> set (rendezvous s cl) then (s, Init_once cl r # rest)
          else (case r of Ok n \<Rightarrow> (log_rendezvous cl (Once n) s, rest)
                | Err _ \<Rightarrow> (s, rest)
                | Panic m \<Rightarrow> (log_rendezvous cl Begun s, Abort m # rest)))"
| "perform e i (Elect cl as bs) rest s =
     (if released e (rendezvous s cl) i then (s, (if leads e (rendezvous s cl) i then as else bs) @ rest)
      else (s, Elect cl as bs # rest))"
| "perform e i (Assign v) rest s = (set_initialized i v s, rest)"
| "perform e i (Assert v m) rest s = (s, if initialized s i = v then rest else Abort m # rest)"
| "perform e i (Abort m) rest s = (s, panic_handler (test_build e) (panic_text e m))"
| "perform e i Loop rest s = (s, Loop # rest)"

partial_function (option) exec :: "environment \<Rightarrow> nat \<Rightarrow> action list \<Rightarrow> sys \<Rightarrow> sys option" where
  "exec e i prog s =
     (case prog of [] \<Rightarrow> Some s
      | a # rest \<Rightarrow> (case perform e i a rest s of (s', prog') \<Rightarrow> exec e i prog' s'))"

lemma exec_Nil [simp]: "exec e i [] s = Some s"
  by (simp add: exec.simps)

lemma exec_Cons: "exec e i (a # rest) s = (case perform e i a rest s of (s', prog') \<Rightarrow> exec e i prog' s')"
  by (subst exec.simps) simp

inductive core_step :: "environment \<Rightarrow> action list list \<times> sys \<Rightarrow> action list list \<times> sys \<Rightarrow> bool" for e where
  Core: "i < length progs \<Longrightarrow> progs ! i = a # rest \<Longrightarrow> perform e i a rest s = (s', prog')
      \<Longrightarrow> core_step e (progs, s) (progs[i := prog'], s')"

inductive_cases core_stepE: "core_step e (progs, s) (progs', s')"

abbreviation core_steps :: "environment \<Rightarrow> action list list \<times> sys \<Rightarrow> action list list \<times> sys \<Rightarrow> bool" where
  "core_steps e \<equiv> (core_step e)\<^sup>*\<^sup>*"

section \<open>What the packages promise\<close>

text \<open>A mutex grants a lock exactly when every earlier lock has been released.\<close>

definition mutual_exclusion :: "environment \<Rightarrow> bool" where
  "mutual_exclusion e = (\<forall>h. grants e h = (count_list h Locked = count_list h Unlocked))"

text \<open>A barrier for \<open>n\<close> threads lets the waiting ones go in groups of \<open>n\<close>, in the order of
  their arrival; it is used again after a group has gone, so what counts for a core is its last
  arrival. One core of a group, any of them, is told that it is the leader.\<close>

fun arrivals :: "rendezvous_call list \<Rightarrow> nat list" where
  "arrivals [] = []"
| "arrivals (Once n # h) = arrivals h"
| "arrivals (Begun # h) = arrivals h"
| "arrivals (Arrived i # h) = i # arrivals h"

fun last_index :: "'a list \<Rightarrow> 'a \<Rightarrow> nat option" where
  "last_index [] y = None"
| "last_index (x # xs) y = (case last_index xs y of Some k \<Rightarrow> Some (Suc k) | None \<Rightarrow> if x = y then Some 0 else None)"

definition barrier_contract :: "environment \<Rightarrow> bool" where
  "barrier_contract e = (\<forall>h n i. barrier_size h = Some n \<longrightarrow>
     released e h i = (case last_index (arrivals h) i of None \<Rightarrow> False
       | Some k \<Rightarrow> n * (k div n + 1) \<le> length (arrivals h)))"

text \<open>The arrivals up to the end of the group of position \<open>k\<close>, and the group itself.\<close>

definition up_to_group :: "nat \<Rightarrow> nat \<Rightarrow> nat list \<Rightarrow> nat list" where
  "up_to_group n k as = take (n * (k div n + 1)) as"

definition chooses :: "environment \<Rightarrow> (nat list \<Rightarrow> nat) \<Rightarrow> bool" where
  "chooses e leader = (\<forall>h n i k. barrier_size h = Some n \<longrightarrow> 0 < n \<longrightarrow>
     last_index (arrivals h) i = Some k \<longrightarrow> n * (k div n + 1) \<le> length (arrivals h) \<longrightarrow>
     leads e h i = (i = leader (up_to_group n k (arrivals h)))
     \<and> leader (up_to_group n k (arrivals h)) \<in> set (drop (n * (k div n)) (up_to_group n k (arrivals h))))"

definition leader_contract :: "environment \<Rightarrow> bool" where
  "leader_contract e = (\<exists>leader. chooses e leader)"

lemma barrier_size_append [simp]:
  "barrier_size (h @ h') = (case barrier_size h of None \<Rightarrow> barrier_size h' | Some n \<Rightarrow> Some n)"
  by (induction h rule: barrier_size.induct) simp_all

lemma arrivals_append [simp]: "arrivals (h @ h') = arrivals h @ arrivals h'"
  by (induction h rule: arrivals.induct) simp_all

lemma last_index_None: "(last_index xs y = None) = (y \<notin> set xs)"
  by (induction xs y rule: last_index.induct) (auto split: option.splits)

lemma last_index_Some: "last_index xs y = Some k \<Longrightarrow> k < length xs \<and> xs ! k = y"
  by (induction xs y arbitrary: k rule: last_index.induct) (auto split: option.splits if_splits)

lemma last_index_last: "last_index xs y = Some k \<Longrightarrow> k < m \<Longrightarrow> m < length xs \<Longrightarrow> xs ! m \<noteq> y"
proof (induction xs y arbitrary: k m rule: last_index.induct)
  case (2 x xs y)
  then obtain m' where "m = Suc m'" by (cases m) auto
  with 2 last_index_None [of xs y] show ?case by (auto split: option.splits if_splits)
qed simp

lemma last_index_append:
  "last_index (xs @ ys) y = (case last_index ys y of Some k \<Rightarrow> Some (length xs + k) | None \<Rightarrow> last_index xs y)"
  by (induction xs) (auto split: option.splits)

text \<open>A barrier as large as the number of cores that can arrive.\<close>

lemma released_all:
  assumes "barrier_contract e" and "barrier_size h = Some n" and "distinct (arrivals h)"
    and "set (arrivals h) \<subseteq> {..<n}"
  shows "released e h i = (i \<in> set (arrivals h) \<and> length (arrivals h) = n)"
proof -
  have le: "length (arrivals h) \<le> n"
    using assms(3,4) by (metis card_lessThan card_mono distinct_card finite_lessThan)
  have eq: "released e h i = (case last_index (arrivals h) i of None \<Rightarrow> False
      | Some k \<Rightarrow> n * (k div n + 1) \<le> length (arrivals h))"
    using assms(1,2) by (simp add: barrier_contract_def)
  show ?thesis
  proof (cases "last_index (arrivals h) i")
    case None
    with eq show ?thesis by (auto simp: last_index_None)
  next
    case (Some k)
    with last_index_Some [OF Some] le eq show ?thesis by auto
  qed
qed

text \<open>A barrier lets nobody go before as many have arrived as it is made for.\<close>

lemma released_none:
  assumes "barrier_contract e" and "barrier_size h = Some n" and "length (arrivals h) < n"
  shows "\<not> released e h i"
proof -
  have "length (arrivals h) < n * (k div n + 1)" for k
    using assms(3) by (metis add.commute le_add1 less_le_trans mult.right_neutral mult_le_mono2)
  then show ?thesis using assms(1,2) unfolding barrier_contract_def
    by (auto simp: not_le [symmetric] split: option.splits)
qed

section \<open>A concrete environment\<close>

text \<open>A mutex and a barrier that keep the contracts, a transmitter that is always ready, and a
  heap that counts the bytes of its regions.\<close>

definition sample_environment :: environment where
  "sample_environment = \<lparr>
     test_build = False,
     grants = (\<lambda>h. count_list h Locked = count_list h Unlocked),
     released = (\<lambda>h i. case barrier_size h of None \<Rightarrow> False
       | Some n \<Rightarrow> (case last_index (arrivals h) i of None \<Rightarrow> False | Some k \<Rightarrow> n * (k div n + 1) \<le> length (arrivals h))),
     leads = (\<lambda>h i. case barrier_size h of None \<Rightarrow> False
       | Some n \<Rightarrow> (case last_index (arrivals h) i of None \<Rightarrow> False | Some k \<Rightarrow> k mod n = n - 1)),
     inb = (\<lambda>_ _. 0x20),
     total_bytes = (\<lambda>rs. sum_list (map (\<lambda>(a, b). unat b - unat a) rs)),
     panic_text = (\<lambda>m. [str m])\<rparr>"

text \<open>A new cell has not been called, and the heap starts empty.\<close>

definition new_start_barrier :: "rendezvous_call list" where
  "new_start_barrier = []"

definition boot_sys :: sys where
  "boot_sys = \<lparr>mutex_calls = [], rendezvous = (\<lambda>_. new_start_barrier), port_log = [], heap_regions = [],
     initialized = (\<lambda>_. False)\<rparr>"

lemma sample_environment_contracts: "mutual_exclusion sample_environment" "barrier_contract sample_environment"
  by (simp_all add: mutual_exclusion_def barrier_contract_def sample_environment_def)

lemma sample_environment_leader: "leader_contract sample_environment"
  unfolding leader_contract_def chooses_def
proof (intro exI [of _ last] allI impI conjI)
  fix h n i k
  assume h: "barrier_size h = Some n" "0 < n" "last_index (arrivals h) i = Some k"
    "n * (k div n + 1) \<le> length (arrivals h)"
  let ?m = "n * (k div n) + (n - 1)"
  have k: "k < length (arrivals h)" "arrivals h ! k = i" using last_index_Some [OF h(3)] by auto
  have len: "n * (k div n) + n \<le> length (arrivals h)" using h(4) by simp
  have "k mod n < n" using h(2) by simp
  then have m: "k \<le> ?m" "?m < length (arrivals h)" using len h(2) mult_div_mod_eq [of n k] by linarith+
  have "up_to_group n k (arrivals h) \<noteq> []" "length (up_to_group n k (arrivals h)) = Suc ?m"
    using h(2) len by (auto simp: up_to_group_def)
  then have l: "last (up_to_group n k (arrivals h)) = arrivals h ! ?m"
    using h(2) by (simp add: last_conv_nth) (simp add: up_to_group_def)
  have "(i = arrivals h ! ?m) = (k = ?m)"
    using last_index_last [OF h(3) _ m(2)] m(1) k(2) by (metis le_neq_implies_less)
  moreover have "(k = ?m) = (k mod n = n - 1)"
    using mult_div_mod_eq [of n k] by linarith
  ultimately show "leads sample_environment h i = (i = last (up_to_group n k (arrivals h)))"
    using h l by (simp add: sample_environment_def)
  have "drop (n * (k div n)) (up_to_group n k (arrivals h)) \<noteq> []"
    using h(2) len by (auto simp: up_to_group_def)
  then show "last (up_to_group n k (arrivals h)) \<in> set (drop (n * (k div n)) (up_to_group n k (arrivals h)))"
    by (metis append_take_drop_id last_appendR last_in_set)
qed

lemma boot_sys_simps [simp]:
  "mutex_calls boot_sys = []" "rendezvous boot_sys = (\<lambda>_. [])" "port_log boot_sys = []" "heap_regions boot_sys = []"
  "initialized boot_sys = (\<lambda>_. False)"
  by (simp_all add: boot_sys_def new_start_barrier_def)

end
