(* ===== verification/Boot_Info.thy ===== *)
theory Boot_Info
  imports Byte_Order
begin

text \<open>
  The boot information page, \<open>src/paraos/src/bootboot.rs\<close>. The loader places a packed
  structure at a fixed address; the kernel reads it as the static \<open>BOOTBOOT\<close>. The record
  \<open>bootboot\<close> has the fields of the source in their order, and \<open>read_bootboot\<close> reads them
  from the bytes of the page the way a packed structure is laid out on a little-endian
  machine: 128 bytes of header, then the memory map with sixteen bytes for each entry.

  The lemmas show when \<open>memory_mappings\<close> panics, and that the entries a
  loader writes to the page are the ones the kernel reads back.
\<close>

section \<open>Data\<close>

record x86_64 =
  x_acpi_ptr :: u64
  x_smbi_ptr :: u64
  x_efi_ptr :: u64
  x_mp_ptr :: u64
  x_unused0 :: u64
  x_unused1 :: u64
  x_unused2 :: u64
  x_unused3 :: u64

record aarch64 =
  a_acpi_ptr :: u64
  a_mmio_ptr :: u64
  a_efi_ptr :: u64
  a_unused0 :: u64
  a_unused1 :: u64
  a_unused2 :: u64
  a_unused3 :: u64
  a_unused4 :: u64

text \<open>The union is eight words; each of its two named fields is a view of them.\<close>

type_synonym arch_union = "u64 list"

definition as_x86_64 :: "arch_union \<Rightarrow> x86_64" where
  "as_x86_64 w = \<lparr>x_acpi_ptr = w ! 0, x_smbi_ptr = w ! 1, x_efi_ptr = w ! 2, x_mp_ptr = w ! 3,
     x_unused0 = w ! 4, x_unused1 = w ! 5, x_unused2 = w ! 6, x_unused3 = w ! 7\<rparr>"

definition as_aarch64 :: "arch_union \<Rightarrow> aarch64" where
  "as_aarch64 w = \<lparr>a_acpi_ptr = w ! 0, a_mmio_ptr = w ! 1, a_efi_ptr = w ! 2, a_unused0 = w ! 3,
     a_unused1 = w ! 4, a_unused2 = w ! 5, a_unused3 = w ! 6, a_unused4 = w ! 7\<rparr>"

record memory_mapping =
  mm_ptr :: u64
  mm_size :: u64

definition mapping_addr :: "memory_mapping \<Rightarrow> u64" where
  "mapping_addr e = mm_ptr e"

definition mapping_size :: "memory_mapping \<Rightarrow> u64" where
  "mapping_size e = mm_size e AND 0xFFFFFFFFFFFFFFF0"

definition is_free :: "memory_mapping \<Rightarrow> bool" where
  "is_free e = (mm_size e AND 0xf = 1)"

record bootboot =
  magic :: "u8 list"
  bb_size :: u32
  protocol :: u8
  framebuffer_type :: u8
  numcores :: u16
  bspid :: u16
  timezone :: u16               \<comment> \<open>\<open>i16\<close>, read with \<open>sint\<close>\<close>
  datetime :: "u8 list"
  initrd_ptr :: u64
  initrd_size :: u64
  fb_ptr :: u64
  fb_size :: u32
  fb_width :: u32
  fb_height :: u32
  fb_scanline :: u32
  arch :: arch_union
  mmap :: "memory_mapping list"

text \<open>The array of the memory map, \<open>[MemoryMapping; (0xfff - 0x80) / size_of::<MemoryMapping>()]\<close>.\<close>

definition mapping_bytes :: nat where
  "mapping_bytes = 16"

definition mmap_len :: nat where
  "mmap_len = (0xfff - 0x80) div mapping_bytes"

section \<open>The layout of the page\<close>

definition uint_at :: "u8 list \<Rightarrow> nat \<Rightarrow> nat \<Rightarrow> u64" where
  "uint_at page off n = le_decode (take n (drop off page))"

definition mapping_at :: "u8 list \<Rightarrow> nat \<Rightarrow> memory_mapping" where
  "mapping_at page off = \<lparr>mm_ptr = uint_at page off 8, mm_size = uint_at page (off + 8) 8\<rparr>"

definition read_bootboot :: "u8 list \<Rightarrow> bootboot" where
  "read_bootboot page = \<lparr>
     magic = take 4 page,
     bb_size = ucast (uint_at page 4 4),
     protocol = ucast (uint_at page 8 1),
     framebuffer_type = ucast (uint_at page 9 1),
     numcores = ucast (uint_at page 10 2),
     bspid = ucast (uint_at page 12 2),
     timezone = ucast (uint_at page 14 2),
     datetime = take 8 (drop 16 page),
     initrd_ptr = uint_at page 24 8,
     initrd_size = uint_at page 32 8,
     fb_ptr = uint_at page 40 8,
     fb_size = ucast (uint_at page 48 4),
     fb_width = ucast (uint_at page 52 4),
     fb_height = ucast (uint_at page 56 4),
     fb_scanline = ucast (uint_at page 60 4),
     arch = map (\<lambda>i. uint_at page (64 + 8 * i) 8) [0..<8],
     mmap = map (\<lambda>i. mapping_at page (128 + mapping_bytes * i)) [0..<mmap_len]\<rparr>"

section \<open>The memory map\<close>

text \<open>\<open>&self.mmap[0..((self.size - 128) / 16) as usize]\<close>: the subtraction is on \<open>u32\<close> and
  panics on underflow in a build with overflow checks; the slice panics out of range.\<close>

definition memory_mappings :: "bool \<Rightarrow> bootboot \<Rightarrow> ('e, memory_mapping list) res" where
  "memory_mappings checks b =
     (if checks \<and> bb_size b < 128 then Panic ''attempt to subtract with overflow''
      else drain_to (unat ((bb_size b - 128) div 16)) (mmap b))"

section \<open>Lemmas\<close>

lemma length_mmap [simp]: "length (mmap (read_bootboot page)) = 247"
  by (simp add: read_bootboot_def mmap_len_def mapping_bytes_def)

lemma mapping_count:
  fixes s :: u32
  assumes "\<not> s < 128"
  shows "unat ((s - 128) div 16) = (unat s - 128) div 16"
  using assms by (simp add: unat_div unat_sub not_less)

text \<open>Without checks the subtraction wraps to a number of entries that is far too large.\<close>

lemma wrapped_count:
  fixes s :: u32
  assumes "s < 128"
  shows "247 < unat ((s - 128) div 16)"
proof -
  have "unat s < 128" using assms by (simp add: word_less_nat_alt)
  then have "unat (s - 128) = 2 ^ 32 + unat s - 128"
    using unat_sub_if' [of s "128 :: u32"] by simp
  then have "2 ^ 32 - 128 \<le> unat (s - 128)" by simp
  then have "(2 ^ 32 - 128) div 16 \<le> unat (s - 128) div 16" by (rule div_le_mono)
  then show ?thesis by (simp add: unat_div)
qed

lemma memory_mappings_outcome:
  assumes "length (mmap b) = 247"
  shows "(128 \<le> unat (bb_size b) \<and> unat (bb_size b) < 4096 \<longrightarrow>
      memory_mappings checks b = Ok (take ((unat (bb_size b) - 128) div 16) (mmap b)))
    \<and> (unat (bb_size b) < 128 \<or> 4096 \<le> unat (bb_size b) \<longrightarrow> (\<exists>m. memory_mappings checks b = Panic m))"
proof (cases "bb_size b < 128")
  case True
  with wrapped_count [OF True] assms show ?thesis
    by (simp add: memory_mappings_def word_less_nat_alt)
next
  case False
  then have "128 \<le> unat (bb_size b)" by (simp add: word_less_nat_alt)
  with mapping_count [OF False] False assms show ?thesis
    by (auto simp: memory_mappings_def drain_to_def)
qed

text \<open>Reading at an offset inside the last part of a concatenation.\<close>

lemma uint_at_append: "uint_at (xs @ ys) (length xs + off) n = uint_at ys off n"
  by (simp add: uint_at_def)

lemma uint_at_le64: "uint_at (le64 v @ ys) 0 8 = v"
  by (simp add: uint_at_def)

lemma mapping_at_append: "mapping_at (xs @ ys) (length xs + off) = mapping_at ys off"
  using uint_at_append [of xs ys off 8] uint_at_append [of xs ys "off + 8" 8]
  by (simp add: mapping_at_def add.assoc)

section \<open>Pages written by a loader\<close>

text \<open>What a loader writes: an entry for each region with its address, its length (a multiple of
  sixteen) and, in the low four bits, its kind, where 1 means free.\<close>

record region =
  r_start :: u64
  r_length :: u64
  r_kind :: u64

definition region_ok :: "region \<Rightarrow> bool" where
  "region_ok r = (r_length r AND 0xf = 0 \<and> r_kind r < 16)"

definition write_region :: "region \<Rightarrow> u8 list" where
  "write_region r = le64 (r_start r) @ le64 (r_length r OR r_kind r)"

definition write_page :: "u8 list \<Rightarrow> u8 list \<Rightarrow> region list \<Rightarrow> u8 list \<Rightarrow> u8 list" where
  "write_page sig header rs rest =
     sig @ le_encode 4 (of_nat (128 + 16 * length rs)) @ header @ concat (map write_region rs) @ rest"

lemma length_write_region [simp]: "length (write_region r) = 16"
  by (simp add: write_region_def)

lemma mapping_at_write_region:
  "mapping_at (write_region r @ ys) 0 = \<lparr>mm_ptr = r_start r, mm_size = r_length r OR r_kind r\<rparr>"
  using uint_at_append [of "le64 (r_start r)" "le64 (r_length r OR r_kind r) @ ys" 0 8]
  by (simp add: mapping_at_def write_region_def uint_at_le64)

lemma mapping_at_regions:
  "i < length rs \<Longrightarrow> mapping_at (concat (map write_region rs) @ ys) (16 * i)
     = \<lparr>mm_ptr = r_start (rs ! i), mm_size = r_length (rs ! i) OR r_kind (rs ! i)\<rparr>"
proof (induction rs arbitrary: i)
  case (Cons r rs)
  show ?case
  proof (cases i)
    case 0
    then show ?thesis by (simp add: mapping_at_write_region)
  next
    case (Suc j)
    with Cons mapping_at_append [of "write_region r" "concat (map write_region rs) @ ys" "16 * j"]
    show ?thesis by simp
  qed
qed simp

lemma low_bits_mask: "(v :: u64) AND 0xf = take_bit 4 v"
  using mask_eq_exp_minus_1 [of 4, where 'a = u64] by (simp add: take_bit_eq_mask)

lemma low_bits_of_kind: "r_kind r < 16 \<Longrightarrow> take_bit 4 (r_kind r) = r_kind r"
  by (simp add: take_bit_eq_mod word_unat_eq_iff unat_mod word_less_nat_alt)

lemma region_bits:
  assumes "region_ok r"
  shows "(r_length r OR r_kind r) AND 0xf = r_kind r"
    and "(r_length r OR r_kind r) AND 0xFFFFFFFFFFFFFFF0 = r_length r"
proof -
  have k: "take_bit 4 (r_kind r) = r_kind r" and l: "take_bit 4 (r_length r) = 0"
    using assms low_bits_of_kind by (auto simp: region_ok_def low_bits_mask)
  then show "(r_length r OR r_kind r) AND 0xf = r_kind r"
    by (simp add: low_bits_mask)
  have m: "(0xFFFFFFFFFFFFFFF0 :: u64) = NOT (mask 4)"
    by (simp add: mask_eq_exp_minus_1 not_eq_complement)
  have "r_kind r AND NOT (mask 4) = 0" "r_length r AND NOT (mask 4) = r_length r"
    using k l by (auto simp: bit_eq_iff bit_simps)
  then show "(r_length r OR r_kind r) AND 0xFFFFFFFFFFFFFFF0 = r_length r"
    by (simp add: m bit.conj_disj_distrib2)
qed

lemma written_size:
  assumes "length sig = 4" and "length rs < 1000"
  shows "unat (bb_size (read_bootboot (write_page sig header rs rest))) = 128 + 16 * length rs"
proof -
  define v :: u64 where "v = of_nat (128 + 16 * length rs)"
  have v: "unat v = 128 + 16 * length rs"
    unfolding v_def unat_of_nat by (rule mod_less) (use assms(2) in simp)
  have "uint_at (write_page sig header rs rest) 4 4 = take_bit 32 v"
    using assms(1) by (simp add: uint_at_def write_page_def le_decode_encode v_def)
  moreover have "take_bit 32 v = v"
    using assms(2) by (simp add: take_bit_eq_mod word_unat_eq_iff unat_mod v)
  ultimately show ?thesis
    using assms(2) by (simp add: read_bootboot_def unsigned_ucast_eq v take_bit_nat_eq_self)
qed

lemma written_mapping:
  assumes "length sig = 4" and "length header = 120" and "i < length rs" and "i < 247"
  shows "mmap (read_bootboot (write_page sig header rs rest)) ! i
    = \<lparr>mm_ptr = r_start (rs ! i), mm_size = r_length (rs ! i) OR r_kind (rs ! i)\<rparr>"
proof -
  let ?head = "sig @ le_encode 4 (of_nat (128 + 16 * length rs)) @ header"
  have "write_page sig header rs rest = ?head @ concat (map write_region rs) @ rest"
    by (simp add: write_page_def)
  moreover have "length ?head = 128" using assms(1,2) by simp
  ultimately have "mapping_at (write_page sig header rs rest) (128 + 16 * i)
      = mapping_at (concat (map write_region rs) @ rest) (16 * i)"
    using mapping_at_append [of ?head "concat (map write_region rs) @ rest" "16 * i"] by metis
  with mapping_at_regions [OF assms(3)] assms(4) show ?thesis
    by (simp add: read_bootboot_def mmap_len_def mapping_bytes_def)
qed

section \<open>Properties\<close>

text \<open>C26. The memory map of a page: \<open>memory_mappings\<close> returns the entries the size field
  announces exactly when the size is between 128 and 4095; below, and for the size 4096
  of a page that is full (248 entries), it panics, with overflow checks and without.\<close>

theorem memory_mappings_bounds:
  "(128 \<le> unat (bb_size (read_bootboot page)) \<and> unat (bb_size (read_bootboot page)) < 4096 \<longrightarrow>
      memory_mappings checks (read_bootboot page) =
        Ok (map (\<lambda>i. mapping_at page (128 + 16 * i)) [0..<(unat (bb_size (read_bootboot page)) - 128) div 16]))
    \<and> (unat (bb_size (read_bootboot page)) < 128 \<or> 4096 \<le> unat (bb_size (read_bootboot page)) \<longrightarrow>
      (\<exists>m. memory_mappings checks (read_bootboot page) = Panic m))"
proof -
  have "mmap (read_bootboot page) = map (\<lambda>i. mapping_at page (128 + 16 * i)) [0..<247]"
    by (simp add: read_bootboot_def mmap_len_def mapping_bytes_def)
  with memory_mappings_outcome [of "read_bootboot page" checks] show ?thesis
    by (auto simp: take_map take_upt)
qed

theorem memory_mappings_bounds_witness:
  "\<exists>m. memory_mappings False (read_bootboot (replicate 4 0 @ le_encode 4 4096 @ replicate 4088 0)) = Panic m"
proof -
  have "unat (bb_size (read_bootboot (replicate 4 0 @ le_encode 4 4096 @ replicate 4088 0))) = 4096"
    by (simp add: read_bootboot_def uint_at_def le_decode_encode)
  with memory_mappings_bounds [where checks = False
      and page = "replicate 4 0 @ le_encode 4 4096 @ replicate 4088 0"] show ?thesis by simp
qed

text \<open>C19. What the loader writes is what the kernel reads: for at most 247 regions whose lengths
  are multiples of sixteen, the entries of \<open>memory_mappings\<close> have the addresses and the
  lengths of the regions in their order, and \<open>is_free\<close> holds of those with kind 1 only.\<close>

theorem memory_map_roundtrip:
  assumes "length sig = 4" and "length header = 120" and "length rs \<le> 247" and "list_all region_ok rs"
  shows "\<exists>ms. memory_mappings checks (read_bootboot (write_page sig header rs rest)) = Ok ms
    \<and> map (\<lambda>e. (mapping_addr e, mapping_size e, is_free e)) ms
        = map (\<lambda>r. (r_start r, r_length r, r_kind r = 1)) rs"
proof -
  let ?b = "read_bootboot (write_page sig header rs rest)"
  have size: "unat (bb_size ?b) = 128 + 16 * length rs" using written_size assms(1,3) by simp
  have "memory_mappings checks ?b = Ok (take (length rs) (mmap ?b))"
    using memory_mappings_outcome [of ?b checks] size assms(3) by simp
  moreover have "map (\<lambda>e. (mapping_addr e, mapping_size e, is_free e)) (take (length rs) (mmap ?b))
      = map (\<lambda>r. (r_start r, r_length r, r_kind r = 1)) rs"
    using assms(3,4) written_mapping [OF assms(1,2)] region_bits
    by (intro nth_equalityI) (simp_all add: mapping_addr_def mapping_size_def is_free_def list_all_length)
  ultimately show ?thesis by blast
qed

theorem memory_map_roundtrip_witness:
  "\<exists>ms. memory_mappings True (read_bootboot (write_page (replicate 4 0) (replicate 120 0)
        [\<lparr>r_start = 0, r_length = 0x1000, r_kind = 0\<rparr>, \<lparr>r_start = 0x100000, r_length = 0x8000, r_kind = 1\<rparr>] [])) = Ok ms
    \<and> map (\<lambda>e. (mapping_addr e, mapping_size e, is_free e)) ms = [(0, 0x1000, False), (0x100000, 0x8000, True)]"
  using memory_map_roundtrip [where checks = True and sig = "replicate 4 0" and header = "replicate 120 0"
      and rest = "[]" and rs = "[\<lparr>r_start = 0, r_length = 0x1000, r_kind = 0\<rparr>,
        \<lparr>r_start = 0x100000, r_length = 0x8000, r_kind = 1\<rparr>]"]
  by (simp add: region_ok_def)

end
