(* ===== verification/Kernel_Start.thy ===== *)
theory Kernel_Start
  imports Core_Steps Boot_Info
begin

text \<open>
  Starting the kernel: \<open>src/paraos/src/kernel.rs\<close>, \<open>num_cores\<close> of \<open>platform.rs\<close> and \<open>_start\<close> of
  \<open>main.rs\<close>. Every core runs \<open>_start\<close> with the same boot information. What \<open>cpuid\<close> answers
  on a core (package \<open>x86\<close>) is the parameter \<open>cpu\<close>.
\<close>

section \<open>The number of cores\<close>

datatype topology_type = Core_level | Other_level

record cpu =
  extended_topology :: "(topology_type \<times> u16) list option"   \<comment> \<open>level and processors\<close>
  initial_local_apic_id :: "u8 option"                        \<comment> \<open>from the feature information\<close>

text \<open>One addition of \<open>sum()\<close> on \<open>u16\<close>.\<close>

definition add_u16 :: "bool \<Rightarrow> u16 \<Rightarrow> u16 \<Rightarrow> (unit, u16) res" where
  "add_u16 checks a b = (if checks \<and> a + b < a then Panic ''attempt to add with overflow'' else Ok (a + b))"

definition num_cores :: "bool \<Rightarrow> cpu \<Rightarrow> (unit, u16) res" where
  "num_cores checks c = and_then (unwrap ''Extended topology info'' (extended_topology c))
     (\<lambda>levels. foldM (add_u16 checks) 0 (map snd (filter (\<lambda>(l, _). l = Core_level) levels)))"

section \<open>The kernel\<close>

record kernel =
  bootstrap_processor_id :: u32
  start_barrier :: cell
  quiet :: bool

definition new_kernel :: "u32 \<Rightarrow> cell \<Rightarrow> kernel" where
  "new_kernel bsp barrier = \<lparr>bootstrap_processor_id = bsp, start_barrier = barrier, quiet = False\<rparr>"

definition set_quiet :: "bool \<Rightarrow> kernel \<Rightarrow> kernel" where
  "set_quiet q k = k\<lparr>quiet := q\<rparr>"

definition is_bootstrap_core :: "kernel \<Rightarrow> cpu \<Rightarrow> (unit, bool) res" where
  "is_bootstrap_core k c = and_then (unwrap ''CPU features'' (initial_local_apic_id c))
     (\<lambda>apic. Ok (ucast apic = bootstrap_processor_id k))"

text \<open>A computation whose panic is the panic of the core.\<close>

fun or_panic :: "(unit, 'a) res \<Rightarrow> ('a \<Rightarrow> action list) \<Rightarrow> action list" where
  "or_panic (Ok x) f = f x"
| "or_panic (Err ()) f = []"
| "or_panic (Panic m) f = [Abort m]"

definition banner :: "u16 \<Rightarrow> action list" where
  "banner n = fmt_write com1 [str ''ParaOS ['', decimal (unat n), str ('' cores]'' @ [CHR 0x0A])]"

definition kernel_run :: "bool \<Rightarrow> kernel \<Rightarrow> cpu \<Rightarrow> action list \<Rightarrow> action list" where
  "kernel_run checks k c bootstrap_init =
     or_panic (num_cores checks c) (\<lambda>n.
       Call_once (start_barrier k) (unat n) #
       or_panic (unwrap ''CPU features'' (initial_local_apic_id c)) (\<lambda>apic.
         (if ucast apic = bootstrap_processor_id k then serial_init com1 @ bootstrap_init else [])
         @ [Arrive (start_barrier k), Await (start_barrier k)]
         @ (if ucast apic = bootstrap_processor_id k \<and> \<not> quiet k then banner n else [])))"

section \<open>Starting\<close>

text \<open>The body of the loop over the memory map, the closure of \<open>_start\<close>, and \<open>_start\<close> itself. The
  allocator is outside the repository; its \<open>add_to_heap\<close> is taken to return for every region.\<close>

definition heap_entry :: "bool \<Rightarrow> memory_mapping \<Rightarrow> action list" where
  "heap_entry checks m =
     (if is_free m \<and> mapping_addr m \<noteq> 0
      then if checks \<and> mapping_addr m + mapping_size m < mapping_addr m
           then [Abort ''attempt to add with overflow'']
           else [Add_to_heap (mapping_addr m) (mapping_addr m + mapping_size m)]
      else [])"

definition heap_init :: "bool \<Rightarrow> bootboot \<Rightarrow> action list" where
  "heap_init checks bb =
     or_panic (and_then (memory_mappings checks bb) (slice_from 1)) (\<lambda>entries.
       concat (map (heap_entry checks) entries)
       @ serial_init com1
       @ [Write_total (port_number com1) (str ''Free memory: '') (str (''MB'' @ [CHR 0x0A]))])"

definition start :: "bool \<Rightarrow> bootboot \<Rightarrow> cpu \<Rightarrow> action list" where
  "start checks bb c = kernel_run checks (new_kernel (ucast (bspid bb)) 0) c (heap_init checks bb) @ [Loop]"

end
