(* ===== verification/Serial_Sound.thy ===== *)
theory Serial_Sound
  imports Core_Steps
begin

text \<open>
  Correctness of the serial port: what \<open>write_str\<close> and \<open>write_char\<close> send, when the waiting
  loop of \<open>write_char\<close> ends, and what two cores that print at the same time can send.
\<close>

section \<open>Straight-line output\<close>

lemma exec_outputs [simp]:
  "exec e i (map (\<lambda>c. Outb p (f c)) cs @ rest) s
     = exec e i rest (s\<lparr>port_log := port_log s @ map (\<lambda>c. Out p (f c)) cs\<rparr>)"
  by (induction cs arbitrary: s) (simp_all add: exec_Cons log_port_def)

lemma exec_lock_statement:
  "grants e (mutex_calls s) \<Longrightarrow>
     exec e i (lock_statement @ rest) s = exec e i rest (s\<lparr>mutex_calls := mutex_calls s @ [Locked, Unlocked]\<rparr>)"
  by (simp add: lock_statement_def exec_Cons log_mutex_def)

text \<open>The bytes of a text.\<close>

definition sent :: "port \<Rightarrow> rust_str \<Rightarrow> port_event list" where
  "sent p s = map (\<lambda>c. Out (port_number p) (ucast c)) s"

fun received :: "port_event list \<Rightarrow> rust_str" where
  "received [] = []"
| "received (Out p v # evs) = ucast v # received evs"
| "received (In p v # evs) = received evs"

lemma exec_write_str:
  assumes "grants e (mutex_calls s)"
  shows "exec e i (write_str p cs @ rest) s = exec e i rest
    (s\<lparr>mutex_calls := mutex_calls s @ [Locked, Unlocked], port_log := port_log s @ sent p cs\<rparr>)"
  using exec_lock_statement [OF assms] by (simp add: write_str_def sent_def)

lemma byte_roundtrip: "(ucast (ucast c :: u8) = (c :: u32)) = (c < 256)"
proof -
  have "(ucast (ucast c :: u8) = c) = (take_bit 8 c = c)"
    by (simp add: bit_eq_iff bit_simps)
  also have "\<dots> = (c < 256)"
    by (simp add: take_bit_eq_mod word_unat_eq_iff unat_mod word_less_nat_alt mod_eq_self_iff_div_eq_0 div_eq_0_iff)
  finally show ?thesis .
qed

lemma received_sent: "(received (sent p cs) = cs) = (\<forall>c \<in> set cs. c < 256)"
  by (induction cs) (simp_all add: sent_def byte_roundtrip)

section \<open>Waiting for the transmitter\<close>

text \<open>The port log after \<open>n\<close> reads of the status register.\<close>

fun polls :: "environment \<Rightarrow> u16 \<Rightarrow> nat \<Rightarrow> port_event list \<Rightarrow> port_event list" where
  "polls e q 0 h = h"
| "polls e q (Suc n) h = polls e q n (h @ [In q (inb e h q)])"

definition ready :: "environment \<Rightarrow> u16 \<Rightarrow> u8 \<Rightarrow> port_event list \<Rightarrow> nat \<Rightarrow> bool" where
  "ready e q m h n = (and (inb e (polls e q n h) q) m \<noteq> 0)"

lemma ready_Suc: "ready e q m h (Suc n) = ready e q m (h @ [In q (inb e h q)]) n"
  by (simp add: ready_def)

lemma exec_await:
  assumes "ready e q m (port_log s) n" and "\<forall>k < n. \<not> ready e q m (port_log s) k"
  shows "exec e i (Await_bits q m # rest) s = exec e i rest (s\<lparr>port_log := polls e q (Suc n) (port_log s)\<rparr>)"
  using assms
proof (induction n arbitrary: s)
  case 0
  then show ?case by (simp add: exec_Cons Let_def log_port_def ready_def)
next
  case (Suc n)
  let ?s = "log_port (In q (inb e (port_log s) q)) s"
  have "\<not> ready e q m (port_log s) 0" using Suc.prems(2) by blast
  then have "exec e i (Await_bits q m # rest) s = exec e i (Await_bits q m # rest) ?s"
    by (subst exec_Cons) (simp add: Let_def ready_def)
  moreover have "ready e q m (port_log ?s) n" "\<forall>k < n. \<not> ready e q m (port_log ?s) k"
    using Suc.prems by (auto simp: ready_Suc [symmetric])
  ultimately show ?case using Suc.IH [of ?s] by (simp add: log_port_def)
qed

lemma exec_await_returns:
  assumes "exec e i (Await_bits q m # rest) s = Some s'"
  shows "\<exists>n. ready e q m (port_log s) n"
proof -
  have "e = e \<and> Await_bits q m # rest = Await_bits q m # rest \<longrightarrow> (\<exists>n. ready e q m (port_log s) n)"
  proof (rule exec.raw_induct [OF _ assms, where P = "\<lambda>e' i' prog s s'.
        e' = e \<and> prog = Await_bits q m # rest \<longrightarrow> (\<exists>n. ready e q m (port_log s) n)"], intro impI)
    fix ex e' i' prog s s'
    assume IH: "\<And>e' i' prog s s'. ex e' i' prog s = Some s' \<Longrightarrow>
        e' = e \<and> prog = Await_bits q m # rest \<longrightarrow> (\<exists>n. ready e q m (port_log s) n)"
      and run: "(case prog of [] \<Rightarrow> Some s
        | a # rest \<Rightarrow> (case perform e' i' a rest s of (s', prog') \<Rightarrow> ex e' i' prog' s')) = Some s'"
      and eqs: "e' = e \<and> prog = Await_bits q m # rest"
    show "\<exists>n. ready e q m (port_log s) n"
    proof (cases "ready e q m (port_log s) 0")
      case False
      let ?s = "log_port (In q (inb e (port_log s) q)) s"
      from False run eqs have "ex e i' (Await_bits q m # rest) ?s = Some s'" by (simp add: ready_def Let_def)
      from IH [OF this] obtain n where "ready e q m (port_log ?s) n" by auto
      then show ?thesis by (auto simp: ready_Suc [symmetric])
    qed blast
  qed
  then show ?thesis by blast
qed

section \<open>Interleaved output\<close>

text \<open>Steps of one of two cores.\<close>

lemma step_first:
  assumes "perform e 0 a rest s = (s', prog')" and "core_steps e ([prog', q], s') c"
  shows "core_steps e ([a # rest, q], s) c"
  using core_step.Core [of 0 "[a # rest, q]" a rest e s s' prog'] assms
  by (auto intro: converse_rtranclp_into_rtranclp)

lemma step_second:
  assumes "perform e 1 a rest s = (s', prog')" and "core_steps e ([p, prog'], s') c"
  shows "core_steps e ([p, a # rest], s) c"
  using core_step.Core [of 1 "[p, a # rest]" a rest e s s' prog'] assms
  by (auto intro: converse_rtranclp_into_rtranclp)

lemma steps_lock:
  assumes "mutual_exclusion e" and "count_list (mutex_calls s) Locked = count_list (mutex_calls s) Unlocked"
  shows "core_steps e ([lock_statement @ p, lock_statement @ q], s)
    ([p, q], s\<lparr>mutex_calls := mutex_calls s @ [Locked, Unlocked, Locked, Unlocked]\<rparr>)"
proof -
  have g: "grants e (mutex_calls s)" "grants e (mutex_calls s @ [Locked, Unlocked])"
    using assms by (simp_all add: mutual_exclusion_def)
  have "core_steps e ([lock_statement @ p, lock_statement @ q], s)
      ([p, lock_statement @ q], log_mutex Unlocked (log_mutex Locked s))"
    using g(1) by (auto simp: lock_statement_def intro!: step_first)
  also have "core_steps e \<dots> ([p, q], log_mutex Unlocked (log_mutex Locked (log_mutex Unlocked (log_mutex Locked s))))"
    using g(2) by (auto simp: lock_statement_def intro!: step_second)
  finally show ?thesis by (simp add: log_mutex_def)
qed

lemma steps_shuffle:
  "zs \<in> shuffles (sent p as) (sent p bs) \<Longrightarrow>
     core_steps e ([map (\<lambda>c. Outb (port_number p) (ucast c)) as, map (\<lambda>c. Outb (port_number p) (ucast c)) bs], s)
       ([[], []], s\<lparr>port_log := port_log s @ zs\<rparr>)"
proof (induction "length as + length bs" arbitrary: zs as bs s rule: less_induct)
  case less
  show ?case
  proof (cases zs)
    case Nil
    with less.prems show ?thesis by (simp add: sent_def)
  next
    case (Cons z zs')
    let ?s = "log_port z s"
    from less.prems Cons consider a as' where "as = a # as'" "z = Out (port_number p) (ucast a)" "zs' \<in> shuffles (sent p as') (sent p bs)"
      | b bs' where "bs = b # bs'" "z = Out (port_number p) (ucast b)" "zs' \<in> shuffles (sent p as) (sent p bs')"
      by (cases as; cases bs) (auto simp: sent_def Cons_in_shuffles_iff)
    then show ?thesis
    proof cases
      case 1
      with less.hyps [of as' bs zs' ?s] Cons show ?thesis
        by (auto simp: log_port_def intro: step_first)
    next
      case 2
      with less.hyps [of as bs' zs' ?s] Cons show ?thesis
        by (auto simp: log_port_def intro: step_second)
    qed
  qed
qed

section \<open>Properties\<close>

text \<open>C23. \<open>write_char\<close> on a port whose mutex is free returns exactly when a read of the line
  status register finds the transmitter empty; it has then read the register up to the
  first such answer and sent one byte after it. If the transmitter never reports
  to be empty, the call never returns.\<close>

theorem write_char_waits:
  assumes "grants e (mutex_calls s)"
  shows "(\<exists>s'. exec e i (write_char p c) s = Some s') = (\<exists>n. ready e (port_number p + 5) 0x20 (port_log s) n)
    \<and> (\<forall>s'. exec e i (write_char p c) s = Some s' \<longrightarrow>
        port_log s' = polls e (port_number p + 5) (Suc (LEAST n. ready e (port_number p + 5) 0x20 (port_log s) n)) (port_log s)
          @ sent p [c])"
proof -
  let ?q = "port_number p + 5" and ?s = "s\<lparr>mutex_calls := mutex_calls s @ [Locked, Unlocked]\<rparr>"
  let ?n = "LEAST n. ready e ?q 0x20 (port_log s) n"
  have run: "exec e i (write_char p c) s
      = exec e i (Await_bits ?q 0x20 # [Outb (port_number p) (ucast c)]) ?s"
    using exec_lock_statement [OF assms] by (simp add: write_char_def transmit_loop)
  have runs: "exec e i (write_char p c) s = Some
      (?s\<lparr>port_log := polls e ?q (Suc ?n) (port_log s) @ sent p [c]\<rparr>)"
    if "\<exists>n. ready e ?q 0x20 (port_log s) n"
  proof -
    have "ready e ?q 0x20 (port_log ?s) ?n" "\<forall>k < ?n. \<not> ready e ?q 0x20 (port_log ?s) k"
      using that by (auto intro: LeastI_ex dest: not_less_Least)
    from exec_await [OF this] show ?thesis
      by (simp add: run exec_Cons log_port_def sent_def)
  qed
  moreover have "\<exists>n. ready e ?q 0x20 (port_log s) n" if "exec e i (write_char p c) s = Some s'" for s'
    using exec_await_returns [of e i ?q "0x20" "[Outb (port_number p) (ucast c)]" ?s s'] that run by simp
  ultimately show ?thesis by fastforce
qed

text \<open>A transmitter that is busy twice.\<close>

definition busy_twice :: environment where
  "busy_twice = sample_environment\<lparr>inb := \<lambda>h q. if length h < 2 then 0 else 0x60\<rparr>"

theorem write_char_waits_witness:
  "\<exists>s'. exec busy_twice 0 (write_char com1 65) boot_sys = Some s'
     \<and> port_log s' = [In 0x3fd 0, In 0x3fd 0, In 0x3fd 0x60, Out 0x3f8 65]"
proof -
  have g: "grants busy_twice (mutex_calls boot_sys)" by (simp add: busy_twice_def sample_environment_def)
  have r: "ready busy_twice 0x3fd 0x20 [] n = (2 \<le> n)" for n
  proof -
    have "length (polls busy_twice 0x3fd n h) = n + length h" for h
      by (induction n arbitrary: h) auto
    then show ?thesis by (auto simp: ready_def busy_twice_def)
  qed
  then have "(LEAST n. ready busy_twice 0x3fd 0x20 [] n) = 2" by (simp add: Least_equality)
  moreover have "polls busy_twice 0x3fd 3 [] = [In 0x3fd 0, In 0x3fd 0, In 0x3fd 0x60]"
    by (simp add: numeral_3_eq_3 busy_twice_def)
  moreover have "port_number com1 + 5 = 0x3fd" "port_number com1 = 0x3f8"
    by (simp_all add: com1_def new_port_def)
  moreover have "\<exists>n. ready busy_twice 0x3fd 0x20 [] n" using r by blast
  ultimately show ?thesis
    using write_char_waits [OF g, of 0 com1 65] by (auto simp: sent_def)
qed

text \<open>\<open>write_str\<close> sends one byte for each character without asking the port whether
  it can take one: no read of the status register, and the low eight bits of the character.
  What arrives is the text exactly when all of its characters are below 256.\<close>

theorem write_str_sends:
  assumes "grants e (mutex_calls s)"
  shows "\<exists>s'. exec e i (write_str p cs) s = Some s' \<and> port_log s' = port_log s @ sent p cs
    \<and> (received (sent p cs) = cs \<longleftrightarrow> (\<forall>c \<in> set cs. c < 256))"
  using exec_write_str [OF assms, of i p cs "[]"] by (simp add: received_sent)

theorem write_str_sends_witness:
  "\<exists>s'. exec sample_environment 0 (write_str com1 (str ''Ok'')) boot_sys = Some s'
     \<and> received (port_log s') = str ''Ok'' \<and> received (sent com1 [0x141]) \<noteq> [0x141]"
proof -
  have "grants sample_environment (mutex_calls boot_sys)" by (simp add: sample_environment_def)
  from write_str_sends [OF this, of 0 com1 "str ''Ok''"] write_str_sends [OF this, of 0 com1 "[0x141]"]
  show ?thesis by (auto simp: com1_def)
qed

text \<open>C37. The mutex does not keep the output of two cores apart: the guard is dropped before
  the first byte is sent, so with a correct mutex that nobody holds, two cores that call
  \<open>write_str\<close> at the same time can send their bytes in every possible mixture.\<close>

theorem serial_output_interleaves:
  assumes "mutual_exclusion e" and "count_list (mutex_calls s) Locked = count_list (mutex_calls s) Unlocked"
    and "zs \<in> shuffles (sent p as) (sent p bs)"
  shows "\<exists>s'. core_steps e ([write_str p as, write_str p bs], s) ([[], []], s') \<and> port_log s' = port_log s @ zs"
proof -
  let ?out = "\<lambda>cs. map (\<lambda>c. Outb (port_number p) (ucast c)) cs"
  let ?s = "s\<lparr>mutex_calls := mutex_calls s @ [Locked, Unlocked, Locked, Unlocked]\<rparr>"
  have "core_steps e ([write_str p as, write_str p bs], s) ([?out as, ?out bs], ?s)"
    using steps_lock [OF assms(1,2), of "?out as" "?out bs"] by (simp add: write_str_def)
  also have "core_steps e \<dots> ([[], []], ?s\<lparr>port_log := port_log ?s @ zs\<rparr>)"
    by (rule steps_shuffle [OF assms(3)])
  finally show ?thesis by fastforce
qed

theorem serial_output_interleaves_witness:
  "\<exists>s'. core_steps sample_environment ([write_str com1 (str ''ab''), write_str com1 (str ''cd'')], boot_sys) ([[], []], s')
     \<and> received (port_log s') = str ''acbd''"
proof -
  let ?z = "sent com1 (str ''acbd'')"
  have "?z \<in> shuffles (sent com1 (str ''ab'')) (sent com1 (str ''cd''))"
    by (simp add: sent_def Cons_in_shuffles_iff)
  from serial_output_interleaves [OF sample_environment_contracts(1) _ this, of boot_sys]
  show ?thesis by (auto simp: sent_def)
qed

end
