(* ===== verification/Kernel_Phases.thy ===== *)
theory Kernel_Phases
  imports Kernel_Start Serial_Sound
begin

text \<open>
  The phases of a core during the kernel's start. A core is in one of four phases;
  \<open>phase_step\<close> is what it can do there, and the programs of \<open>_start\<close> refine it
  (\<open>core_step_phases\<close>). \<open>emits\<close> and \<open>donates\<close> say what a core that is not disturbed will
  still print and hand to the heap.
\<close>

section \<open>Phases\<close>

text \<open>Actions that neither touch the barrier nor panic nor wait for the port.\<close>

fun plain :: "action \<Rightarrow> bool" where
  "plain Lock = True"
| "plain Unlock = True"
| "plain (Outb p v) = True"
| "plain (Add_to_heap a b) = True"
| "plain (Write_total p before after) = True"
| "plain _ = False"

datatype phase =
    Calling "action list" "action list"
  | Preparing "action list" "action list"
  | Waiting "action list"
  | Running "action list"

fun phase_code :: "nat \<Rightarrow> phase \<Rightarrow> action list" where
  "phase_code n (Calling pre post) = Call_once 0 n # pre @ Arrive 0 # Await 0 # post @ [Loop]"
| "phase_code n (Preparing pre post) = pre @ Arrive 0 # Await 0 # post @ [Loop]"
| "phase_code n (Waiting post) = Await 0 # post @ [Loop]"
| "phase_code n (Running post) = post @ [Loop]"

fun todo :: "phase \<Rightarrow> action list" where
  "todo (Calling pre post) = pre @ post"
| "todo (Preparing pre post) = pre @ post"
| "todo (Waiting post) = post"
| "todo (Running post) = post"

fun calling :: "phase \<Rightarrow> bool" where
  "calling (Calling pre post) = True"
| "calling _ = False"

fun arrived :: "phase \<Rightarrow> bool" where
  "arrived (Waiting post) = True"
| "arrived (Running post) = True"
| "arrived _ = False"

fun running :: "phase \<Rightarrow> bool" where
  "running (Running post) = True"
| "running _ = False"

definition effect :: "environment \<Rightarrow> action \<Rightarrow> sys \<Rightarrow> sys \<times> action list" where
  "effect e a s = perform e 0 a [] s"

lemma perform_plain: "plain a \<Longrightarrow> perform e i a rest s = (fst (effect e a s), snd (effect e a s) @ rest)"
  by (cases a) (simp_all add: effect_def)

inductive phase_step :: "environment \<Rightarrow> nat \<Rightarrow> nat \<Rightarrow> phase \<times> sys \<Rightarrow> phase \<times> sys \<Rightarrow> bool" for e n i where
  Call: "phase_step e n i (Calling pre post, s) (Preparing pre post, log_rendezvous 0 (Once n) s)"
| Enter: "phase_step e n i (Preparing [] post, s) (Waiting post, log_rendezvous 0 (Arrived i) s)"
| Pass: "released e (rendezvous s 0) i \<Longrightarrow> phase_step e n i (Waiting post, s) (Running post, s)"
| Block: "\<not> released e (rendezvous s 0) i \<Longrightarrow> phase_step e n i (Waiting post, s) (Waiting post, s)"
| Prepare: "phase_step e n i (Preparing (a # pre) post, s)
    (Preparing (snd (effect e a s) @ pre) post, fst (effect e a s))"
| Print: "phase_step e n i (Running (a # post), s) (Running (snd (effect e a s) @ post), fst (effect e a s))"
| Idle: "phase_step e n i (Running [], s) (Running [], s)"

inductive_cases phase_stepE: "phase_step e n i (ph, s) (ph', s')"

lemma perform_phase:
  assumes "list_all plain (todo ph)" and "phase_code n ph = a # rest" and "perform e i a rest s = (s', prog')"
  shows "\<exists>ph'. phase_step e n i (ph, s) (ph', s') \<and> prog' = phase_code n ph'"
proof (cases ph)
  case (Calling pre post)
  with assms show ?thesis by (auto intro!: exI [of _ "Preparing pre post"] Call)
next
  case (Preparing pre post)
  show ?thesis
  proof (cases pre)
    case Nil
    with Preparing assms show ?thesis by (auto intro!: exI [of _ "Waiting post"] Enter)
  next
    case (Cons c pre')
    with Preparing assms have "a = c" "plain c" by auto
    with Preparing Cons assms perform_plain [of c] show ?thesis
      by (auto intro!: exI [of _ "Preparing (snd (effect e c s) @ pre') post"] Prepare)
  qed
next
  case (Waiting post)
  with assms have "(if released e (rendezvous s 0) i then (s, post @ [Loop]) else (s, Await 0 # post @ [Loop])) = (s', prog')"
    by auto
  then show ?thesis
    by (cases "released e (rendezvous s 0) i")
      (auto simp: Waiting intro: exI [of _ "Running post"] exI [of _ "Waiting post"] Pass Block)
next
  case (Running post)
  show ?thesis
  proof (cases post)
    case Nil
    with Running assms show ?thesis by (auto intro!: exI [of _ "Running []"] Idle)
  next
    case (Cons c post')
    with Running assms have "a = c" "plain c" by auto
    with Running Cons assms perform_plain [of c] show ?thesis
      by (auto intro!: exI [of _ "Running (snd (effect e c s) @ post')"] Print)
  qed
qed

lemma phase_perform:
  assumes "phase_step e n i (ph, s) (ph', s')" and "list_all plain (todo ph)"
  shows "\<exists>a rest. phase_code n ph = a # rest \<and> perform e i a rest s = (s', phase_code n ph')"
  using assms by (cases rule: phase_stepE) (auto simp: perform_plain)

text \<open>The cores refine the phases, and every step of a phase is one of a core.\<close>

lemma core_step_phases:
  assumes "core_step e (map (phase_code n) phs, s) (progs', s')" and "\<forall>ph \<in> set phs. list_all plain (todo ph)"
  shows "\<exists>i ph'. i < length phs \<and> phase_step e n i (phs ! i, s) (ph', s') \<and> progs' = map (phase_code n) (phs[i := ph'])"
proof -
  from assms(1) obtain i a rest prog' where i: "i < length phs" "phase_code n (phs ! i) = a # rest"
    "perform e i a rest s = (s', prog')" "progs' = (map (phase_code n) phs)[i := prog']"
    by (cases rule: core_stepE) auto
  from perform_phase [OF _ i(2,3)] assms(2) i(1) obtain ph' where
    "phase_step e n i (phs ! i, s) (ph', s')" "prog' = phase_code n ph'" by fastforce
  with i show ?thesis by (auto simp: map_update)
qed

lemma phases_core_step:
  assumes "i < length phs" and "phase_step e n i (phs ! i, s) (ph', s')" and "\<forall>ph \<in> set phs. list_all plain (todo ph)"
  shows "core_step e (map (phase_code n) phs, s) (map (phase_code n) (phs[i := ph']), s')"
proof -
  from phase_perform [OF assms(2)] assms(1,3) obtain a rest where
    "phase_code n (phs ! i) = a # rest" "perform e i a rest s = (s', phase_code n ph')" by fastforce
  with core_step.Core [of i "map (phase_code n) phs"] assms(1) show ?thesis by (auto simp: map_update)
qed

section \<open>What a plan prints and donates\<close>

fun emits :: "environment \<Rightarrow> (u64 \<times> u64) list \<Rightarrow> action list \<Rightarrow> port_event list" where
  "emits e h [] = []"
| "emits e h (Outb p v # as) = Out p v # emits e h as"
| "emits e h (Add_to_heap a b # as) = emits e (h @ [(a, b)]) as"
| "emits e h (Write_total p before after # as) = concat (map (sent \<lparr>port_number = p\<rparr>)
     [before, decimal (total_bytes e h div (1024 * 1024)), after]) @ emits e h as"
| "emits e h (_ # as) = emits e h as"

fun donates :: "action list \<Rightarrow> (u64 \<times> u64) list" where
  "donates [] = []"
| "donates (Add_to_heap a b # as) = (a, b) # donates as"
| "donates (_ # as) = donates as"

text \<open>Locks are taken and dropped in pairs; \<open>h\<close> says that the first action finds the lock held.\<close>

fun well_locked :: "bool \<Rightarrow> action list \<Rightarrow> bool" where
  "well_locked h [] = (\<not> h)"
| "well_locked h (Lock # as) = (\<not> h \<and> well_locked True as)"
| "well_locked h (Unlock # as) = (h \<and> well_locked False as)"
| "well_locked h (_ # as) = (\<not> h \<and> well_locked False as)"

definition holds :: "bool \<Rightarrow> sys \<Rightarrow> bool" where
  "holds h s = (count_list (mutex_calls s) Locked = count_list (mutex_calls s) Unlocked + of_bool h)"

lemma emits_append: "emits e h (as @ bs) = emits e h as @ emits e (h @ donates as) bs"
  by (induction e h as rule: emits.induct) simp_all

lemma donates_append [simp]: "donates (as @ bs) = donates as @ donates bs"
  by (induction as rule: donates.induct) simp_all

lemma well_locked_append: "well_locked h as \<Longrightarrow> well_locked False bs \<Longrightarrow> well_locked h (as @ bs)"
  by (induction h as rule: well_locked.induct) simp_all

lemma write_str_plan [simp]:
  "emits e h (write_str p cs) = sent p cs" "donates (write_str p cs) = []"
  "well_locked False (write_str p cs)" "list_all plain (write_str p cs)"
proof -
  have "emits e h (map (\<lambda>c. Outb q (f c)) cs) = map (\<lambda>c. Out q (f c)) cs"
    and "donates (map (\<lambda>c. Outb q (f c)) cs) = []" and "well_locked False (map (\<lambda>c. Outb q (f c)) cs)"
    and "list_all plain (map (\<lambda>c. Outb q (f c)) cs)" for q f
    by (induction cs) simp_all
  then show "emits e h (write_str p cs) = sent p cs" "donates (write_str p cs) = []"
    "well_locked False (write_str p cs)" "list_all plain (write_str p cs)"
    by (simp_all add: write_str_def lock_statement_def sent_def)
qed

lemma fmt_write_plan [simp]:
  "donates (fmt_write p ps) = []" "well_locked False (fmt_write p ps)" "list_all plain (fmt_write p ps)"
  "emits e h (fmt_write p ps) = concat (map (sent p) ps)"
  by (induction ps) (simp_all add: fmt_write_def emits_append well_locked_append)

lemma serial_init_plan [simp]:
  "donates (serial_init p) = []" "well_locked False (serial_init p)" "list_all plain (serial_init p)"
  by (simp_all add: serial_init_def lock_statement_def)

lemma effect_keeps:
  assumes "plain a" and "effect e a s = (s', extra)"
  shows "port_log s' @ emits e (heap_regions s') (extra @ as) = port_log s @ emits e (heap_regions s) (a # as)"
    and "heap_regions s' @ donates (extra @ as) = heap_regions s @ donates (a # as)"
    and "rendezvous s' = rendezvous s" and "list_all plain extra" and "\<exists>evs. port_log s' = port_log s @ evs"
  using assms by (cases a; auto simp: effect_def emits_append split: if_splits)+

lemma effect_locks:
  assumes "mutual_exclusion e" and "plain a" and "effect e a s = (s', extra)"
    and "well_locked h (a # as)" and "holds h s"
  shows "\<exists>h'. well_locked h' (extra @ as) \<and> holds h' s'"
proof (cases a)
  case Lock
  with assms show ?thesis
    by (auto simp: effect_def holds_def mutual_exclusion_def intro!: exI [of _ True])
next
  case Unlock
  with assms show ?thesis by (auto simp: effect_def holds_def intro!: exI [of _ False])
next
  case (Write_total p before after)
  with assms show ?thesis
    by (auto simp: effect_def intro!: exI [of _ False] well_locked_append)
qed (use assms in \<open>auto simp: effect_def holds_def intro!: exI [of _ False]\<close>)

end
