(* ===== verification/Kernel_Sound.thy ===== *)
theory Kernel_Sound
  imports Kernel_Phases
begin

text \<open>
  Correctness of the kernel's start on several cores: the invariant \<open>start_inv\<close> ties the
  phases of the cores to the calls of the barrier, and the plan of the bootstrap core to what it
  has printed and handed to the heap. From it follow that nobody passes the barrier before
  the bootstrap core has set up the heap, that the output does not depend on the interleaving,
  and that the start can always be completed.
\<close>

section \<open>The invariant\<close>

definition barrier_inv :: "nat \<Rightarrow> phase list \<Rightarrow> rendezvous_call list \<Rightarrow> bool" where
  "barrier_inv n phs h = (distinct (arrivals h)
     \<and> (\<forall>i. i \<in> set (arrivals h) \<longleftrightarrow> i < length phs \<and> arrived (phs ! i))
     \<and> barrier_size h = (if list_all calling phs then None else Some n)
     \<and> ((\<exists>i < length phs. running (phs ! i)) \<longrightarrow> n \<le> length (arrivals h)))"

fun after_barrier :: "phase \<Rightarrow> action list" where
  "after_barrier (Calling pre post) = post"
| "after_barrier (Preparing pre post) = post"
| "after_barrier (Waiting post) = post"
| "after_barrier (Running post) = post"

text \<open>The bootstrap core: \<open>plan\<close> are the regions for the heap, \<open>early\<close> what is printed before
  the barrier and \<open>late\<close> the code after it.\<close>

definition boot_inv :: "environment \<Rightarrow> (u64 \<times> u64) list \<Rightarrow> port_event list \<Rightarrow> action list \<Rightarrow> phase \<Rightarrow> sys \<Rightarrow> bool" where
  "boot_inv e plan early late ph s = (list_all plain (todo ph)
     \<and> heap_regions s @ donates (todo ph) = plan
     \<and> port_log s @ emits e (heap_regions s) (todo ph) = early @ emits e plan late
     \<and> (\<exists>h. well_locked h (todo ph) \<and> holds h s)
     \<and> donates (after_barrier ph) = []
     \<and> (\<not> running ph \<longrightarrow> after_barrier ph = late)
     \<and> (running ph \<longrightarrow> (\<exists>evs. port_log s = early @ evs)))"

definition start_inv ::
  "environment \<Rightarrow> nat \<Rightarrow> nat \<Rightarrow> (u64 \<times> u64) list \<Rightarrow> port_event list \<Rightarrow> action list \<Rightarrow> phase list \<Rightarrow> sys \<Rightarrow> bool" where
  "start_inv e n b plan early late phs s = (b < length phs
     \<and> (\<forall>i < length phs. i \<noteq> b \<longrightarrow> todo (phs ! i) = [])
     \<and> barrier_inv n phs (rendezvous s 0)
     \<and> boot_inv e plan early late (phs ! b) s)"

lemma start_inv_plain:
  assumes "start_inv e n b plan early late phs s"
  shows "\<forall>ph \<in> set phs. list_all plain (todo ph)"
proof
  fix ph assume "ph \<in> set phs"
  then obtain i where "i < length phs" "ph = phs ! i" by (auto simp: in_set_conv_nth)
  with assms show "list_all plain (todo ph)"
    by (cases "i = b") (auto simp: start_inv_def boot_inv_def)
qed

lemma released_length:
  assumes "barrier_contract e" and "barrier_size h = Some n" and "released e h i"
  shows "n \<le> length (arrivals h)"
  using released_none [OF assms(1,2)] assms(3) by (meson not_less)

lemma not_all_calling: "i < length phs \<Longrightarrow> \<not> calling (phs ! i) \<Longrightarrow> \<not> list_all calling phs"
  by (auto simp: list_all_length)

lemma barrier_inv_update:
  assumes "barrier_inv n phs h" and "i < length phs" and "arrived ph' = arrived (phs ! i)"
    and "running ph' = running (phs ! i)" and "calling ph' = calling (phs ! i)"
  shows "barrier_inv n (phs[i := ph']) h"
proof -
  have "arrived (phs[i := ph'] ! k) = arrived (phs ! k)" "running (phs[i := ph'] ! k) = running (phs ! k)"
    "calling (phs[i := ph'] ! k) = calling (phs ! k)" if "k < length phs" for k
    using assms(3-5) that by (cases "k = i"; simp)+
  with assms(1) show ?thesis by (auto simp: barrier_inv_def list_all_length)
qed

lemma barrier_inv_step:
  assumes "barrier_contract e" and "phase_step e n i (phs ! i, s) (ph', s')" and "i < length phs"
    and "list_all plain (todo (phs ! i))" and "barrier_inv n phs (rendezvous s 0)"
  shows "barrier_inv n (phs[i := ph']) (rendezvous s' 0)"
  using assms(2)
proof (cases rule: phase_step.cases)
  case (Call pre post)
  have "arrived (phs[i := ph'] ! k) = arrived (phs ! k)" "running (phs[i := ph'] ! k) = running (phs ! k)"
    if "k < length phs" for k
    using Call that assms(3) by (cases "k = i"; simp)+
  moreover have "\<not> list_all calling (phs[i := ph'])"
    using Call assms(3) by (intro not_all_calling [of i]) auto
  ultimately show ?thesis using assms(5) Call by (auto simp: barrier_inv_def split: if_splits)
next
  case (Enter post)
  have "arrived (phs[i := ph'] ! k) = (k = i \<or> arrived (phs ! k))" "running (phs[i := ph'] ! k) = running (phs ! k)"
    if "k < length phs" for k
    using Enter that assms(3) by (cases "k = i"; simp)+
  moreover have "\<not> list_all calling (phs[i := ph'])" "\<not> list_all calling phs"
    using Enter assms(3) not_all_calling [of i phs] not_all_calling [of i "phs[i := ph']"] by auto
  moreover have "\<not> arrived (phs ! i)" using Enter by simp
  ultimately show ?thesis using assms(3,5) Enter by (auto simp: barrier_inv_def)
next
  case (Pass post)
  have "arrived (phs[i := ph'] ! k) = arrived (phs ! k)" if "k < length phs" for k
    using Pass that assms(3) by (cases "k = i"; simp)
  moreover have "\<not> list_all calling (phs[i := ph'])" "\<not> list_all calling phs"
    using Pass assms(3) not_all_calling [of i phs] not_all_calling [of i "phs[i := ph']"] by auto
  moreover have "n \<le> length (arrivals (rendezvous s 0))"
    using released_length [OF assms(1)] Pass assms(5) calculation(3) by (auto simp: barrier_inv_def)
  ultimately show ?thesis using assms(5) Pass by (auto simp: barrier_inv_def)
next
  case (Prepare a pre post)
  with assms(4) effect_keeps(3) [of a e s s'] have "rendezvous s' = rendezvous s" by (cases "effect e a s") auto
  with Prepare barrier_inv_update [OF assms(5,3)] show ?thesis by simp
next
  case (Print a post)
  with assms(4) effect_keeps(3) [of a e s s'] have "rendezvous s' = rendezvous s" by (cases "effect e a s") auto
  with Print barrier_inv_update [OF assms(5,3)] show ?thesis by simp
qed (use assms barrier_inv_update [OF assms(5,3)] in auto)

lemma effect_donates:
  assumes "plain a" and "effect e a s = (s', extra)"
  shows "donates extra = []"
  using assms by (cases a) (auto simp: effect_def split: if_splits)

lemma donates_Cons: "donates (a # as) = [] \<Longrightarrow> donates as = []"
  by (cases a) simp_all

text \<open>One action of the bootstrap core, before or after the barrier.\<close>

lemma boot_inv_effect:
  assumes "mutual_exclusion e" and "boot_inv e plan early late ph s" and "todo ph = a # as"
    and "effect e a s = (s', extra)" and "todo ph' = extra @ as"
    and "donates (after_barrier ph') = []" and "\<not> running ph' \<Longrightarrow> after_barrier ph' = late" and "running ph' = running ph"
  shows "boot_inv e plan early late ph' s'"
proof -
  have a: "plain a" "list_all plain as" using assms(2,3) by (auto simp: boot_inv_def)
  note keeps = effect_keeps [OF a(1) assms(4)]
  obtain h where "well_locked h (a # as)" "holds h s" using assms(2,3) by (auto simp: boot_inv_def)
  from effect_locks [OF assms(1) a(1) assms(4) this] keeps(1,2) [of as] keeps(4,5) a(2) assms(2,3,5-8)
  show ?thesis by (auto simp: boot_inv_def)
qed

lemma boot_inv_step:
  assumes "mutual_exclusion e" and "phase_step e n b (ph, s) (ph', s')" and "boot_inv e plan early late ph s"
  shows "boot_inv e plan early late ph' s'"
  using assms(2)
proof (cases rule: phase_step.cases)
  case (Pass post)
  with assms(3) have "heap_regions s = plan" "post = late" by (auto simp: boot_inv_def)
  with Pass assms(3) show ?thesis by (auto simp: boot_inv_def)
next
  case (Prepare a pre post)
  obtain s1 extra where e: "effect e a s = (s1, extra)" by (cases "effect e a s")
  have "donates post = []" "post = late" using Prepare assms(3) by (auto simp: boot_inv_def)
  with e Prepare show ?thesis by (auto intro!: boot_inv_effect [OF assms(1,3) _ e])
next
  case (Print a post)
  obtain s1 extra where e: "effect e a s = (s1, extra)" by (cases "effect e a s")
  have "donates extra = []" "donates post = []"
    using effect_donates [OF _ e] donates_Cons [of a post] Print assms(3) by (auto simp: boot_inv_def)
  with e Print show ?thesis by (auto intro!: boot_inv_effect [OF assms(1,3) _ e])
qed (use assms(3) in \<open>auto simp: boot_inv_def holds_def\<close>)

lemma other_step:
  assumes "phase_step e n i (ph, s) (ph', s')" and "todo ph = []"
  shows "todo ph' = [] \<and> heap_regions s' = heap_regions s \<and> port_log s' = port_log s \<and> mutex_calls s' = mutex_calls s"
  using assms by (cases rule: phase_step.cases) auto

lemma start_inv_step:
  assumes "mutual_exclusion e" and "barrier_contract e" and "start_inv e n b plan early late phs s"
    and "i < length phs" and "phase_step e n i (phs ! i, s) (ph', s')"
  shows "start_inv e n b plan early late (phs[i := ph']) s'"
proof -
  have "list_all plain (todo (phs ! i))" using start_inv_plain [OF assms(3)] assms(4) by simp
  with barrier_inv_step [OF assms(2,5,4)] assms(3)
  have b: "barrier_inv n (phs[i := ph']) (rendezvous s' 0)" by (simp add: start_inv_def)
  show ?thesis
  proof (cases "i = b")
    case True
    with boot_inv_step [OF assms(1,5)] assms(3) b show ?thesis by (auto simp: start_inv_def)
  next
    case False
    with other_step [OF assms(5)] assms(3,4) b show ?thesis
      by (auto simp: start_inv_def boot_inv_def holds_def nth_list_update)
  qed
qed

lemma start_inv_steps:
  assumes "core_steps e (map (phase_code n) phs, s) (progs', s')"
    and "mutual_exclusion e" and "barrier_contract e" and "start_inv e n b plan early late phs s"
  shows "\<exists>phs'. progs' = map (phase_code n) phs' \<and> length phs' = length phs \<and> start_inv e n b plan early late phs' s'"
  using assms(1)
proof (induction rule: rtranclp_induct2)
  case refl
  with assms(4) show ?case by blast
next
  case (step progs1 s1 progs2 s2)
  then obtain phs1 where 1: "progs1 = map (phase_code n) phs1" "length phs1 = length phs"
    "start_inv e n b plan early late phs1 s1" by blast
  from core_step_phases [OF _ start_inv_plain [OF 1(3)]] step(2) 1(1) obtain i ph' where
    "i < length phs1" "phase_step e n i (phs1 ! i, s1) (ph', s2)" "progs2 = map (phase_code n) (phs1[i := ph'])" by metis
  with start_inv_step [OF assms(2,3) 1(3)] 1(2) show ?case by (metis length_list_update)
qed

section \<open>Progress\<close>

definition writes :: "action list \<Rightarrow> nat" where
  "writes as = length (filter (\<lambda>a. case a of Write_total p before after \<Rightarrow> True | _ \<Rightarrow> False) as)"

fun rank :: "phase \<Rightarrow> nat" where
  "rank (Calling pre post) = 3"
| "rank (Preparing pre post) = 2"
| "rank (Waiting post) = 1"
| "rank (Running post) = 0"

definition progress :: "phase rel" where
  "progress = inv_image (less_than <*lex*> less_than) (\<lambda>ph. (writes (todo ph), rank ph + length (todo ph)))"

definition all_progress :: "phase list rel" where
  "all_progress = inv_image (less_than <*lex*> less_than)
     (\<lambda>phs. (\<Sum>ph\<leftarrow>phs. writes (todo ph), \<Sum>ph\<leftarrow>phs. rank ph + length (todo ph)))"

lemma wf_all_progress: "wf all_progress"
  by (simp add: all_progress_def wf_inv_image wf_lex_prod)

lemma sum_update:
  fixes f :: "phase \<Rightarrow> nat"
  assumes "i < length phs"
  shows "(\<Sum>ph\<leftarrow>phs[i := ph']. f ph) + f (phs ! i) = (\<Sum>ph\<leftarrow>phs. f ph) + f ph'"
  using assms by (induction phs arbitrary: i) (auto split: nat.splits simp: nth_Cons)

lemma progress_update:
  assumes "i < length phs" and "(ph', phs ! i) \<in> progress"
  shows "(phs[i := ph'], phs) \<in> all_progress"
  using assms(2) sum_update [OF assms(1), where f = "\<lambda>ph. writes (todo ph)" and ph' = ph']
    sum_update [OF assms(1), where f = "\<lambda>ph. rank ph + length (todo ph)" and ph' = ph']
  by (auto simp: progress_def all_progress_def)

lemma writes_append [simp]: "writes (as @ bs) = writes as + writes bs"
  by (simp add: writes_def)

lemma writes_Nil [simp]: "writes [] = 0"
  by (simp add: writes_def)

lemma writes_fmt [simp]: "writes (fmt_write p ps) = 0"
  by (induction ps) (auto simp: writes_def fmt_write_def write_str_def lock_statement_def filter_empty_conv)

lemma effect_progress:
  assumes "mutual_exclusion e" and "plain a" and "well_locked h (a # as)" and "holds h s"
  shows "writes (snd (effect e a s)) < writes [a] \<or> (writes [a] = 0 \<and> snd (effect e a s) = [])"
proof (cases a)
  case Lock
  with assms show ?thesis by (simp add: effect_def writes_def holds_def mutual_exclusion_def)
next
  case (Write_total p before after)
  then show ?thesis by (simp add: effect_def) (simp add: writes_def)
qed (use assms(2) in \<open>simp_all add: effect_def writes_def\<close>)

lemma effect_progress_todo:
  assumes "mutual_exclusion e" and "boot_inv e plan early late ph s" and "todo ph = a # as"
    and "todo ph' = snd (effect e a s) @ as" and "rank ph' = rank ph"
  shows "(ph', ph) \<in> progress"
proof -
  obtain h where "plain a" "well_locked h (a # as)" "holds h s"
    using assms(2,3) by (auto simp: boot_inv_def)
  from effect_progress [OF assms(1) this] have "writes (snd (effect e a s)) < writes [a] \<or>
      (writes [a] = 0 \<and> snd (effect e a s) = [])" .
  moreover have "writes (a # as) = writes [a] + writes as" by (simp add: writes_def)
  ultimately show ?thesis using assms(3-5) by (auto simp: progress_def)
qed

text \<open>As long as a core is not idle, one of them can do something that matters.\<close>

lemma start_progress:
  assumes "mutual_exclusion e" and "barrier_contract e" and "start_inv e n b plan early late phs s"
    and "n = length phs" and "\<exists>i < length phs. phs ! i \<noteq> Running []"
  shows "\<exists>i ph' s'. i < length phs \<and> phase_step e n i (phs ! i, s) (ph', s') \<and> (ph', phs ! i) \<in> progress"
proof -
  have bar: "barrier_inv n phs (rendezvous s 0)" and boot: "boot_inv e plan early late (phs ! b) s"
    using assms(3) by (auto simp: start_inv_def)
  have only: "i = b" if "i < length phs" "todo (phs ! i) \<noteq> []" for i
    using assms(3) that by (auto simp: start_inv_def)
  consider (early) i where "i < length phs" "\<not> arrived (phs ! i)"
    | (waiting) i post where "\<forall>k < length phs. arrived (phs ! k)" "i < length phs" "phs ! i = Waiting post"
    | (printing) i a post where "i < length phs" "phs ! i = Running (a # post)"
    using assms(5) by (metis arrived.elims(2) list.exhaust)
  then show ?thesis
  proof cases
    case early
    show ?thesis
    proof (cases "phs ! i")
      case (Calling pre post)
      then show ?thesis using early(1) Call [of e n i pre post s]
        by (intro exI [of _ i] exI [of _ "Preparing pre post"] exI) (auto simp: progress_def)
    next
      case (Preparing pre post)
      show ?thesis
      proof (cases pre)
        case Nil
        then show ?thesis using early(1) Preparing Enter [of e n i post s]
          by (intro exI [of _ i] exI [of _ "Waiting post"] exI) (auto simp: progress_def)
      next
        case (Cons a pre')
        with Preparing only [OF early(1)] have "i = b" by simp
        with effect_progress_todo [OF assms(1) boot, of a "pre' @ post" "Preparing (snd (effect e a s) @ pre') post"]
          Preparing Cons early(1) Prepare [of e n i a pre' post s]
        show ?thesis
          by (intro exI [of _ i] exI [of _ "Preparing (snd (effect e a s) @ pre') post"] exI) auto
      qed
    qed (use early in auto)
  next
    case waiting
    have arr: "set (arrivals (rendezvous s 0)) = {..<n}" "distinct (arrivals (rendezvous s 0))"
      using bar waiting(1) assms(4) by (auto simp: barrier_inv_def)
    then have "length (arrivals (rendezvous s 0)) = n" by (metis card_lessThan distinct_card)
    moreover have "barrier_size (rendezvous s 0) = Some n"
      using bar not_all_calling [OF waiting(2)] waiting(3) by (simp add: barrier_inv_def)
    ultimately have "released e (rendezvous s 0) i"
      using released_all [OF assms(2) _ arr(2)] arr(1) waiting(2) assms(4) by simp
    then show ?thesis using waiting(2,3) Pass [of e s i n post]
      by (intro exI [of _ i] exI [of _ "Running post"] exI [of _ s]) (auto simp: progress_def)
  next
    case printing
    with only have "i = b" by auto
    with effect_progress_todo [OF assms(1) boot, of a post "Running (snd (effect e a s) @ post)"]
      printing Print [of e n i a post s]
    show ?thesis
      by (intro exI [of _ i] exI [of _ "Running (snd (effect e a s) @ post)"] exI) auto
  qed
qed

lemma start_completes:
  assumes "mutual_exclusion e" and "barrier_contract e"
    and "start_inv e n b plan early late phs s" and "n = length phs"
  shows "\<exists>s'. core_steps e (map (phase_code n) phs, s) (replicate n [Loop], s')
    \<and> heap_regions s' = plan \<and> port_log s' = early @ emits e plan late"
  using wf_all_progress assms(3,4)
proof (induction phs arbitrary: s rule: wf_induct_rule)
  case (less phs)
  show ?case
  proof (cases "\<exists>i < length phs. phs ! i \<noteq> Running []")
    case True
    from start_progress [OF assms(1,2) less.prems True] obtain i ph' s1 where
      i: "i < length phs" "phase_step e n i (phs ! i, s) (ph', s1)" "(ph', phs ! i) \<in> progress" by blast
    from less.IH [OF progress_update [OF i(1,3)] start_inv_step [OF assms(1,2) less.prems(1) i(1,2)]] less.prems(2)
      phases_core_step [OF i(1,2) start_inv_plain [OF less.prems(1)]]
    show ?thesis by (auto intro: converse_rtranclp_into_rtranclp)
  next
    case False
    then have "map (phase_code n) phs = replicate n [Loop]"
      using less.prems(2) by (intro nth_equalityI) auto
    moreover have "phs ! b = Running []" using False less.prems(1) by (auto simp: start_inv_def)
    ultimately show ?thesis using less.prems(1) by (auto simp: start_inv_def boot_inv_def)
  qed
qed

section \<open>The programs of \<open>_start\<close>\<close>

text \<open>The regions for the heap: the free entries of the memory map but the first, without
  those at address 0.\<close>

definition heap_plan :: "memory_mapping list \<Rightarrow> (u64 \<times> u64) list" where
  "heap_plan ms = map (\<lambda>m. (mapping_addr m, mapping_addr m + mapping_size m))
     (filter (\<lambda>m. is_free m \<and> mapping_addr m \<noteq> 0) ms)"

text \<open>What a machine looks like that starts properly: \<open>cpuid\<close> answers on every core and
  reports the number \<open>n\<close> everywhere, core \<open>b\<close> alone has the identity of the bootstrap
  processor, and the memory map is readable, has a first entry, and no free region that wraps.\<close>

definition well_booted :: "bool \<Rightarrow> bootboot \<Rightarrow> cpu list \<Rightarrow> nat \<Rightarrow> u16 \<Rightarrow> memory_mapping list \<Rightarrow> bool" where
  "well_booted checks bb cpus b n ms = (b < length cpus
     \<and> (\<forall>i < length cpus. num_cores checks (cpus ! i) = Ok n
          \<and> (\<exists>apic. initial_local_apic_id (cpus ! i) = Some apic
               \<and> ((ucast apic :: u32) = ucast (bspid bb)) = (i = b)))
     \<and> (\<exists>m0. (memory_mappings checks bb :: (unit, memory_mapping list) res) = Ok (m0 # ms))
     \<and> (\<forall>m \<in> set ms. is_free m \<longrightarrow> mapping_addr m \<le> mapping_addr m + mapping_size m))"

definition init_output :: "port_event list" where
  "init_output = [Out 0x3f9 0, Out 0x3fb 0x80, Out 0x3f8 3, Out 0x3f9 0, Out 0x3fb 3, Out 0x3fa 0xC7, Out 0x3fc 0x0B, Out 0x3fc 0x0F]"

definition boot_output :: "environment \<Rightarrow> (u64 \<times> u64) list \<Rightarrow> port_event list" where
  "boot_output e plan = init_output @ init_output @ sent com1
     (str ''Free memory: '' @ decimal (total_bytes e plan div (1024 * 1024)) @ str (''MB'' @ [CHR 0x0A]))"

definition banner_output :: "nat \<Rightarrow> port_event list" where
  "banner_output n = sent com1 (str ''ParaOS ['' @ decimal n @ str ('' cores]'' @ [CHR 0x0A]))"

definition boot_phase :: "u16 \<Rightarrow> memory_mapping list \<Rightarrow> phase" where
  "boot_phase n ms = Calling (serial_init com1 @ map (\<lambda>(a, b). Add_to_heap a b) (heap_plan ms) @ serial_init com1
     @ [Write_total (port_number com1) (str ''Free memory: '') (str (''MB'' @ [CHR 0x0A]))]) (banner n)"

definition start_phases :: "nat \<Rightarrow> nat \<Rightarrow> u16 \<Rightarrow> memory_mapping list \<Rightarrow> phase list" where
  "start_phases k b n ms = map (\<lambda>i. if i = b then boot_phase n ms else Calling [] []) [0..<k]"

lemma heap_entries:
  "\<forall>m \<in> set ms. is_free m \<longrightarrow> mapping_addr m \<le> mapping_addr m + mapping_size m \<Longrightarrow>
     concat (map (heap_entry checks) ms) = map (\<lambda>(a, b). Add_to_heap a b) (heap_plan ms)"
  by (induction ms) (auto simp: heap_entry_def heap_plan_def not_less)

lemma start_programs:
  assumes "well_booted checks bb cpus b n ms"
  shows "map (start checks bb) cpus = map (phase_code (unat n)) (start_phases (length cpus) b n ms)"
proof (rule nth_equalityI)
  fix i assume "i < length (map (start checks bb) cpus)"
  then have i: "i < length cpus" by simp
  then obtain apic where c: "num_cores checks (cpus ! i) = Ok n" "initial_local_apic_id (cpus ! i) = Some apic"
    "((ucast apic :: u32) = ucast (bspid bb)) = (i = b)" using assms by (auto simp: well_booted_def)
  obtain m0 where "(memory_mappings checks bb :: (unit, memory_mapping list) res) = Ok (m0 # ms)"
    using assms by (auto simp: well_booted_def)
  then have h: "heap_init checks bb = map (\<lambda>(a, b). Add_to_heap a b) (heap_plan ms) @ serial_init com1
      @ [Write_total (port_number com1) (str ''Free memory: '') (str (''MB'' @ [CHR 0x0A]))]"
    using heap_entries [of ms checks] assms by (simp add: heap_init_def well_booted_def)
  show "map (start checks bb) cpus ! i = map (phase_code (unat n)) (start_phases (length cpus) b n ms) ! i"
    using i c by (simp add: start_def kernel_run_def new_kernel_def start_phases_def boot_phase_def h)
qed (simp add: start_phases_def)

lemma plan_adds [simp]:
  "donates (map (\<lambda>(a, b). Add_to_heap a b) rs) = rs" "well_locked False (map (\<lambda>(a, b). Add_to_heap a b) rs)"
  "list_all plain (map (\<lambda>(a, b). Add_to_heap a b) rs)" "emits e h (map (\<lambda>(a, b). Add_to_heap a b) rs) = []"
  by (induction rs arbitrary: h) auto

lemma emits_init [simp]: "emits e h (serial_init com1) = init_output"
  by (simp add: serial_init_def lock_statement_def com1_def new_port_def init_output_def)

lemma banner_plan [simp]:
  "donates (banner n) = []" "well_locked False (banner n)" "list_all plain (banner n)"
  "emits e h (banner n) = banner_output (unat n)"
  by (simp_all add: banner_def banner_output_def sent_def)

lemma start_inv_initial:
  assumes "well_booted checks bb cpus b n ms"
  shows "start_inv e (unat n) b (heap_plan ms) (boot_output e (heap_plan ms)) (banner n)
    (start_phases (length cpus) b n ms) boot_sys"
proof -
  let ?ph = "boot_phase n ms"
  have b: "b < length cpus" using assms by (simp add: well_booted_def)
  have out: "emits e [] (todo ?ph) = boot_output e (heap_plan ms) @ banner_output (unat n)"
    by (simp add: boot_phase_def emits_append boot_output_def sent_def)
  have "well_locked False (todo ?ph)"
    by (simp add: boot_phase_def) (intro well_locked_append; simp)
  with out have "boot_inv e (heap_plan ms) (boot_output e (heap_plan ms)) (banner n) ?ph boot_sys"
    by (auto simp: boot_inv_def boot_phase_def holds_def intro!: exI [of _ False])
  moreover have "barrier_inv (unat n) (start_phases (length cpus) b n ms) []"
    by (auto simp: barrier_inv_def start_phases_def boot_phase_def list_all_iff split: if_splits)
  ultimately show ?thesis using b by (simp add: start_inv_def start_phases_def)
qed

lemma start_reached:
  assumes "mutual_exclusion e" and "barrier_contract e" and "well_booted checks bb cpus b n ms"
    and "core_steps e (map (start checks bb) cpus, boot_sys) (progs, s)"
  shows "\<exists>phs. progs = map (phase_code (unat n)) phs \<and> length phs = length cpus
    \<and> start_inv e (unat n) b (heap_plan ms) (boot_output e (heap_plan ms)) (banner n) phs s"
  using start_inv_steps [OF _ assms(1,2) start_inv_initial [OF assms(3)]] assms(4) start_programs [OF assms(3)]
  by (auto simp: start_phases_def)

lemma passed_running:
  assumes "list_all plain (todo ph)" shows "(Await 0 \<in> set (phase_code n ph)) = (\<not> running ph)"
  using assms by (cases ph) (auto simp: list_all_iff)

lemma start_inv_boot:
  assumes "start_inv e n b plan early late phs s" and "arrived (phs ! b)"
  shows "heap_regions s = plan \<and> (\<exists>evs. port_log s = early @ evs)"
proof (cases "phs ! b")
  case (Waiting post)
  with assms(1) have "heap_regions s = plan" "post = late" by (auto simp: start_inv_def boot_inv_def)
  with Waiting assms(1) show ?thesis by (auto simp: start_inv_def boot_inv_def)
next
  case (Running post)
  with assms(1) show ?thesis by (auto simp: start_inv_def boot_inv_def)
qed (use assms(2) in auto)

text \<open>A machine with two cores, one free region of 1 MB and the firmware's first entry.\<close>

definition sample_cpu :: "u16 \<Rightarrow> u8 \<Rightarrow> cpu" where
  "sample_cpu n apic = \<lparr>extended_topology = Some [(Other_level, 1), (Core_level, n)], initial_local_apic_id = Some apic\<rparr>"

definition sample_region :: memory_mapping where
  "sample_region = \<lparr>mm_ptr = 0x100000, mm_size = 0x100001\<rparr>"

definition sample_bootboot :: bootboot where
  "sample_bootboot = \<lparr>magic = [], bb_size = 160, protocol = 0, framebuffer_type = 0, numcores = 2, bspid = 0,
     timezone = 0, datetime = [], initrd_ptr = 0, initrd_size = 0, fb_ptr = 0, fb_size = 0, fb_width = 0,
     fb_height = 0, fb_scanline = 0, arch = [],
     mmap = \<lparr>mm_ptr = 0, mm_size = 0x1001\<rparr> # sample_region # replicate 245 \<lparr>mm_ptr = 0, mm_size = 0\<rparr>\<rparr>"

lemma sample_well_booted:
  assumes "n < 0x8000"
  shows "well_booted checks sample_bootboot [sample_cpu n 0, sample_cpu n 1] 0 n [sample_region]"
proof -
  have "num_cores checks (sample_cpu n apic) = Ok n" for apic
    by (simp add: num_cores_def sample_cpu_def add_u16_def)
  moreover have "memory_mappings checks sample_bootboot = Ok [\<lparr>mm_ptr = 0, mm_size = 0x1001\<rparr>, sample_region]"
    using memory_mappings_outcome [of sample_bootboot checks] by (simp add: sample_bootboot_def)
  moreover have "mapping_addr sample_region \<le> mapping_addr sample_region + mapping_size sample_region"
    by (simp add: mapping_addr_def mapping_size_def sample_region_def)
  moreover have "bspid sample_bootboot = 0" "initial_local_apic_id (sample_cpu n apic) = Some apic" for apic
    by (simp_all add: sample_bootboot_def sample_cpu_def)
  ultimately show ?thesis by (auto simp: well_booted_def less_Suc_eq numeral_2_eq_2)
qed

lemma sample_plan: "heap_plan [sample_region] = [(0x100000, 0x200000)]"
  by (simp add: heap_plan_def sample_region_def mapping_addr_def mapping_size_def is_free_def)

lemma sample_reaches:
  "\<exists>s'. core_steps sample_environment (map (start True sample_bootboot) [sample_cpu 2 0, sample_cpu 2 1], boot_sys)
     (replicate 2 [Loop], s')"
  using start_completes [OF sample_environment_contracts start_inv_initial [OF sample_well_booted [of 2 True]]]
    start_programs [OF sample_well_booted [of 2 True]] by (auto simp: start_phases_def)

section \<open>Properties\<close>

text \<open>C5. Nobody runs on an unprepared machine: when \<open>cpuid\<close> reports the number of cores that
  start, then in every state that the cores can reach together, a core that has passed the
  barrier finds the heap complete (exactly the free regions of the memory map, but the
  first entry) and the boot messages printed.\<close>

theorem kernel_start_safe:
  assumes "mutual_exclusion e" and "barrier_contract e" and "well_booted checks bb cpus b n ms"
    and "unat n = length cpus" and "core_steps e (map (start checks bb) cpus, boot_sys) (progs, s)"
    and "i < length cpus" and "Await 0 \<notin> set (progs ! i)"
  shows "heap_regions s = heap_plan ms \<and> (\<exists>evs. port_log s = boot_output e (heap_plan ms) @ evs)"
proof -
  from start_reached [OF assms(1-3,5)] obtain phs where progs: "progs = map (phase_code (unat n)) phs"
    and len: "length phs = length cpus"
    and inv: "start_inv e (unat n) b (heap_plan ms) (boot_output e (heap_plan ms)) (banner n) phs s" by blast
  have bar: "barrier_inv (unat n) phs (rendezvous s 0)" and b: "b < length phs"
    using inv by (auto simp: start_inv_def)
  have "running (phs ! i)"
    using passed_running [of "phs ! i"] start_inv_plain [OF inv] assms(6,7) progs len by auto
  then have "unat n \<le> length (arrivals (rendezvous s 0))" using bar assms(6) len by (auto simp: barrier_inv_def)
  moreover have "set (arrivals (rendezvous s 0)) \<subseteq> {..<length phs}" "distinct (arrivals (rendezvous s 0))"
    using bar by (auto simp: barrier_inv_def)
  ultimately have "set (arrivals (rendezvous s 0)) = {..<length phs}"
    using assms(4) len by (intro card_subset_eq) (auto simp: distinct_card dest: card_mono [rotated])
  then have "arrived (phs ! b)" using bar b by (auto simp: barrier_inv_def)
  with start_inv_boot [OF inv] show ?thesis by blast
qed

theorem kernel_start_safe_witness:
  "\<exists>s. core_steps sample_environment (map (start True sample_bootboot) [sample_cpu 2 0, sample_cpu 2 1], boot_sys)
      (replicate 2 [Loop], s) \<and> heap_regions s = [(0x100000, 0x200000)]"
proof -
  from sample_reaches obtain s where s: "core_steps sample_environment
      (map (start True sample_bootboot) [sample_cpu 2 0, sample_cpu 2 1], boot_sys) (replicate 2 [Loop], s)" by blast
  from kernel_start_safe [OF sample_environment_contracts sample_well_booted [of 2 True] _ this, of 1] s sample_plan
  show ?thesis by auto
qed

text \<open>C22. The output does not depend on the interleaving: whatever the order in which the cores
  run, what has been sent to the serial port is a beginning of one fixed sequence, and the
  heap has got a beginning of the list of regions, each of them once.\<close>

theorem kernel_output_fixed:
  assumes "mutual_exclusion e" and "barrier_contract e" and "well_booted checks bb cpus b n ms"
    and "core_steps e (map (start checks bb) cpus, boot_sys) (progs, s)"
  shows "(\<exists>evs. port_log s @ evs = boot_output e (heap_plan ms) @ banner_output (unat n))
    \<and> (\<exists>rs. heap_regions s @ rs = heap_plan ms)"
  using start_reached [OF assms] by (auto simp: start_inv_def boot_inv_def)

theorem kernel_output_fixed_witness:
  "\<exists>s evs. core_steps sample_environment (map (start True sample_bootboot) [sample_cpu 2 0, sample_cpu 2 1], boot_sys)
      (replicate 2 [Loop], s)
    \<and> port_log s @ evs = boot_output sample_environment [(0x100000, 0x200000)] @ banner_output 2"
proof -
  from sample_reaches obtain s where s: "core_steps sample_environment
      (map (start True sample_bootboot) [sample_cpu 2 0, sample_cpu 2 1], boot_sys) (replicate 2 [Loop], s)" by blast
  from kernel_output_fixed [OF sample_environment_contracts sample_well_booted [of 2 True] this] s sample_plan
  show ?thesis by auto
qed

text \<open>C13. The start can always be completed: from every state that the cores can reach together
  they can go on until all of them idle, with the whole output sent and the heap complete.\<close>

theorem kernel_start_completes:
  assumes "mutual_exclusion e" and "barrier_contract e" and "well_booted checks bb cpus b n ms"
    and "unat n = length cpus" and "core_steps e (map (start checks bb) cpus, boot_sys) (progs, s)"
  shows "\<exists>s'. core_steps e (progs, s) (replicate (length cpus) [Loop], s') \<and> heap_regions s' = heap_plan ms
    \<and> port_log s' = boot_output e (heap_plan ms) @ banner_output (unat n)"
proof -
  from start_reached [OF assms(1-3,5)] obtain phs where progs: "progs = map (phase_code (unat n)) phs"
    and len: "length phs = length cpus"
    and inv: "start_inv e (unat n) b (heap_plan ms) (boot_output e (heap_plan ms)) (banner n) phs s" by blast
  from start_completes [OF assms(1,2) inv] assms(4) progs len show ?thesis by simp
qed

theorem kernel_start_completes_witness:
  "\<exists>s'. core_steps sample_environment (map (start True sample_bootboot) [sample_cpu 2 0, sample_cpu 2 1], boot_sys)
      ([[Loop], [Loop]], s')
    \<and> heap_regions s' = [(0x100000, 0x200000)]
    \<and> port_log s' = boot_output sample_environment [(0x100000, 0x200000)] @ banner_output 2"
  using kernel_start_completes [OF sample_environment_contracts sample_well_booted [of 2 True] _ rtranclp.rtrancl_refl]
    sample_plan by simp

text \<open>When \<open>cpuid\<close> reports more cores than the loader starts, no core ever passes the
  barrier and the kernel never prints its name.\<close>

theorem kernel_start_hangs:
  assumes "mutual_exclusion e" and "barrier_contract e" and "well_booted checks bb cpus b n ms"
    and "length cpus < unat n" and "core_steps e (map (start checks bb) cpus, boot_sys) (progs, s)"
  shows "(\<forall>i < length cpus. Await 0 \<in> set (progs ! i)) \<and> (\<exists>evs. port_log s @ evs = boot_output e (heap_plan ms))"
proof -
  from start_reached [OF assms(1-3,5)] obtain phs where progs: "progs = map (phase_code (unat n)) phs"
    and len: "length phs = length cpus"
    and inv: "start_inv e (unat n) b (heap_plan ms) (boot_output e (heap_plan ms)) (banner n) phs s" by blast
  have bar: "barrier_inv (unat n) phs (rendezvous s 0)" and b: "b < length phs"
    using inv by (auto simp: start_inv_def)
  have "length (arrivals (rendezvous s 0)) \<le> length cpus"
    using bar len card_mono [of "{..<length phs}" "set (arrivals (rendezvous s 0))"]
    by (auto simp: barrier_inv_def distinct_card)
  then have none: "\<not> running (phs ! i)" if "i < length phs" for i
    using bar assms(4) that by (auto simp: barrier_inv_def)
  then have "\<forall>i < length cpus. Await 0 \<in> set (progs ! i)"
    using passed_running start_inv_plain [OF inv] progs len by auto
  moreover have "\<exists>pre. todo (phs ! b) = pre @ banner n"
    using none [OF b] inv b by (cases "phs ! b") (auto simp: start_inv_def boot_inv_def)
  then have "\<exists>evs. port_log s @ evs = boot_output e (heap_plan ms)"
    using inv by (auto simp: start_inv_def boot_inv_def emits_append)
  ultimately show ?thesis by blast
qed

theorem kernel_start_hangs_witness:
  "Await 0 \<in> set (map (start True sample_bootboot) [sample_cpu 4 0, sample_cpu 4 1] ! 1)"
  using kernel_start_hangs [OF sample_environment_contracts sample_well_booted [of 4 True] _ rtranclp.rtrancl_refl]
  by auto

end
