(* ===== verification/Test_Kernel.thy ===== *)
theory Test_Kernel
  imports Kernel_Start
begin

text \<open>
  The test build of the kernel: \<open>pick_leader_core\<close> of \<open>src/paraos/src/platform.rs\<close>, the test of
  \<open>kernel.rs\<close>, and the runner and \<open>_start\<close> of \<open>test.rs\<close>. Every core runs all tests; one core is
  picked by a barrier to print, and one to tell the emulator that the tests are over. A
  test is a sequence of actions for each core; the list of tests, which the test framework
  collects, is a parameter, and \<open>kernel_tests\<close> is the list of this repository.
\<close>

section \<open>Picking a leader\<close>

text \<open>The static \<open>once\<close> of \<open>pick_leader_core\<close> is one cell for all calls; the test has its own.\<close>

definition leader_cell :: cell where
  "leader_cell = 1"

definition test_cell :: cell where
  "test_cell = 2"

text \<open>The continuation \<open>f\<close> says what the caller does with the result.\<close>

definition pick_leader_core :: "bool \<Rightarrow> cpu \<Rightarrow> (bool \<Rightarrow> action list) \<Rightarrow> action list" where
  "pick_leader_core checks c f =
     [Init_once leader_cell (and_then (num_cores checks c) (\<lambda>n. Ok (unat n))),
      Arrive leader_cell,
      Elect leader_cell (f True) (f False)]"

section \<open>The runner\<close>

type_synonym test = "cpu \<Rightarrow> action list"

definition run_tests :: "bool \<Rightarrow> test list \<Rightarrow> cpu \<Rightarrow> bool \<Rightarrow> action list" where
  "run_tests checks tests c leader =
     serial_init com1
     @ (if leader then fmt_write com1 [str ''Running '', decimal (length tests), str ('' tests'' @ [CHR 0x0A])] else [])
     @ concat (map (\<lambda>test. test c @ (if leader then write_char com1 (of_char CHR ''.'') else [])) tests)
     @ (if leader then write_char com1 (of_char CHR 0x0A) else [])"

definition test_runner :: "bool \<Rightarrow> test list \<Rightarrow> cpu \<Rightarrow> action list" where
  "test_runner checks tests c = pick_leader_core checks c (run_tests checks tests c)"

definition test_exit :: "bool \<Rightarrow> action list" where
  "test_exit leader =
     (if leader then [Outb 0x501 0, Abort ''internal error: entered unreachable code''] else [Loop])"

definition test_start :: "bool \<Rightarrow> test list \<Rightarrow> cpu \<Rightarrow> action list" where
  "test_start checks tests c = test_runner checks tests c @ pick_leader_core checks c test_exit"

section \<open>The test of the kernel\<close>

definition bootstrap_init_only :: "bool \<Rightarrow> test" where
  "bootstrap_init_only checks c =
     (let kernel = set_quiet True (new_kernel 0 test_cell)
      in Assign False #
         kernel_run checks kernel c [Assign True]
         @ or_panic (is_bootstrap_core kernel c) (\<lambda>bootstrap.
             if bootstrap then [Assert True ''assertion failed: initialized'']
             else [Assert False ''assertion failed: !initialized'']))"

definition kernel_tests :: "bool \<Rightarrow> test list" where
  "kernel_tests checks = [bootstrap_init_only checks]"

end
