(* ===== verification/Test_Phases.thy ===== *)
theory Test_Phases
  imports Test_Kernel Serial_Sound
begin

text \<open>
  The phases of a core that runs the test build. \<open>test_step\<close> says what a core can do in a phase;
  it allows every behaviour of the tests that leaves the leader's cell and the exit device
  alone (\<open>harmless\<close>), and \<open>core_step_tests\<close> shows that the programs of \<open>test_start\<close>
  do nothing else.
\<close>

section \<open>What tests and panics may do\<close>

definition success :: port_event where
  "success = Out 0x501 0"

definition failure :: port_event where
  "failure = Out 0x501 1"

fun harmless :: "action \<Rightarrow> bool" where
  "harmless (Outb p v) = (p \<noteq> 0x501)"
| "harmless (Call_once cl n) = (cl \<noteq> leader_cell)"
| "harmless (Init_once cl r) = (cl \<noteq> leader_cell)"
| "harmless (Arrive cl) = (cl \<noteq> leader_cell)"
| "harmless (Await cl) = (cl \<noteq> leader_cell)"
| "harmless (Elect cl as bs) = (cl \<noteq> leader_cell \<and> list_all harmless as \<and> list_all harmless bs)"
| "harmless (Write_total p before after) = (p \<noteq> 0x501)"
| "harmless _ = True"

text \<open>The code of a panic, whichever handler the build has.\<close>

fun printing :: "action \<Rightarrow> bool" where
  "printing Lock = True"
| "printing Unlock = True"
| "printing (Outb p v) = (Out p v \<noteq> success)"
| "printing (Abort m) = True"
| "printing Loop = True"
| "printing _ = False"

text \<open>Changes of the shared state that the exit protocol does not see.\<close>

definition speaks :: "sys \<Rightarrow> sys \<Rightarrow> bool" where
  "speaks s s' = (rendezvous s' leader_cell = rendezvous s leader_cell
     \<and> (\<exists>evs. port_log s' = port_log s @ evs \<and> success \<notin> set evs))"

definition silent :: "sys \<Rightarrow> sys \<Rightarrow> bool" where
  "silent s s' = (rendezvous s' leader_cell = rendezvous s leader_cell
     \<and> (\<exists>evs. port_log s' = port_log s @ evs \<and> success \<notin> set evs \<and> failure \<notin> set evs))"

lemma silent_speaks: "silent s s' \<Longrightarrow> speaks s s'"
  by (auto simp: silent_def speaks_def)

lemma speaks_refl: "speaks s s" and silent_refl: "silent s s"
  by (simp_all add: speaks_def silent_def)

lemma write_str_acts:
  "p \<noteq> 0x501 \<Longrightarrow> list_all harmless (write_str \<lparr>port_number = p\<rparr> cs)"
  "p \<noteq> 0x501 \<Longrightarrow> list_all printing (write_str \<lparr>port_number = p\<rparr> cs)"
  by (auto simp: write_str_def lock_statement_def list_all_iff success_def)

lemma fmt_write_acts:
  "p \<noteq> 0x501 \<Longrightarrow> list_all harmless (fmt_write \<lparr>port_number = p\<rparr> ps)"
  "p \<noteq> 0x501 \<Longrightarrow> list_all printing (fmt_write \<lparr>port_number = p\<rparr> ps)"
  by (induction ps) (auto simp: fmt_write_def write_str_acts)

lemma com1_acts [simp]:
  "list_all harmless (serial_init com1)" "list_all printing (serial_init com1)"
  "list_all harmless (fmt_write com1 ps)" "list_all printing (fmt_write com1 ps)"
  "list_all harmless (write_char com1 c)"
  using fmt_write_acts [of "0x3f8" ps]
  by (simp_all add: com1_def new_port_def serial_init_def lock_statement_def success_def write_char_def
      transmit_loop)

lemma panic_handler_printing: "list_all printing (panic_handler test info)"
  by (simp add: panic_handler_def test_panic_def panic_def panic_print_def success_def)

lemma perform_harmless:
  assumes "harmless a" and "perform e i a rest s = (s', prog')"
  shows "silent s s'" and "(\<exists>as. prog' = as @ rest \<and> list_all harmless as) \<or> list_all printing prog'"
proof -
  have kept: "silent s s' \<and> ((\<exists>as. prog' = as @ rest \<and> list_all harmless as) \<or> list_all printing prog')"
  proof (cases a)
    case (Outb p v)
    with assms show ?thesis by (auto simp: silent_def success_def failure_def)
  next
    case (Await_bits p m)
    with assms show ?thesis
      by (cases "and (inb e (port_log s) p) m = 0")
        (auto simp: Let_def silent_def success_def failure_def intro: exI [of _ "[Await_bits p m]"])
  next
    case (Init_once cl r)
    with assms have cl: "cl \<noteq> leader_cell" by simp
    consider (returns) "prog' = rest" "silent s s'" | (waits) "prog' = Init_once cl r # rest" "s' = s"
      | (panics) m where "prog' = Abort m # rest" "silent s s'"
      using Init_once assms cl
      by (cases "barrier_size (rendezvous s cl)"; cases "Begun \<in> set (rendezvous s cl)"; cases r)
        (auto simp: silent_def)
    then show ?thesis
      by cases (use cl in \<open>auto simp: silent_refl intro: exI [of _ "[Init_once cl r]"] exI [of _ "[Abort _]"]\<close>)
  next
    case (Elect cl as bs)
    with assms show ?thesis
      by (cases "released e (rendezvous s cl) i")
        (auto simp: silent_refl intro: exI [of _ as] exI [of _ bs] exI [of _ "[Elect cl as bs]"])
  next
    case Lock
    with assms show ?thesis
      by (cases "grants e (mutex_calls s)") (auto simp: silent_def intro: exI [of _ "[Lock]"])
  next
    case (Await cl)
    with assms show ?thesis
      by (cases "released e (rendezvous s cl) i") (auto simp: silent_refl intro: exI [of _ "[Await cl]"])
  next
    case (Assert v m)
    with assms show ?thesis
      by (cases "initialized s i = v") (auto simp: silent_refl intro: exI [of _ "[Abort m]"])
  next
    case (Write_total p before after)
    with assms fmt_write_acts(1) [of p] show ?thesis by (auto simp: silent_refl simp del: append_assoc)
  next
    case (Abort m)
    with assms show ?thesis by (auto simp: silent_refl panic_handler_printing)
  next
    case Loop
    with assms show ?thesis by (auto simp: silent_refl intro: exI [of _ "[Loop]"])
  qed (use assms in \<open>auto simp: silent_def\<close>)
  then show "silent s s'" "(\<exists>as. prog' = as @ rest \<and> list_all harmless as) \<or> list_all printing prog'" by blast+
qed

lemma perform_printing:
  assumes "printing a" and "list_all printing rest" and "perform e i a rest s = (s', prog')"
  shows "speaks s s' \<and> list_all printing prog'"
proof (cases a)
  case Lock
  with assms show ?thesis by (cases "grants e (mutex_calls s)") (auto simp: speaks_def)
next
  case (Abort m)
  with assms show ?thesis by (auto simp: speaks_refl panic_handler_printing)
qed (use assms in \<open>auto simp: speaks_def\<close>)

section \<open>Phases\<close>

datatype test_phase =
    Entering | Joining | Queued
  | Testing "action list"
  | Leaving | Requeued
  | Reporting | Reported "action list" | Parked
  | Died "action list"

text \<open>The programs: \<open>n\<close> is the size of the barrier and \<open>body\<close> the run of the tests.\<close>

definition last_election :: "nat \<Rightarrow> action list" where
  "last_election n = [Init_once leader_cell (Ok n), Arrive leader_cell, Elect leader_cell (test_exit True) (test_exit False)]"

fun test_code :: "nat \<Rightarrow> (bool \<Rightarrow> action list) \<Rightarrow> test_phase \<Rightarrow> action list" where
  "test_code n body Entering = Init_once leader_cell (Ok n) # Arrive leader_cell
     # Elect leader_cell (body True) (body False) # last_election n"
| "test_code n body Joining = Arrive leader_cell # Elect leader_cell (body True) (body False) # last_election n"
| "test_code n body Queued = Elect leader_cell (body True) (body False) # last_election n"
| "test_code n body (Testing as) = as @ last_election n"
| "test_code n body Leaving = [Arrive leader_cell, Elect leader_cell (test_exit True) (test_exit False)]"
| "test_code n body Requeued = [Elect leader_cell (test_exit True) (test_exit False)]"
| "test_code n body Reporting = test_exit True"
| "test_code n body Parked = test_exit False"
| "test_code n body (Reported as) = as"
| "test_code n body (Died as) = as"

fun phase_ok :: "test_phase \<Rightarrow> bool" where
  "phase_ok (Testing as) = list_all harmless as"
| "phase_ok (Reported as) = list_all printing as"
| "phase_ok (Died as) = list_all printing as"
| "phase_ok _ = True"

inductive test_step ::
  "environment \<Rightarrow> nat \<Rightarrow> (bool \<Rightarrow> action list) \<Rightarrow> nat \<Rightarrow> test_phase \<times> sys \<Rightarrow> test_phase \<times> sys \<Rightarrow> bool" for e n body i where
  Stay: "test_step e n body i (ph, s) (ph, s)"
| Enter: "test_step e n body i (Entering, s) (Joining, log_rendezvous leader_cell (Once n) s)"
| Join: "test_step e n body i (Joining, s) (Queued, log_rendezvous leader_cell (Arrived i) s)"
| Pass: "released e (rendezvous s leader_cell) i \<Longrightarrow>
    test_step e n body i (Queued, s) (Testing (body (leads e (rendezvous s leader_cell) i)), s)"
| Test: "silent s s' \<Longrightarrow> list_all harmless as' \<Longrightarrow> test_step e n body i (Testing (a # as), s) (Testing as', s')"
| Die: "silent s s' \<Longrightarrow> list_all printing as' \<Longrightarrow> test_step e n body i (Testing (a # as), s) (Died as', s')"
| Leave: "test_step e n body i (Testing [], s) (Leaving, log_rendezvous leader_cell (Once n) s)"
| Rejoin: "test_step e n body i (Leaving, s) (Requeued, log_rendezvous leader_cell (Arrived i) s)"
| Repass: "released e (rendezvous s leader_cell) i \<Longrightarrow>
    test_step e n body i (Requeued, s) (if leads e (rendezvous s leader_cell) i then Reporting else Parked, s)"
| Report: "list_all printing as' \<Longrightarrow> test_step e n body i (Reporting, s) (Reported as', log_port success s)"
| Speak: "speaks s s' \<Longrightarrow> list_all printing as' \<Longrightarrow> test_step e n body i (Reported as, s) (Reported as', s')"
| Groan: "speaks s s' \<Longrightarrow> list_all printing as' \<Longrightarrow> test_step e n body i (Died as, s) (Died as', s')"

text \<open>The state of the leader's cell that the steps of \<open>call_once\<close> rely on.\<close>

definition cell_ok :: "nat \<Rightarrow> sys \<Rightarrow> bool" where
  "cell_ok n s = (barrier_size (rendezvous s leader_cell) \<in> {None, Some n} \<and> Begun \<notin> set (rendezvous s leader_cell))"

lemma perform_init:
  "cell_ok n s \<Longrightarrow> perform e i (Init_once leader_cell (Ok n)) rest s = (log_rendezvous leader_cell (Once n) s, rest)"
  by (auto simp: cell_ok_def)

lemma perform_test:
  assumes "phase_ok ph" and "cell_ok n s" and "list_all harmless (body True)" and "list_all harmless (body False)"
    and "test_code n body ph = a # rest" and "perform e i a rest s = (s', prog')"
  shows "\<exists>ph'. test_step e n body i (ph, s) (ph', s') \<and> prog' = test_code n body ph' \<and> phase_ok ph'"
proof (cases ph)
  case Entering
  with assms(5,6) perform_init [OF assms(2)] show ?thesis by (auto intro!: exI [of _ Joining] Enter)
next
  case Joining
  with assms(5,6) show ?thesis by (auto intro!: exI [of _ Queued] Join)
next
  case Queued
  let ?lead = "leads e (rendezvous s leader_cell) i"
  show ?thesis
  proof (cases "released e (rendezvous s leader_cell) i")
    case True
    with Queued assms(5,6) have "s' = s" "prog' = body ?lead @ last_election n"
      by (cases ?lead; auto)+
    moreover have "list_all harmless (body ?lead)" using assms(3,4) by (cases ?lead) simp_all
    ultimately show ?thesis using Queued Pass [OF True, of n body]
      by (intro exI [of _ "Testing (body ?lead)"]) simp
  next
    case False
    with Queued assms(5,6) show ?thesis by (auto intro!: exI [of _ Queued] Stay)
  qed
next
  case (Testing as)
  show ?thesis
  proof (cases as)
    case Nil
    with Testing assms(5,6) perform_init [OF assms(2)] show ?thesis
      by (auto simp: last_election_def intro!: exI [of _ Leaving] Leave)
  next
    case (Cons b as')
    with Testing assms(1,5) have b: "a = b" "harmless a" "rest = as' @ last_election n" "list_all harmless as'" by auto
    from perform_harmless [OF b(2) assms(6)] consider
        (goes) as'' where "silent s s'" "prog' = as'' @ rest" "list_all harmless as''"
      | (dies) "silent s s'" "list_all printing prog'" by blast
    then show ?thesis
    proof cases
      case goes
      with Testing Cons b show ?thesis by (auto intro!: exI [of _ "Testing (as'' @ as')"] Test)
    next
      case dies
      with Testing Cons show ?thesis by (auto intro!: exI [of _ "Died prog'"] Die)
    qed
  qed
next
  case Leaving
  with assms(5,6) show ?thesis by (auto intro!: exI [of _ Requeued] Rejoin)
next
  case Requeued
  with assms(5,6) Repass [of e s i n body] Stay [of e n body i Requeued s] show ?thesis
    by (cases "released e (rendezvous s leader_cell) i"; cases "leads e (rendezvous s leader_cell) i")
      (auto intro: exI [of _ Requeued] exI [of _ Reporting] exI [of _ Parked])
next
  case Reporting
  with assms(5,6) have "s' = log_port success s" "list_all printing prog'"
    by (auto simp: test_exit_def success_def)
  with Reporting show ?thesis by (auto intro!: exI [of _ "Reported prog'"] Report)
next
  case (Reported as)
  with assms(1,5) perform_printing [OF _ _ assms(6)] show ?thesis
    by (auto intro!: exI [of _ "Reported prog'"] Speak)
next
  case Parked
  with assms(5,6) show ?thesis by (auto simp: test_exit_def intro!: exI [of _ Parked] Stay)
next
  case (Died as)
  with assms(1,5) perform_printing [OF _ _ assms(6)] show ?thesis
    by (auto intro!: exI [of _ "Died prog'"] Groan)
qed

end
