(* ===== verification/Test_Sound.thy ===== *)
theory Test_Sound
  imports Test_Phases
begin

text \<open>
  Correctness of the exit protocol of the test build. \<open>gate_inv\<close> ties the phases of the cores to
  the arrivals at the leader's barrier, which is used twice, and \<open>log_inv\<close> ties them to what
  the exit device has been told.
\<close>

section \<open>The barrier that is used twice\<close>

fun joined :: "test_phase \<Rightarrow> bool" where
  "joined Entering = False"
| "joined Joining = False"
| "joined _ = True"

fun passed :: "test_phase \<Rightarrow> bool" where
  "passed Queued = False"
| "passed ph = joined ph"

fun finished :: "test_phase \<Rightarrow> bool" where
  "finished Reporting = True"
| "finished (Reported as) = True"
| "finished Parked = True"
| "finished _ = False"

fun rejoined :: "test_phase \<Rightarrow> bool" where
  "rejoined Requeued = True"
| "rejoined ph = finished ph"

fun reported :: "test_phase \<Rightarrow> bool" where
  "reported (Reported as) = True"
| "reported _ = False"

fun died :: "test_phase \<Rightarrow> bool" where
  "died (Died as) = True"
| "died _ = False"

text \<open>The cores whose phase has a property.\<close>

definition cores_in :: "(test_phase \<Rightarrow> bool) \<Rightarrow> test_phase list \<Rightarrow> nat set" where
  "cores_in P phs = {i. i < length phs \<and> P (phs ! i)}"

lemma cores_in_iff: "i \<in> cores_in P phs \<longleftrightarrow> i < length phs \<and> P (phs ! i)"
  by (simp add: cores_in_def)

lemma cores_in_below: "cores_in P phs \<subseteq> {..<length phs}"
  by (auto simp: cores_in_def)

lemma cores_in_update:
  "i < length phs \<Longrightarrow> cores_in P (phs[i := ph']) = (if P ph' then insert i (cores_in P phs) else cores_in P phs - {i})"
  by (auto simp: cores_in_def nth_list_update)

lemma cores_in_same: "i < length phs \<Longrightarrow> P ph' = P (phs ! i) \<Longrightarrow> cores_in P (phs[i := ph']) = cores_in P phs"
  by (auto simp: cores_in_update cores_in_iff)

fun started :: "test_phase \<Rightarrow> bool" where
  "started Entering = False"
| "started _ = True"

definition gate_inv :: "nat \<Rightarrow> test_phase list \<Rightarrow> rendezvous_call list \<Rightarrow> bool" where
  "gate_inv n phs h = (length phs = n \<and> Begun \<notin> set h
     \<and> barrier_size h = (if cores_in started phs = {} then None else Some n)
     \<and> distinct (take n (arrivals h)) \<and> set (take n (arrivals h)) = cores_in joined phs
     \<and> distinct (drop n (arrivals h)) \<and> set (drop n (arrivals h)) = cores_in rejoined phs
     \<and> (cores_in passed phs \<noteq> {} \<longrightarrow> n \<le> length (arrivals h))
     \<and> (cores_in finished phs \<noteq> {} \<longrightarrow> 2 * n \<le> length (arrivals h)))"

lemma gate_invD:
  assumes "gate_inv n phs h"
  shows "length phs = n" "Begun \<notin> set h" "barrier_size h = (if cores_in started phs = {} then None else Some n)"
    "distinct (take n (arrivals h))" "set (take n (arrivals h)) = cores_in joined phs"
    "distinct (drop n (arrivals h))" "set (drop n (arrivals h)) = cores_in rejoined phs"
    "cores_in passed phs \<noteq> {} \<Longrightarrow> n \<le> length (arrivals h)" "cores_in finished phs \<noteq> {} \<Longrightarrow> 2 * n \<le> length (arrivals h)"
  using assms unfolding gate_inv_def by blast+

lemma distinct_below: "distinct xs \<Longrightarrow> set xs \<subseteq> {..<n} \<Longrightarrow> length xs \<le> n"
  by (metis card_lessThan card_mono distinct_card finite_lessThan)

lemma distinct_below_full: "distinct xs \<Longrightarrow> set xs \<subseteq> {..<n} \<Longrightarrow> n \<le> length xs \<Longrightarrow> set xs = {..<n}"
  by (intro card_subset_eq) (auto simp: distinct_card dest: distinct_below)

lemma gate_room:
  assumes "gate_inv n phs h" and "i < n" and "\<not> joined (phs ! i)"
  shows "length (arrivals h) < n"
proof (rule ccontr)
  note g = gate_invD [OF assms(1)]
  assume "\<not> length (arrivals h) < n"
  then have "set (take n (arrivals h)) = {..<n}"
    using g(1,4,5) cores_in_below [of joined phs] by (intro distinct_below_full) simp_all
  with g(1,5) assms(2,3) cores_in_iff [of i joined phs] show False by auto
qed

lemma gate_length: "gate_inv n phs h \<Longrightarrow> length (arrivals h) \<le> 2 * n"
  using distinct_below [of "drop n (arrivals h)" n] gate_invD(1,6,7) [of n phs h] cores_in_below [of rejoined phs] by force

lemma gate_all_rejoined:
  assumes "gate_inv n phs h" and "2 * n \<le> length (arrivals h)"
  shows "cores_in rejoined phs = {..<n}"
  using distinct_below_full [of "drop n (arrivals h)" n] gate_invD(1,6,7) [OF assms(1)] cores_in_below [of rejoined phs] assms(2)
  by simp

lemma gate_last:
  assumes "gate_inv n phs h" and "i < n" and "rejoined (phs ! i)"
  shows "\<exists>k. last_index (arrivals h) i = Some (n + k) \<and> k < n"
proof -
  have "i \<in> set (drop n (arrivals h))" using assms gate_invD(1,7) [OF assms(1)] by (simp add: cores_in_iff)
  then obtain k where k: "last_index (drop n (arrivals h)) i = Some k" by (metis last_index_None option.exhaust)
  with last_index_Some [OF k] gate_length [OF assms(1)] last_index_append [of "take n (arrivals h)" "drop n (arrivals h)" i]
  show ?thesis by auto
qed

lemma rejoined_started: "rejoined ph \<Longrightarrow> started ph"
  by (cases ph) simp_all

lemma gate_size:
  assumes "gate_inv n phs h" and "i < n" and "started (phs ! i)"
  shows "barrier_size h = Some n"
proof -
  have "i \<in> cores_in started phs" using assms(2,3) gate_invD(1) [OF assms(1)] by (simp add: cores_in_iff)
  with gate_invD(3) [OF assms(1)] show ?thesis by (metis empty_iff)
qed

lemma gate_released:
  assumes "barrier_contract e" and "gate_inv n phs h" and "i < n" and "rejoined (phs ! i)"
  shows "released e h i = (2 * n \<le> length (arrivals h))"
proof -
  from gate_last [OF assms(2-4)] obtain k where k: "last_index (arrivals h) i = Some (n + k)" "k < n" by blast
  then have "(n + k) div n = 1" by (simp add: div_add_self1)
  with assms(1) k gate_size [OF assms(2,3) rejoined_started [OF assms(4)]] show ?thesis
    by (simp add: barrier_contract_def mult.commute mult_2_right)
qed

text \<open>A step that moves no core through a gate.\<close>

lemma gate_inv_keep:
  assumes "gate_inv n phs h" and "i < n" and "joined ph' = joined (phs ! i)" and "passed ph' = passed (phs ! i)"
    and "finished ph' = finished (phs ! i)" and "rejoined ph' = rejoined (phs ! i)"
    and "started ph' = started (phs ! i)"
  shows "gate_inv n (phs[i := ph']) h"
  using assms gate_invD(1) [OF assms(1)] by (simp add: gate_inv_def cores_in_same)

lemma gate_inv_once:
  assumes "gate_inv n phs h" and "i < n" and "(phs ! i, ph') = (Entering, Joining) \<or> (phs ! i, ph') = (Testing [], Leaving)"
  shows "gate_inv n (phs[i := ph']) (h @ [Once n])"
proof -
  have "joined ph' = joined (phs ! i)" "passed ph' = passed (phs ! i)"
    "finished ph' = finished (phs ! i)" "rejoined ph' = rejoined (phs ! i)" "started ph'"
    using assms(3) by auto
  with gate_invD [OF assms(1)] assms(2) show ?thesis
    by (simp add: gate_inv_def cores_in_same) (simp add: cores_in_update)
qed

lemma gate_inv_join:
  assumes "gate_inv n phs h" and "i < n" and "phs ! i = Joining"
  shows "gate_inv n (phs[i := Queued]) (h @ [Arrived i])"
proof -
  note g = gate_invD [OF assms(1)]
  have room: "length (arrivals h) < n" using gate_room [OF assms(1,2)] assms(3) by simp
  have "i \<notin> cores_in joined phs" using assms(3) by (simp add: cores_in_iff)
  moreover have "cores_in joined (phs[i := Queued]) = insert i (cores_in joined phs)"
    "cores_in started (phs[i := Queued]) = cores_in started phs" "cores_in passed (phs[i := Queued]) = cores_in passed phs"
    "cores_in rejoined (phs[i := Queued]) = cores_in rejoined phs" "cores_in finished (phs[i := Queued]) = cores_in finished phs"
    using g(1) assms(2,3) by (auto simp: cores_in_update cores_in_iff)
  ultimately show ?thesis using g room gate_size [OF assms(1,2)] assms(3) unfolding gate_inv_def by auto
qed

lemma gate_inv_rejoin:
  assumes "gate_inv n phs h" and "i < n" and "phs ! i = Leaving"
  shows "gate_inv n (phs[i := Requeued]) (h @ [Arrived i])"
proof -
  note g = gate_invD [OF assms(1)]
  have "i \<in> cores_in passed phs" "i \<notin> cores_in rejoined phs" using assms g(1) by (simp_all add: cores_in_iff)
  moreover from this(1) g(8) have "n \<le> length (arrivals h)" by blast
  moreover have "cores_in rejoined (phs[i := Requeued]) = insert i (cores_in rejoined phs)"
    "cores_in started (phs[i := Requeued]) = cores_in started phs" "cores_in passed (phs[i := Requeued]) = cores_in passed phs"
    "cores_in joined (phs[i := Requeued]) = cores_in joined phs" "cores_in finished (phs[i := Requeued]) = cores_in finished phs"
    using g(1) assms(2,3) by (auto simp: cores_in_update cores_in_iff)
  moreover have "cores_in finished phs = {} \<or> 2 * n \<le> length (arrivals h)" using g(9) by blast
  ultimately show ?thesis using g(1-7) gate_size [OF assms(1,2)] assms(3) unfolding gate_inv_def by auto
qed

lemma gate_inv_pass:
  assumes "barrier_contract e" and "gate_inv n phs h" and "i < n" and "released e h i"
    and "phs ! i = Queued \<and> ph' = Testing as \<or> phs ! i = Requeued \<and> ph' \<in> {Reporting, Parked}"
  shows "gate_inv n (phs[i := ph']) h"
proof -
  note g = gate_invD [OF assms(2)]
  have "barrier_size h = Some n" using gate_size [OF assms(2,3)] assms(5) by auto
  then have "n \<le> length (arrivals h)" using released_none [OF assms(1)] assms(4) by (meson not_less)
  moreover have "cores_in finished (phs[i := ph']) = {} \<or> 2 * n \<le> length (arrivals h)"
  proof (cases "finished ph'")
    case True
    with gate_released [OF assms(1-3)] assms(4,5) show ?thesis by auto
  next
    case False
    then have "cores_in finished (phs[i := ph']) \<subseteq> cores_in finished phs" using g(1) assms(3) by (simp add: cores_in_update)
    with g(9) show ?thesis by blast
  qed
  moreover have "cores_in started (phs[i := ph']) = cores_in started phs" "cores_in joined (phs[i := ph']) = cores_in joined phs"
    "cores_in rejoined (phs[i := ph']) = cores_in rejoined phs"
    using g(1) assms(3,5) by (auto simp: cores_in_update cores_in_iff)
  ultimately show ?thesis using g by (simp add: gate_inv_def) auto
qed

lemma gate_inv_step:
  assumes "barrier_contract e" and "test_step e n body i (phs ! i, s) (ph', s')" and "i < n"
    and "gate_inv n phs (rendezvous s leader_cell)"
  shows "gate_inv n (phs[i := ph']) (rendezvous s' leader_cell)"
  using assms(2)
proof (cases rule: test_step.cases)
  case (Pass)
  then show ?thesis using gate_inv_pass [OF assms(1,4,3)] by auto
next
  case (Repass)
  then show ?thesis using gate_inv_pass [OF assms(1,4,3)] by auto
next
  case Enter
  then show ?thesis using gate_inv_once [OF assms(4,3)] by simp
next
  case Leave
  then show ?thesis using gate_inv_once [OF assms(4,3)] by simp
next
  case Join
  then show ?thesis using gate_inv_join [OF assms(4,3)] by simp
next
  case Rejoin
  then show ?thesis using gate_inv_rejoin [OF assms(4,3)] by simp
qed (use gate_inv_keep [OF assms(4,3), of ph'] in \<open>auto simp: silent_def speaks_def\<close>)

section \<open>What the exit device is told\<close>

text \<open>\<open>leader\<close> is the choice of the barrier for the second group.\<close>

definition log_inv :: "(nat list \<Rightarrow> nat) \<Rightarrow> nat \<Rightarrow> test_phase list \<Rightarrow> sys \<Rightarrow> bool" where
  "log_inv leader n phs s =
     (let chosen = leader (take (2 * n) (arrivals (rendezvous s leader_cell)))
      in cores_in ((=) Reporting) phs \<subseteq> {chosen} \<and> cores_in reported phs \<subseteq> {chosen}
       \<and> (success \<in> set (port_log s)) = (cores_in reported phs \<noteq> {})
       \<and> count_list (port_log s) success \<le> 1
       \<and> (failure \<in> set (takeWhile (\<lambda>ev. ev \<noteq> success) (port_log s)) \<longrightarrow> cores_in died phs \<noteq> {}))"

lemma log_invD:
  assumes "log_inv leader n phs s"
  shows "cores_in ((=) Reporting) phs \<subseteq> {leader (take (2 * n) (arrivals (rendezvous s leader_cell)))}"
    "cores_in reported phs \<subseteq> {leader (take (2 * n) (arrivals (rendezvous s leader_cell)))}"
    "(success \<in> set (port_log s)) = (cores_in reported phs \<noteq> {})" "count_list (port_log s) success \<le> 1"
    "failure \<in> set (takeWhile (\<lambda>ev. ev \<noteq> success) (port_log s)) \<Longrightarrow> cores_in died phs \<noteq> {}"
  using assms unfolding log_inv_def Let_def by blast+

text \<open>Output that does not report success, by a core that keeps its part in the protocol.\<close>

lemma takeWhile_absent: "x \<notin> set xs \<Longrightarrow> takeWhile (\<lambda>y. y \<noteq> x) xs = xs"
  by (auto simp: takeWhile_eq_all_conv)

lemma takeWhile_speaks:
  "x \<notin> set ys \<Longrightarrow> takeWhile (\<lambda>y. y \<noteq> x) (xs @ ys) = (if x \<in> set xs then takeWhile (\<lambda>y. y \<noteq> x) xs else xs @ ys)"
  by (induction xs) (auto simp: takeWhile_eq_all_conv)

lemma log_inv_speaks:
  assumes "log_inv leader n phs s" and "i < length phs" and "speaks s s'"
    and "(ph' = Reporting) = (phs ! i = Reporting)" and "reported ph' = reported (phs ! i)"
    and "silent s s' \<or> died ph' \<or> reported ph'" and "died (phs ! i) \<Longrightarrow> died ph'"
  shows "log_inv leader n (phs[i := ph']) s'"
proof -
  note l = log_invD [OF assms(1)]
  obtain evs where evs: "port_log s' = port_log s @ evs" "success \<notin> set evs"
    and r: "rendezvous s' leader_cell = rendezvous s leader_cell"
    using assms(3) by (auto simp: speaks_def)
  have same: "cores_in ((=) Reporting) (phs[i := ph']) = cores_in ((=) Reporting) phs" "cores_in reported (phs[i := ph']) = cores_in reported phs"
    using assms(2,4,5) by (auto simp: cores_in_update cores_in_iff)
  have "cores_in died (phs[i := ph']) \<noteq> {}" if "failure \<in> set (takeWhile (\<lambda>ev. ev \<noteq> success) (port_log s'))"
  proof (cases "failure \<in> set (takeWhile (\<lambda>ev. ev \<noteq> success) (port_log s))")
    case True
    then obtain k where "k \<in> cores_in died phs" using l(5) by blast
    with assms(2,7) show ?thesis by (cases "k = i") (auto simp: cores_in_update cores_in_iff)
  next
    case False
    with that evs have f: "success \<notin> set (port_log s)" "failure \<in> set evs"
      by (auto simp: takeWhile_speaks takeWhile_absent split: if_splits)
    have "\<not> silent s s'" using evs(1) f(2) by (auto simp: silent_def)
    moreover have "\<not> reported ph'" using l(3) f(1) assms(2,5) by (auto simp: cores_in_def)
    ultimately show ?thesis using assms(2,6) by (auto simp: cores_in_update)
  qed
  with l evs r same show ?thesis by (auto simp: log_inv_def)
qed

text \<open>The choice of the second group does not change once a core has passed the second gate.\<close>

lemma log_inv_rendezvous:
  assumes "log_inv leader n phs s" and "gate_inv n phs (rendezvous s leader_cell)" and "i < length phs"
    and "\<not> finished ph'" and "\<not> finished (phs ! i)" and "died ph' = died (phs ! i)"
  shows "log_inv leader n (phs[i := ph']) (log_rendezvous leader_cell c s)"
proof -
  note l = log_invD [OF assms(1)]
  let ?h = "rendezvous s leader_cell"
  have p: "P ph' = P (phs ! i)" if "P = (=) Reporting \<or> P = reported \<or> P = died" for P
    using that assms(4-6) by (cases ph'; cases "phs ! i") auto
  have same: "cores_in ((=) Reporting) (phs[i := ph']) = cores_in ((=) Reporting) phs"
    "cores_in reported (phs[i := ph']) = cores_in reported phs" "cores_in died (phs[i := ph']) = cores_in died phs"
    by (rule cores_in_same [OF assms(3)], rule p, simp)+
  have "take (2 * n) (arrivals (?h @ [c])) = take (2 * n) (arrivals ?h)" if "k \<in> cores_in finished phs" for k
    using gate_invD(9) [OF assms(2)] that by auto
  moreover have "cores_in ((=) Reporting) phs \<subseteq> cores_in finished phs" "cores_in reported phs \<subseteq> cores_in finished phs"
    by (auto simp: cores_in_def elim: reported.elims)
  ultimately have "cores_in ((=) Reporting) phs \<subseteq> {leader (take (2 * n) (arrivals (?h @ [c])))}"
    "cores_in reported phs \<subseteq> {leader (take (2 * n) (arrivals (?h @ [c])))}"
    using l(1,2) by (metis subset_eq)+
  with l(3-5) same show ?thesis by (auto simp: log_inv_def)
qed

lemma log_inv_repass:
  assumes leader: "chooses e leader"
    and "barrier_contract e" and "log_inv leader n phs s" and "gate_inv n phs (rendezvous s leader_cell)"
    and "i < n" and "phs ! i = Requeued" and "released e (rendezvous s leader_cell) i"
  shows "log_inv leader n (phs[i := if leads e (rendezvous s leader_cell) i then Reporting else Parked]) s"
proof -
  let ?h = "rendezvous s leader_cell" and ?chosen = "leader (take (2 * n) (arrivals (rendezvous s leader_cell)))"
  note l = log_invD [OF assms(3)]
  have len: "length phs = n" using gate_invD(1) [OF assms(4)] .
  from gate_last [OF assms(4,5)] assms(6) obtain k where k: "last_index (arrivals ?h) i = Some (n + k)" "k < n" by auto
  then have "(n + k) div n = 1" by (simp add: div_add_self1)
  moreover have "2 * n \<le> length (arrivals ?h)" using gate_released [OF assms(2,4,5)] assms(6,7) by simp
  ultimately have "leads e ?h i = (i = ?chosen)"
    using leader gate_size [OF assms(4,5)] assms(6) k by (auto simp: chooses_def up_to_group_def mult_2)
  then show ?thesis using l assms(5,6) len by (auto simp: log_inv_def cores_in_update cores_in_iff)
qed

lemma log_inv_report:
  assumes "log_inv leader n phs s" and "i < length phs" and "phs ! i = Reporting"
  shows "log_inv leader n (phs[i := Reported as]) (log_port success s)"
proof -
  note l = log_invD [OF assms(1)]
  have i: "i \<in> cores_in ((=) Reporting) phs" "i \<notin> cores_in reported phs" using assms(2,3) by (auto simp: cores_in_iff)
  with l(1,2) have none: "cores_in reported phs = {}" by auto
  with l(3) have s: "success \<notin> set (port_log s)" by simp
  then have "takeWhile (\<lambda>ev. ev \<noteq> success) (port_log s) = port_log s" by (rule takeWhile_absent)
  with l(5) have "failure \<in> set (port_log s) \<Longrightarrow> cores_in died phs \<noteq> {}" by simp
  moreover have "takeWhile (\<lambda>ev. ev \<noteq> success) (port_log s @ [success]) = port_log s"
    using s by (simp add: takeWhile_tail takeWhile_absent)
  moreover have "cores_in died (phs[i := Reported as]) = cores_in died phs"
    "cores_in reported (phs[i := Reported as]) = {i}" "cores_in ((=) Reporting) (phs[i := Reported as]) \<subseteq> cores_in ((=) Reporting) phs"
    using assms(2,3) none by (auto simp: cores_in_update cores_in_iff)
  ultimately show ?thesis using l(1) i(1) s by (auto simp: log_inv_def Let_def)
qed

lemma log_inv_step:
  assumes leader: "chooses e leader"
    and "barrier_contract e" and "test_step e n body i (phs ! i, s) (ph', s')" and "i < n"
    and "gate_inv n phs (rendezvous s leader_cell)" and "log_inv leader n phs s"
  shows "log_inv leader n (phs[i := ph']) s'"
proof -
  have i: "i < length phs" using gate_invD(1) [OF assms(5)] assms(4) by simp
  note turn = log_inv_rendezvous [OF assms(6,5) i] and speak = log_inv_speaks [OF assms(6) i]
  show ?thesis using assms(3)
  proof (cases rule: test_step.cases)
    case Repass
    with log_inv_repass [OF leader assms(2,6,5,4)] show ?thesis by simp
  next
    case Report
    with log_inv_report [OF assms(6) i] show ?thesis by simp
  next
    case Pass
    with speak [OF speaks_refl] show ?thesis by (auto simp: silent_refl)
  next
    case Test
    with speak [OF silent_speaks, of s'] show ?thesis by auto
  next
    case Die
    with speak [OF silent_speaks, of s'] show ?thesis by auto
  next
    case Speak
    with speak [of s'] show ?thesis by auto
  next
    case Groan
    with speak [of s'] show ?thesis by auto
  qed (use assms(6) turn in \<open>auto simp: list_update_id\<close>)
qed

section \<open>All reachable states\<close>

definition test_inv ::
  "(nat list \<Rightarrow> nat) \<Rightarrow> nat \<Rightarrow> test_phase list \<Rightarrow> sys \<Rightarrow> bool" where
  "test_inv leader n phs s = (gate_inv n phs (rendezvous s leader_cell) \<and> log_inv leader n phs s \<and> list_all phase_ok phs)"

text \<open>The programs of the cores in their phases.\<close>

definition test_programs :: "nat \<Rightarrow> (nat \<Rightarrow> bool \<Rightarrow> action list) \<Rightarrow> test_phase list \<Rightarrow> action list list" where
  "test_programs n bodies phs = map (\<lambda>i. test_code n (bodies i) (phs ! i)) [0..<n]"

lemma test_programs_update:
  "i < n \<Longrightarrow> length phs = n \<Longrightarrow>
     (test_programs n bodies phs)[i := test_code n (bodies i) ph'] = test_programs n bodies (phs[i := ph'])"
  by (intro nth_equalityI) (auto simp: test_programs_def nth_list_update)

lemma gate_cell_ok: "gate_inv n phs (rendezvous s leader_cell) \<Longrightarrow> cell_ok n s"
  by (auto simp: gate_inv_def cell_ok_def)

lemma test_inv_step:
  assumes leader: "chooses e leader"
    and "barrier_contract e" and harmless: "\<forall>i < n. \<forall>l. list_all harmless (bodies i l)"
    and "test_inv leader n phs s" and "core_step e (test_programs n bodies phs, s) (progs', s')"
  shows "\<exists>phs'. progs' = test_programs n bodies phs' \<and> test_inv leader n phs' s'"
proof -
  have inv: "gate_inv n phs (rendezvous s leader_cell)" "log_inv leader n phs s" "list_all phase_ok phs"
    using assms(4) by (auto simp: test_inv_def)
  have len: "length phs = n" using gate_invD(1) [OF inv(1)] .
  from assms(5) obtain i a rest prog' where i: "i < n" "test_code n (bodies i) (phs ! i) = a # rest"
    "perform e i a rest s = (s', prog')" "progs' = (test_programs n bodies phs)[i := prog']"
    by (cases rule: core_stepE) (auto simp: test_programs_def)
  have "phase_ok (phs ! i)" using inv(3) i(1) len by (simp add: list_all_length)
  from perform_test [OF this gate_cell_ok [OF inv(1)] _ _ i(2,3)] harmless i(1) obtain ph' where
    ph': "test_step e n (bodies i) i (phs ! i, s) (ph', s')" "prog' = test_code n (bodies i) ph'" "phase_ok ph'" by blast
  have "list_all phase_ok (phs[i := ph'])"
    using inv(3) ph'(3) set_update_subset_insert [of phs i ph'] by (auto simp: list_all_iff)
  with gate_inv_step [OF assms(2) ph'(1) i(1) inv(1)] log_inv_step [OF leader assms(2) ph'(1) i(1) inv(1,2)]
  have "test_inv leader n (phs[i := ph']) s'" by (simp add: test_inv_def)
  with i(4) ph'(2) test_programs_update [OF i(1) len] show ?thesis by blast
qed

lemma test_inv_steps:
  assumes "core_steps e (test_programs n bodies phs, s) (progs', s')"
    and "chooses e leader" and "barrier_contract e" and "\<forall>i < n. \<forall>l. list_all harmless (bodies i l)"
    and "test_inv leader n phs s"
  shows "\<exists>phs'. progs' = test_programs n bodies phs' \<and> test_inv leader n phs' s'"
  using assms(1)
proof (induction rule: rtranclp_induct2)
  case refl
  with assms(5) show ?case by blast
next
  case (step progs1 s1 progs2 s2)
  then show ?case using test_inv_step [OF assms(2-4)] by blast
qed

text \<open>A test may use the barriers, the ports and the heap, but not the leader's cell and not the
  exit device; the core count is the same everywhere and correct.\<close>

definition test_machine :: "bool \<Rightarrow> test list \<Rightarrow> cpu list \<Rightarrow> bool" where
  "test_machine checks tests cpus =
     ((\<forall>c \<in> set cpus. num_cores checks c = Ok (of_nat (length cpus))) \<and> length cpus < 2 ^ 16
      \<and> (\<forall>c \<in> set cpus. \<forall>test \<in> set tests. list_all harmless (test c)))"

lemma run_tests_harmless:
  "test_machine checks tests cpus \<Longrightarrow> c \<in> set cpus \<Longrightarrow> list_all harmless (run_tests checks tests c l)"
proof -
  assume "test_machine checks tests cpus" and "c \<in> set cpus"
  then have "\<forall>test \<in> set tests. list_all harmless (test c)" by (simp add: test_machine_def)
  then have "list_all harmless (concat (map (\<lambda>test. test c @ (if l then write_char com1 (of_char CHR ''.'') else [])) tests))"
    by (induction tests) simp_all
  then show ?thesis by (simp add: run_tests_def)
qed

lemma test_start_programs:
  assumes "test_machine checks tests cpus"
  shows "map (test_start checks tests) cpus
    = test_programs (length cpus) (\<lambda>i. run_tests checks tests (cpus ! i)) (replicate (length cpus) Entering)"
proof (rule nth_equalityI)
  fix i assume "i < length (map (test_start checks tests) cpus)"
  then have i: "i < length cpus" by simp
  then have "num_cores checks (cpus ! i) = Ok (of_nat (length cpus))" "unat (of_nat (length cpus) :: u16) = length cpus"
    using assms by (simp_all add: test_machine_def unat_of_nat take_bit_nat_eq_self)
  with i show "map (test_start checks tests) cpus ! i = test_programs (length cpus)
      (\<lambda>i. run_tests checks tests (cpus ! i)) (replicate (length cpus) Entering) ! i"
    by (simp add: test_programs_def test_start_def test_runner_def pick_leader_core_def last_election_def)
qed (simp add: test_programs_def)

lemma test_inv_initial: "test_inv leader n (replicate n Entering) boot_sys"
proof -
  have "cores_in P (replicate n Entering) = {}" if "\<not> P Entering" for P
    using that by (auto simp: cores_in_def)
  then show ?thesis by (simp add: test_inv_def gate_inv_def log_inv_def list_all_length)
qed

lemma test_reached:
  assumes "barrier_contract e" and "chooses e leader" and "test_machine checks tests cpus"
    and "core_steps e (map (test_start checks tests) cpus, boot_sys) (progs, s)"
  shows "\<exists>phs. progs = test_programs (length cpus) (\<lambda>i. run_tests checks tests (cpus ! i)) phs
    \<and> test_inv leader (length cpus) phs s"
proof -
  have "\<forall>i < length cpus. \<forall>l. list_all harmless (run_tests checks tests (cpus ! i) l)"
    using run_tests_harmless [OF assms(3)] by simp
  from test_inv_steps [OF _ assms(2,1) this test_inv_initial] assms(4) test_start_programs [OF assms(3)]
  show ?thesis by metis
qed

lemma count_distinct: "distinct xs \<Longrightarrow> count_list xs x = of_bool (x \<in> set xs)"
  by (induction xs) auto

lemma test_inv_success:
  assumes "test_inv leader n phs s" and "success \<in> set (port_log s)"
  shows "(\<forall>i < n. count_list (arrivals (rendezvous s leader_cell)) i = 2)
    \<and> count_list (port_log s) success = 1
    \<and> failure \<notin> set (takeWhile (\<lambda>ev. ev \<noteq> success) (port_log s))"
proof -
  let ?as = "arrivals (rendezvous s leader_cell)"
  have inv: "gate_inv n phs (rendezvous s leader_cell)" "log_inv leader n phs s"
    using assms(1) by (auto simp: test_inv_def)
  note g = gate_invD [OF inv(1)] and l = log_invD [OF inv(2)]
  have "reported ph \<Longrightarrow> finished ph" "rejoined ph \<Longrightarrow> joined ph" "rejoined ph \<Longrightarrow> \<not> died ph" for ph
    by (cases ph; simp)+
  note flags = this
  have "cores_in finished phs \<noteq> {}"
    using l(3) assms(2) flags(1) by (auto simp: cores_in_def)
  then have re: "cores_in rejoined phs = {..<n}" using g(9) gate_all_rejoined [OF inv(1)] by blast
  moreover have "cores_in rejoined phs \<subseteq> cores_in joined phs"
    using flags(2) by (auto simp: cores_in_def)
  ultimately have jo: "cores_in joined phs = {..<n}" using cores_in_below [of joined phs] g(1) by auto
  have "count_list ?as i = count_list (take n ?as) i + count_list (drop n ?as) i" for i
    by (metis append_take_drop_id count_list_append)
  then have "\<forall>i < n. count_list ?as i = 2"
    using g(4-7) re jo by (simp add: count_distinct)
  moreover have "cores_in died phs = {}"
    using re g(1) flags(3) cores_in_iff [of _ rejoined phs] cores_in_iff [of _ died phs] by blast
  moreover have "count_list (port_log s) success \<noteq> 0" using assms(2) by (simp add: count_list_0_iff)
  ultimately show ?thesis using l(4,5) by (auto simp: le_Suc_eq)
qed

section \<open>Running a schedule\<close>

text \<open>The cores run in the order of a schedule; a core that has nothing to do is skipped.\<close>

fun schedule :: "environment \<Rightarrow> nat list \<Rightarrow> action list list \<times> sys \<Rightarrow> action list list \<times> sys" where
  "schedule e [] st = st"
| "schedule e (i # is) (progs, s) =
     (if i < length progs then
        (case progs ! i of
           [] \<Rightarrow> schedule e is (progs, s)
         | a # rest \<Rightarrow> (case perform e i a rest s of (s', prog') \<Rightarrow> schedule e is (progs[i := prog'], s')))
      else schedule e is (progs, s))"

lemma schedule_steps: "core_steps e st (schedule e is st)"
proof (induction e "is" st rule: schedule.induct)
  case (2 e i "is" progs s)
  show ?case
  proof (cases "i < length progs")
    case True
    show ?thesis
    proof (cases "progs ! i")
      case Nil
      with True 2(1) show ?thesis by simp
    next
      case (Cons a rest)
      obtain s' prog' where p: "perform e i a rest s = (s', prog')" by fastforce
      have "core_steps e (progs[i := prog'], s') (schedule e is (progs[i := prog'], s'))"
        using 2(2) [OF True Cons p [symmetric]] .
      with core_step.Core [OF True Cons p] True Cons p show ?thesis
        by (auto intro: converse_rtranclp_into_rtranclp)
    qed
  next
    case False
    with 2(3) show ?thesis by simp
  qed
qed simp

end
