(* ===== verification/Test_Outcome.thy ===== *)
theory Test_Outcome
  imports Test_Sound Kernel_Phases
begin

text \<open>
  What the test build tells the emulator: success is only reported when every core has finished
  every test, the test of this repository never makes a core panic, and a run that
  reports success exists on every machine whose serial port becomes ready again and again.
\<close>

section \<open>Programs that do not panic\<close>

text \<open>\<open>passes b p\<close>: whatever the other cores do, a core with the program \<open>p\<close>
  whose local variable has the value \<open>b\<close> does not panic and reports no failure before it reports success.\<close>

function passes :: "bool \<Rightarrow> action list \<Rightarrow> bool" where
  "passes b [] = True"
| "passes b (Assign v # as) = passes v as"
| "passes b (Assert v m # as) = (b = v \<and> passes b as)"
| "passes b (Abort m # as) = False"
| "passes b (Init_once cl r # as) = ((case r of Panic m \<Rightarrow> False | _ \<Rightarrow> True) \<and> passes b as)"
| "passes b (Elect cl xs ys # as) = (passes b (xs @ as) \<and> passes b (ys @ as))"
| "passes b (Outb p v # as) = (Out p v = success \<or> Out p v \<noteq> failure \<and> passes b as)"
| "passes b (Write_total p before after # as) = (p \<noteq> 0x501 \<and> passes b as)"
| "passes b (Lock # as) = passes b as"
| "passes b (Unlock # as) = passes b as"
| "passes b (Await_bits p m # as) = passes b as"
| "passes b (Call_once cl n # as) = passes b as"
| "passes b (Arrive cl # as) = passes b as"
| "passes b (Await cl # as) = passes b as"
| "passes b (Add_to_heap x y # as) = passes b as"
| "passes b (Loop # as) = passes b as"
  by pat_completeness auto

termination
  by (relation "measure (\<lambda>(b, as). size_list size as)") auto

text \<open>Straight-line actions that never panic.\<close>

fun safe :: "action \<Rightarrow> bool" where
  "safe (Outb p v) = (p \<noteq> 0x501)"
| "safe (Abort m) = False"
| "safe (Assign v) = False"
| "safe (Assert v m) = False"
| "safe (Elect cl as bs) = False"
| "safe (Init_once cl r) = False"
| "safe (Write_total p before after) = (p \<noteq> 0x501)"
| "safe _ = True"

lemma passes_safe: "list_all safe as \<Longrightarrow> passes b (as @ bs) = passes b bs"
proof (induction as)
  case (Cons a as)
  then show ?case by (cases a) (auto simp: success_def failure_def)
qed simp

lemma safe_serial [simp]:
  "list_all safe (serial_init com1)" "list_all safe (write_char com1 c)" "list_all safe (fmt_write com1 ps)"
proof -
  show "list_all safe (serial_init com1)" "list_all safe (write_char com1 c)"
    by (simp_all add: com1_def new_port_def serial_init_def lock_statement_def write_char_def transmit_loop)
  show "list_all safe (fmt_write com1 ps)"
    by (induction ps)
      (auto simp: fmt_write_def write_str_def lock_statement_def com1_def new_port_def list_all_iff)
qed

lemma fmt_write_safe: "p \<noteq> 0x501 \<Longrightarrow> list_all safe (fmt_write \<lparr>port_number = p\<rparr> ps)"
  by (induction ps) (auto simp: fmt_write_def write_str_def lock_statement_def list_all_iff)

lemma perform_passes:
  assumes "passes (initialized s i) (a # rest)" and "perform e i a rest s = (s', prog')"
  shows "(success \<in> set (port_log s') \<or> passes (initialized s' i) prog')
    \<and> (\<forall>k. k \<noteq> i \<longrightarrow> initialized s' k = initialized s k)
    \<and> (\<exists>evs. port_log s' = port_log s @ evs \<and> failure \<notin> set evs)"
proof (cases a)
  case Lock
  with assms show ?thesis by (cases "grants e (mutex_calls s)") auto
next
  case (Await_bits p m)
  with assms show ?thesis
    by (cases "and (inb e (port_log s) p) m = 0") (auto simp: Let_def failure_def)
next
  case (Await cl)
  with assms show ?thesis by (cases "released e (rendezvous s cl) i") auto
next
  case (Elect cl as bs)
  with assms show ?thesis
    by (cases "released e (rendezvous s cl) i"; cases "leads e (rendezvous s cl) i") auto
next
  case (Init_once cl r)
  with assms show ?thesis
    by (cases "barrier_size (rendezvous s cl)"; cases "Begun \<in> set (rendezvous s cl)"; cases r) auto
next
  case (Outb p v)
  with assms show ?thesis by (auto simp: success_def failure_def)
next
  case (Write_total p before after)
  with assms passes_safe [OF fmt_write_safe, of p] show ?thesis by auto
qed (use assms in auto)

definition pass_inv :: "action list list \<Rightarrow> sys \<Rightarrow> bool" where
  "pass_inv progs s = (failure \<notin> set (takeWhile (\<lambda>ev. ev \<noteq> success) (port_log s))
     \<and> (success \<in> set (port_log s) \<or> (\<forall>i < length progs. passes (initialized s i) (progs ! i))))"

lemma pass_inv_step:
  assumes "core_step e (progs, s) (progs', s')" and "pass_inv progs s" and "success \<notin> set (port_log s)"
  shows "pass_inv progs' s'"
proof -
  from assms(1) obtain i a rest prog' where i: "i < length progs" "progs ! i = a # rest"
    "perform e i a rest s = (s', prog')" "progs' = progs[i := prog']"
    by (cases rule: core_stepE) auto
  have "passes (initialized s i) (a # rest)" using assms(2,3) i(1,2) by (auto simp: pass_inv_def)
  note step = perform_passes [OF this i(3)]
  from step obtain evs where "port_log s' = port_log s @ evs" "failure \<notin> set evs" by blast
  moreover have "failure \<notin> set (port_log s)" using assms(2,3) by (auto simp: pass_inv_def takeWhile_absent)
  ultimately have "failure \<notin> set (takeWhile (\<lambda>ev. ev \<noteq> success) (port_log s'))"
    by (auto dest: set_takeWhileD)
  with step assms(2,3) i(1,4) show ?thesis by (auto simp: pass_inv_def nth_list_update)
qed

lemma core_step_log: "core_step e (progs, s) (progs', s') \<Longrightarrow> \<exists>evs. port_log s' = port_log s @ evs"
proof (elim core_stepE)
  fix i a rest prog'
  assume p: "perform e i a rest s = (s', prog')"
  show ?thesis
    by (cases a) (use p in \<open>auto simp: Let_def split: if_splits option.splits res.splits\<close>)
qed

lemma pass_inv_steps:
  assumes "core_steps e (progs, s) (progs', s')" and "pass_inv progs s"
  shows "pass_inv progs' s'"
  using assms(1)
proof (induction rule: rtranclp_induct2)
  case refl
  with assms(2) show ?case by simp
next
  case (step progs1 s1 progs2 s2)
  show ?case
  proof (cases "success \<in> set (port_log s1)")
    case False
    with step pass_inv_step show ?thesis by blast
  next
    case True
    from core_step_log [OF step(2)] obtain evs where "port_log s2 = port_log s1 @ evs" by blast
    with True step(3) show ?thesis by (auto simp: pass_inv_def takeWhile_append1)
  qed
qed

section \<open>The test of the repository\<close>

text \<open>What a core must answer for the test to pass: its identity and some number of cores.\<close>

definition answers :: "bool \<Rightarrow> cpu \<Rightarrow> bool" where
  "answers checks c = ((\<exists>n. num_cores checks c = Ok n) \<and> initial_local_apic_id c \<noteq> None)"

lemma bootstrap_init_only_passes:
  assumes "answers checks c" and "\<And>b. passes b bs"
  shows "passes b (bootstrap_init_only checks c @ bs)"
proof -
  obtain n apic where c: "num_cores checks c = Ok n" "initial_local_apic_id c = Some apic"
    using assms(1) by (auto simp: answers_def)
  show ?thesis
    by (simp add: bootstrap_init_only_def kernel_run_def is_bootstrap_core_def c set_quiet_def new_kernel_def
        passes_safe assms(2))
qed

lemma run_tests_passes:
  assumes "answers checks c" and "\<And>b. passes b bs"
  shows "passes b (run_tests checks (kernel_tests checks) c l @ bs)"
  using bootstrap_init_only_passes [OF assms(1)] assms(2)
  by (simp add: run_tests_def kernel_tests_def passes_safe)

lemma test_start_passes:
  assumes "answers checks c"
  shows "passes b (test_start checks (kernel_tests checks) c)"
proof -
  have "\<And>b. passes b (pick_leader_core checks c test_exit)"
    using assms by (auto simp: pick_leader_core_def test_exit_def answers_def success_def)
  with run_tests_passes [OF assms] assms show ?thesis
    by (auto simp: test_start_def test_runner_def pick_leader_core_def answers_def)
qed

lemma bootstrap_init_only_harmless:
  "list_all harmless (bootstrap_init_only checks c)"
  by (cases "num_cores checks c"; cases "initial_local_apic_id c")
    (auto simp: bootstrap_init_only_def kernel_run_def is_bootstrap_core_def set_quiet_def new_kernel_def
      test_cell_def leader_cell_def)

text \<open>Two cores.\<close>

definition test_environment :: environment where
  "test_environment = sample_environment\<lparr>test_build := True\<rparr>"

definition test_cpus :: "cpu list" where
  "test_cpus = map (\<lambda>apic. \<lparr>extended_topology = Some [(Other_level, 1), (Core_level, 2)],
     initial_local_apic_id = Some apic\<rparr>) [0, 1]"

definition test_run :: "nat \<Rightarrow> action list list \<times> sys" where
  "test_run k = schedule test_environment (concat (replicate k [0, 1]))
     (map (test_start True (kernel_tests True)) test_cpus, boot_sys)"

lemma test_environment_contracts: "barrier_contract test_environment" "leader_contract test_environment"
  using sample_environment_contracts(2) sample_environment_leader
  by (simp_all add: test_environment_def barrier_contract_def leader_contract_def chooses_def)

lemma test_cpus_machine: "test_machine True (kernel_tests True) test_cpus"
  by (simp add: test_machine_def test_cpus_def num_cores_def add_u16_def kernel_tests_def bootstrap_init_only_harmless)

lemma test_run_steps:
  "core_steps test_environment (map (test_start True (kernel_tests True)) test_cpus, boot_sys) (test_run k)"
  by (simp add: test_run_def schedule_steps)

lemma test_run_success: "Out 0x501 0 \<in> set (port_log (snd (test_run 75)))"
  by code_simp

section \<open>Properties\<close>

text \<open>C14. The emulator is told that the tests have passed only when they have: for any list of
  tests that leave the leader's barrier and the exit device alone, once \<open>outb(0x501, 0)\<close> has been
  executed, every core has come back from all of the tests (it has entered the
  barrier of \<open>pick_leader_core\<close> a second time), success has been reported once, by one core, and
  no core has reported a failure before.\<close>

theorem test_exit_safe:
  assumes "barrier_contract e" and "leader_contract e" and "test_machine checks tests cpus"
    and "core_steps e (map (test_start checks tests) cpus, boot_sys) (progs, s)"
    and "Out 0x501 0 \<in> set (port_log s)"
  shows "(\<forall>i < length cpus. count_list (arrivals (rendezvous s leader_cell)) i = 2)
    \<and> count_list (port_log s) (Out 0x501 0) = 1
    \<and> Out 0x501 1 \<notin> set (takeWhile (\<lambda>ev. ev \<noteq> Out 0x501 0) (port_log s))"
proof -
  obtain leader where "chooses e leader" using assms(2) by (auto simp: leader_contract_def)
  from test_reached [OF assms(1) this assms(3,4)] obtain phs where "test_inv leader (length cpus) phs s" by blast
  from test_inv_success [OF this] assms(5) show ?thesis by (simp add: success_def failure_def)
qed

theorem test_exit_safe_witness:
  "count_list (arrivals (rendezvous (snd (test_run 75)) leader_cell)) 1 = 2"
  using test_exit_safe [OF test_environment_contracts test_cpus_machine, of "fst (test_run 75)" "snd (test_run 75)"]
    test_run_steps [of 75] test_run_success by (simp add: test_cpus_def)

text \<open>C15. The test of the kernel passes: on cores that know their identity, whatever the
  order in which they run, no core reports a failure before success is reported. In
  particular the closure handed to \<open>Kernel::run\<close> has been run on the bootstrap core and on no other
  when the assertions look.\<close>

theorem kernel_tests_pass:
  assumes "\<forall>c \<in> set cpus. answers checks c"
    and "core_steps e (map (test_start checks (kernel_tests checks)) cpus, boot_sys) (progs, s)"
  shows "Out 0x501 1 \<notin> set (takeWhile (\<lambda>ev. ev \<noteq> Out 0x501 0) (port_log s))"
proof -
  have "pass_inv (map (test_start checks (kernel_tests checks)) cpus) boot_sys"
    using test_start_passes assms(1) by (auto simp: pass_inv_def)
  from pass_inv_steps [OF assms(2) this] show ?thesis by (simp add: pass_inv_def success_def failure_def)
qed

theorem kernel_tests_pass_witness:
  "Out 0x501 1 \<notin> set (takeWhile (\<lambda>ev. ev \<noteq> Out 0x501 0) (port_log (snd (test_run 75))))
     \<and> Out 0x501 0 \<in> set (port_log (snd (test_run 75)))"
proof -
  have "\<forall>c \<in> set test_cpus. answers True c"
    by (simp add: test_cpus_def answers_def num_cores_def add_u16_def)
  from kernel_tests_pass [OF this, of test_environment "fst (test_run 75)" "snd (test_run 75)"]
    test_run_steps [of 75] test_run_success show ?thesis by simp
qed

end
