(* ===== verification/Test_Progress.thy ===== *)
theory Test_Progress
  imports Test_Outcome
begin

text \<open>
  The test build can report success on any number of cores: the cores are run one after the other
  from barrier to barrier. \<open>solo\<close> is the run of one core, \<open>sweep\<close> lifts runs of all
  cores, one after the other, to the interleaved machine.
\<close>

section \<open>Runs of one core\<close>

inductive solo_step :: "environment \<Rightarrow> nat \<Rightarrow> action list \<times> sys \<Rightarrow> action list \<times> sys \<Rightarrow> bool" for e i where
  Act: "perform e i a rest s = (s', prog') \<Longrightarrow> solo_step e i (a # rest, s) (prog', s')"

abbreviation solo :: "environment \<Rightarrow> nat \<Rightarrow> action list \<times> sys \<Rightarrow> action list \<times> sys \<Rightarrow> bool" where
  "solo e i \<equiv> (solo_step e i)\<^sup>*\<^sup>*"

lemma solo_act: "perform e i a rest s = (s1, prog1) \<Longrightarrow> solo e i (prog1, s1) st \<Longrightarrow> solo e i (a # rest, s) st"
  by (auto intro: converse_rtranclp_into_rtranclp Act)

lemma solo_core_steps:
  assumes "solo e i (p, s) (p', s')" and "i < length progs" and "progs ! i = p"
  shows "core_steps e (progs, s) (progs[i := p'], s')"
  using assms
proof (induction arbitrary: progs rule: converse_rtranclp_induct2)
  case refl
  then show ?case by (metis list_update_id rtranclp.rtrancl_refl)
next
  case (step p s p1 s1)
  from step(1) obtain a rest where a: "p = a # rest" "perform e i a rest s = (s1, p1)"
    by (cases rule: solo_step.cases) auto
  from core_step.Core [OF step(4) _ a(2)] step(5) a(1) have "core_step e (progs, s) (progs[i := p1], s1)" by simp
  moreover have "core_steps e (progs[i := p1], s1) ((progs[i := p1])[i := p'], s')" using step(3) [of "progs[i := p1]"] step(4) by simp
  ultimately show ?case by (auto intro: converse_rtranclp_into_rtranclp)
qed

lemma sweep:
  assumes "\<And>i s. i < n \<Longrightarrow> I i s \<Longrightarrow> \<exists>s'. solo e i (P i, s) (Q i, s') \<and> I (Suc i) s'" and "I 0 s"
  shows "\<exists>s'. core_steps e (map P [0..<n], s) (map Q [0..<n], s') \<and> I n s'"
proof -
  have upto: "k \<le> n \<Longrightarrow> \<exists>s'. core_steps e (map P [0..<n], s) (map (\<lambda>i. if i < k then Q i else P i) [0..<n], s') \<and> I k s'" for k
  proof (induction k)
    case 0
    with assms(2) show ?case by auto
  next
    case (Suc k)
    let ?progs = "\<lambda>k. map (\<lambda>i. if i < k then Q i else P i) [0..<n]"
    from Suc obtain s1 where s1: "core_steps e (map P [0..<n], s) (?progs k, s1)" "I k s1" by auto
    from assms(1) [OF _ s1(2)] Suc.prems obtain s2 where s2: "solo e k (P k, s1) (Q k, s2)" "I (Suc k) s2" by auto
    have "core_steps e (?progs k, s1) ((?progs k)[k := Q k], s2)"
      using solo_core_steps [OF s2(1)] Suc.prems by simp
    moreover have "(?progs k)[k := Q k] = ?progs (Suc k)"
      using Suc.prems by (intro nth_equalityI) (auto simp: nth_list_update)
    ultimately show ?case using s1(1) s2(2) by (auto intro: rtranclp_trans)
  qed
  have "map (\<lambda>i. if i < n then Q i else P i) [0..<n] = map Q [0..<n]" by simp
  with upto [OF order_refl] show ?thesis by simp
qed

section \<open>Output\<close>

text \<open>A port that becomes ready again and again.\<close>

definition port_recovers :: "environment \<Rightarrow> bool" where
  "port_recovers e = (\<forall>h. \<exists>k. ready e 0x3fd 0x20 h k)"

text \<open>Output neither moves the barriers nor the variables, and leaves the mutex free.\<close>

definition undisturbed :: "sys \<Rightarrow> sys \<Rightarrow> bool" where
  "undisturbed s s' = (rendezvous s' = rendezvous s \<and> initialized s' = initialized s)"

fun outputs :: "action \<Rightarrow> bool" where
  "outputs Lock = True"
| "outputs Unlock = True"
| "outputs (Outb p v) = True"
| "outputs (Await_bits p m) = (p = 0x3fd \<and> m = 0x20)"
| "outputs _ = False"

lemma solo_await:
  assumes "ready e q m (port_log s) k"
  shows "\<exists>s'. solo e i (Await_bits q m # rest, s) (rest, s') \<and> undisturbed s s' \<and> mutex_calls s' = mutex_calls s"
  using assms
proof (induction k arbitrary: s)
  case 0
  then show ?case
    by (intro exI [of _ "log_port (In q (inb e (port_log s) q)) s"])
      (auto simp: ready_def undisturbed_def Let_def intro: solo_act)
next
  case (Suc k)
  let ?s = "log_port (In q (inb e (port_log s) q)) s"
  show ?case
  proof (cases "and (inb e (port_log s) q) m = 0")
    case True
    from Suc.prems have "ready e q m (port_log ?s) k" by (simp add: ready_Suc)
    from Suc.IH [OF this] obtain s' where "solo e i (Await_bits q m # rest, ?s) (rest, s')"
      "undisturbed ?s s'" "mutex_calls s' = mutex_calls ?s" by blast
    with True show ?thesis by (intro exI [of _ s']) (auto simp: undisturbed_def Let_def intro: solo_act)
  next
    case False
    then show ?thesis
      by (intro exI [of _ ?s]) (auto simp: undisturbed_def Let_def intro: solo_act)
  qed
qed

lemma solo_output:
  assumes "mutual_exclusion e" and "port_recovers e" and "list_all outputs as" and "well_locked h as" and "holds h s"
  shows "\<exists>s'. solo e i (as @ rest, s) (rest, s') \<and> undisturbed s s' \<and> holds False s'"
  using assms(3-5)
proof (induction as arbitrary: h s)
  case Nil
  then show ?case by (auto simp: undisturbed_def)
next
  case (Cons a as)
  have step: ?case if "solo e i (a # as @ rest, s) (as @ rest, s1)" "undisturbed s s1" "well_locked h1 as" "holds h1 s1" for s1 h1
  proof -
    from Cons.IH [OF _ that(3,4)] Cons.prems(1) obtain s' where
      "solo e i (as @ rest, s1) (rest, s')" "undisturbed s1 s'" "holds False s'" by auto
    with that(1,2) show ?thesis by (auto simp: undisturbed_def intro: rtranclp_trans)
  qed
  show ?case
  proof (cases a)
    case Lock
    with Cons.prems assms(1) show ?thesis
      by (intro step [of "log_mutex Locked s" True])
        (auto simp: undisturbed_def holds_def mutual_exclusion_def intro: solo_act)
  next
    case Unlock
    with Cons.prems show ?thesis
      by (intro step [of "log_mutex Unlocked s" False]) (auto simp: undisturbed_def holds_def intro: solo_act)
  next
    case (Outb p v)
    with Cons.prems show ?thesis
      by (intro step [of "log_port (Out p v) s" False]) (auto simp: undisturbed_def holds_def intro: solo_act)
  next
    case (Await_bits q m)
    with Cons.prems assms(2) obtain k where "ready e q m (port_log s) k" by (auto simp: port_recovers_def)
    from solo_await [OF this, of i "as @ rest"] obtain s1 where
      "solo e i (Await_bits q m # as @ rest, s) (as @ rest, s1)" "undisturbed s s1" "mutex_calls s1 = mutex_calls s" by blast
    with Await_bits Cons.prems show ?thesis by (intro step [of s1 False]) (auto simp: holds_def)
  qed (use Cons.prems in auto)
qed

lemma serial_output [simp]:
  "list_all outputs (serial_init com1)" "list_all outputs (write_char com1 c)" "list_all outputs (fmt_write com1 ps)"
  "well_locked False (write_char com1 c)"
proof -
  show "list_all outputs (serial_init com1)" "list_all outputs (write_char com1 c)" "well_locked False (write_char com1 c)"
    by (simp_all add: com1_def new_port_def serial_init_def lock_statement_def write_char_def transmit_loop)
  show "list_all outputs (fmt_write com1 ps)"
    by (induction ps)
      (auto simp: fmt_write_def write_str_def lock_statement_def com1_def new_port_def list_all_iff)
qed

section \<open>From barrier to barrier\<close>

text \<open>A run of the test of the repository up to the barrier of the kernel, and after it.\<close>

definition before_rendezvous :: "bool \<Rightarrow> nat \<Rightarrow> bool \<Rightarrow> action list" where
  "before_rendezvous boot n leader = serial_init com1
     @ (if leader then fmt_write com1 [str ''Running '', decimal 1, str ('' tests'' @ [CHR 0x0A])] else [])
     @ Assign False # Call_once test_cell n # (if boot then serial_init com1 @ [Assign True] else []) @ [Arrive test_cell]"

definition after_rendezvous :: "bool \<Rightarrow> bool \<Rightarrow> action list" where
  "after_rendezvous boot leader =
     Assert boot (if boot then ''assertion failed: initialized'' else ''assertion failed: !initialized'')
     # (if leader then write_char com1 (of_char CHR ''.'') @ write_char com1 (of_char CHR 0x0A) else [])"

definition bootstrap :: "cpu \<Rightarrow> bool" where
  "bootstrap c = (initial_local_apic_id c = Some 0)"

lemma ucast_apic: "(ucast (a :: u8) = (0 :: u32)) = (a = 0)"
  by transfer simp

lemma run_tests_split:
  assumes "num_cores checks c = Ok n" and "initial_local_apic_id c \<noteq> None"
  shows "run_tests checks (kernel_tests checks) c l
    = before_rendezvous (bootstrap c) (unat n) l @ Await test_cell # after_rendezvous (bootstrap c) l"
proof -
  obtain apic where "initial_local_apic_id c = Some apic" using assms(2) by auto
  with assms(1) show ?thesis
    by (simp add: run_tests_def kernel_tests_def bootstrap_init_only_def kernel_run_def is_bootstrap_core_def
        set_quiet_def new_kernel_def before_rendezvous_def after_rendezvous_def bootstrap_def ucast_apic)
qed

lemma last_index_upt: "i < n \<Longrightarrow> last_index [0..<n] i = Some i"
proof -
  assume i: "i < n"
  then obtain k where "last_index [0..<n] i = Some k"
    using last_index_None [of "[0..<n]" i] by (cases "last_index [0..<n] i") auto
  with last_index_Some [OF this] show ?thesis by auto
qed

lemma solo_join:
  assumes "i < n" and "arrivals (rendezvous s leader_cell) = as" and "cell_ok n s"
  shows "\<exists>s'. solo e i (Init_once leader_cell (Ok n) # Arrive leader_cell # rest, s) (rest, s')
    \<and> arrivals (rendezvous s' leader_cell) = as @ [i] \<and> cell_ok n s' \<and> barrier_size (rendezvous s' leader_cell) = Some n
    \<and> rendezvous s' test_cell = rendezvous s test_cell \<and> mutex_calls s' = mutex_calls s \<and> initialized s' = initialized s"
  using assms perform_init [OF assms(3), of e i "Arrive leader_cell # rest"]
  by (intro exI [of _ "log_rendezvous leader_cell (Arrived i) (log_rendezvous leader_cell (Once n) s)"])
    (auto simp: cell_ok_def leader_cell_def test_cell_def intro!: solo_act)

lemma solo_before:
  assumes "mutual_exclusion e" and "port_recovers e" and "holds False s"
    and "barrier_size (rendezvous s test_cell) \<in> {None, Some n}"
  shows "\<exists>s'. solo e i (before_rendezvous b n l @ rest, s) (rest, s') \<and> holds False s'
    \<and> rendezvous s' leader_cell = rendezvous s leader_cell
    \<and> arrivals (rendezvous s' test_cell) = arrivals (rendezvous s test_cell) @ [i]
    \<and> barrier_size (rendezvous s' test_cell) = Some n \<and> initialized s' = (initialized s)(i := b)"
proof -
  let ?fmt = "if l then fmt_write com1 [str ''Running '', decimal 1, str ('' tests'' @ [CHR 0x0A])] else []"
  let ?init = "if b then serial_init com1 else []"
  let ?tail = "(if b then [Assign True] else []) @ Arrive test_cell # rest"
  note run = solo_output [OF assms(1,2)]
  have "list_all outputs (serial_init com1 @ ?fmt)" "well_locked False (serial_init com1 @ ?fmt)"
    by (simp_all add: well_locked_append)
  from run [OF this assms(3)] obtain s1 where s1:
    "solo e i ((serial_init com1 @ ?fmt) @ Assign False # Call_once test_cell n # ?init @ ?tail, s)
       (Assign False # Call_once test_cell n # ?init @ ?tail, s1)" "undisturbed s s1" "holds False s1" by blast
  let ?s2 = "log_rendezvous test_cell (Once n) (set_initialized i False s1)"
  have s2: "solo e i (Assign False # Call_once test_cell n # ?init @ ?tail, s1) (?init @ ?tail, ?s2)"
    by (auto intro!: solo_act)
  have "list_all outputs ?init" "well_locked False ?init" "holds False ?s2" using s1(3) by (simp_all add: holds_def)
  from run [OF this] obtain s3 where s3: "solo e i (?init @ ?tail, ?s2) (?tail, s3)" "undisturbed ?s2 s3" "holds False s3" by blast
  let ?s4 = "log_rendezvous test_cell (Arrived i) (if b then set_initialized i True s3 else s3)"
  have s4: "solo e i (?tail, s3) (rest, ?s4)" by (auto intro!: solo_act)
  have eq: "before_rendezvous b n l @ rest = (serial_init com1 @ ?fmt) @ Assign False # Call_once test_cell n # ?init @ ?tail"
    by (simp add: before_rendezvous_def)
  have "solo e i (before_rendezvous b n l @ rest, s) (rest, ?s4)"
    unfolding eq by (rule rtranclp_trans [OF s1(1) rtranclp_trans [OF s2 rtranclp_trans [OF s3(1) s4]]])
  with s1(2) s3(2,3) assms(4) show ?thesis
    by (intro exI [of _ ?s4]) (auto simp: undisturbed_def holds_def test_cell_def leader_cell_def)
qed

lemma solo_after:
  assumes "mutual_exclusion e" and "port_recovers e" and "holds False s" and "initialized s i = b"
  shows "\<exists>s'. solo e i (after_rendezvous b l @ rest, s) (rest, s') \<and> holds False s' \<and> undisturbed s s'"
proof -
  let ?out = "if l then write_char com1 (of_char CHR ''.'') @ write_char com1 (of_char CHR 0x0A) else []"
  have "list_all outputs ?out" "well_locked False ?out" by (simp_all add: well_locked_append)
  from solo_output [OF assms(1,2) this assms(3)] obtain s' where
    "solo e i (?out @ rest, s) (rest, s')" "undisturbed s s'" "holds False s'" by blast
  with assms(4) show ?thesis
    by (intro exI [of _ s']) (auto simp: after_rendezvous_def intro!: solo_act)
qed

section \<open>All cores\<close>

text \<open>Cores that report the right number of cores and know their identity.\<close>

definition good_cores :: "bool \<Rightarrow> cpu list \<Rightarrow> bool" where
  "good_cores checks cpus = (cpus \<noteq> [] \<and> length cpus < 2 ^ 16
     \<and> (\<forall>c \<in> set cpus. num_cores checks c = Ok (of_nat (length cpus)) \<and> initial_local_apic_id c \<noteq> None))"

lemma good_cores_machine: "good_cores checks cpus \<Longrightarrow> test_machine checks (kernel_tests checks) cpus"
  by (auto simp: good_cores_def test_machine_def kernel_tests_def bootstrap_init_only_harmless)

lemma good_cores_body:
  assumes "good_cores checks cpus" and "i < length cpus"
  shows "run_tests checks (kernel_tests checks) (cpus ! i) l
    = before_rendezvous (bootstrap (cpus ! i)) (length cpus) l @ Await test_cell # after_rendezvous (bootstrap (cpus ! i)) l"
proof -
  have "unat (of_nat (length cpus) :: u16) = length cpus"
    using assms by (simp add: good_cores_def unat_of_nat take_bit_nat_eq_self)
  with run_tests_split [of checks "cpus ! i" "of_nat (length cpus)" l] assms show ?thesis
    by (simp add: good_cores_def)
qed

text \<open>The programs of the cores at the stops, and what holds when \<open>i\<close> cores have reached the next one.\<close>

definition at_kernel_barrier :: "nat \<Rightarrow> bool \<Rightarrow> bool \<Rightarrow> action list" where
  "at_kernel_barrier n boot leader = Await test_cell # after_rendezvous boot leader @ last_election n"

definition meeting :: "nat \<Rightarrow> nat \<Rightarrow> sys \<Rightarrow> bool" where
  "meeting n i s = (holds False s \<and> rendezvous s test_cell = [] \<and> cell_ok n s
     \<and> arrivals (rendezvous s leader_cell) = [0..<i] \<and> (0 < i \<longrightarrow> barrier_size (rendezvous s leader_cell) = Some n))"

definition testing :: "(nat \<Rightarrow> bool) \<Rightarrow> rendezvous_call list \<Rightarrow> nat \<Rightarrow> nat \<Rightarrow> sys \<Rightarrow> bool" where
  "testing boot h n i s = (holds False s \<and> rendezvous s leader_cell = h
     \<and> arrivals (rendezvous s test_cell) = [0..<i] \<and> barrier_size (rendezvous s test_cell) = (if i = 0 then None else Some n)
     \<and> (\<forall>k < i. initialized s k = boot k))"

definition leaving :: "(nat \<Rightarrow> bool) \<Rightarrow> nat \<Rightarrow> nat \<Rightarrow> sys \<Rightarrow> bool" where
  "leaving boot n i s = (holds False s \<and> cell_ok n s
     \<and> arrivals (rendezvous s test_cell) = [0..<n] \<and> barrier_size (rendezvous s test_cell) = Some n
     \<and> (\<forall>k < n. initialized s k = boot k)
     \<and> arrivals (rendezvous s leader_cell) = [0..<n] @ [0..<i] \<and> barrier_size (rendezvous s leader_cell) = Some n)"

lemma sweep_meeting:
  assumes "i < n" and "meeting n i s"
  shows "\<exists>s'. solo e i (test_code n body Entering, s) (test_code n body Queued, s') \<and> meeting n (Suc i) s'"
  using solo_join [OF assms(1), of s "[0..<i]" e "Elect leader_cell (body True) (body False) # last_election n"] assms(2)
  by (auto simp: meeting_def holds_def)

lemma released_meeting:
  assumes "barrier_contract e" and "i < n" and "arrivals h = [0..<n]" and "barrier_size h = Some n"
  shows "released e h i"
  using released_all [OF assms(1,4), of i] assms(2,3) by (simp add: lessThan_atLeast0)

lemma sweep_testing:
  assumes "mutual_exclusion e" and "barrier_contract e" and "port_recovers e"
    and body: "\<And>l. body l = before_rendezvous (boot i) n l @ Await test_cell # after_rendezvous (boot i) l"
    and "arrivals h = [0..<n]" and "barrier_size h = Some n" and "i < n" and "testing boot h n i s"
  shows "\<exists>s'. solo e i (test_code n body Queued, s) (at_kernel_barrier n (boot i) (leads e h i), s') \<and> testing boot h n (Suc i) s'"
proof -
  let ?l = "leads e h i"
  let ?rest = "Await test_cell # after_rendezvous (boot i) ?l @ last_election n"
  have t: "rendezvous s leader_cell = h" "holds False s" "barrier_size (rendezvous s test_cell) \<in> {None, Some n}"
    using assms(8) by (auto simp: testing_def)
  have "perform e i (Elect leader_cell (body True) (body False)) (last_election n) s = (s, before_rendezvous (boot i) n ?l @ ?rest)"
    using released_meeting [OF assms(2,7,5,6)] t(1) body by simp
  then have pass: "solo e i (test_code n body Queued, s) (before_rendezvous (boot i) n ?l @ ?rest, s)"
    by (simp only: test_code.simps) (rule solo_act, assumption, rule rtranclp.rtrancl_refl)
  from solo_before [OF assms(1,3) t(2,3), of i "boot i" ?l ?rest] obtain s' where
    s': "solo e i (before_rendezvous (boot i) n ?l @ ?rest, s) (?rest, s')" "holds False s'"
    "rendezvous s' leader_cell = rendezvous s leader_cell"
    "arrivals (rendezvous s' test_cell) = arrivals (rendezvous s test_cell) @ [i]"
    "barrier_size (rendezvous s' test_cell) = Some n" "initialized s' = (initialized s)(i := boot i)" by blast
  have "solo e i (test_code n body Queued, s) (?rest, s')" by (rule rtranclp_trans [OF pass s'(1)])
  with s'(2-6) assms(8) show ?thesis
    by (intro exI [of _ s']) (auto simp: testing_def at_kernel_barrier_def less_Suc_eq)
qed

lemma sweep_leaving:
  assumes "mutual_exclusion e" and "barrier_contract e" and "port_recovers e" and "i < n" and "leaving boot n i s"
  shows "\<exists>s'. solo e i (at_kernel_barrier n (boot i) l, s) (test_code n body Requeued, s') \<and> leaving boot n (Suc i) s'"
proof -
  let ?last = "[Elect leader_cell (test_exit True) (test_exit False)]"
  have h: "holds False s" "initialized s i = boot i" "arrivals (rendezvous s test_cell) = [0..<n]"
    "barrier_size (rendezvous s test_cell) = Some n" "cell_ok n s" "arrivals (rendezvous s leader_cell) = [0..<n] @ [0..<i]"
    using assms(4,5) by (auto simp: leaving_def)
  have "released e (rendezvous s test_cell) i" using released_meeting [OF assms(2,4) h(3,4)] .
  moreover from solo_after [OF assms(1,3) h(1,2), of l "last_election n"] obtain s1 where
    s1: "solo e i (after_rendezvous (boot i) l @ last_election n, s) (last_election n, s1)" "holds False s1" "undisturbed s s1" by blast
  ultimately have "solo e i (at_kernel_barrier n (boot i) l, s) (last_election n, s1)"
    by (auto simp: at_kernel_barrier_def intro: solo_act)
  moreover from solo_join [OF assms(4), of s1 "[0..<n] @ [0..<i]" e ?last] h(5,6) s1(3) obtain s2 where
    s2: "solo e i (last_election n, s1) (?last, s2)"
    "arrivals (rendezvous s2 leader_cell) = [0..<n] @ [0..<Suc i]" "cell_ok n s2"
    "barrier_size (rendezvous s2 leader_cell) = Some n"
    "rendezvous s2 test_cell = rendezvous s1 test_cell" "mutex_calls s2 = mutex_calls s1" "initialized s2 = initialized s1"
    by (auto simp: last_election_def undisturbed_def cell_ok_def)
  ultimately show ?thesis using s1(2,3) assms(5)
    by (intro exI [of _ s2]) (auto simp: leaving_def undisturbed_def holds_def intro: rtranclp_trans)
qed

lemma report_success:
  assumes "barrier_contract e" and "leader_contract e" and "0 < n" and "leaving boot n n s"
  shows "\<exists>i s'. i < n \<and> solo e i (test_code n body Requeued, s) ([Abort ''internal error: entered unreachable code''], s')
    \<and> success \<in> set (port_log s')"
proof -
  let ?h = "rendezvous s leader_cell"
  obtain leader where leader: "chooses e leader" using assms(2) by (auto simp: leader_contract_def)
  have h: "arrivals ?h = [0..<n] @ [0..<n]" "barrier_size ?h = Some n" using assms(4) by (auto simp: leaving_def)
  have last: "last_index (arrivals ?h) i = Some (n + i)" if "i < n" for i
    using that h(1) by (simp add: last_index_append last_index_upt)
  have div: "(n + i) div n = 1" if "i < n" for i using that by (simp add: div_add_self1)
  have groups: "up_to_group n (n + i) (arrivals ?h) = arrivals ?h" if "i < n" for i
    using that h(1) div [OF that] by (simp add: up_to_group_def)
  let ?i = "leader (arrivals ?h)"
  have "?i \<in> set (drop n (arrivals ?h))"
    using leader h last [OF assms(3)] div [OF assms(3)] groups [OF assms(3)] assms(3)
    unfolding chooses_def by (metis (no_types, lifting) add.right_neutral length_append length_upt minus_nat.diff_0
        mult.right_neutral mult_2_right nat_add_left_cancel_le one_add_one order_refl)
  then have i: "?i < n" using h(1) by simp
  have "released e ?h ?i"
    using assms(1) h last [OF i] div [OF i] by (simp add: barrier_contract_def)
  moreover have "leads e ?h ?i"
    using leader h last [OF i] div [OF i] groups [OF i] assms(3) unfolding chooses_def by force
  ultimately have "solo e ?i (test_code n body Requeued, s)
      ([Abort ''internal error: entered unreachable code''], log_port success s)"
    by (auto simp: test_exit_def success_def intro!: solo_act)
  with i show ?thesis by (intro exI [of _ ?i] exI [of _ "log_port success s"]) simp
qed

text \<open>C16. The test build can succeed: with any number of cores that report that number and know
  their identity, and a serial port that becomes ready again and again, there is a run in
  which \<open>outb(0x501, 0)\<close> is executed.\<close>

theorem kernel_tests_succeed:
  assumes "mutual_exclusion e" and "barrier_contract e" and "leader_contract e" and "port_recovers e"
    and "good_cores checks cpus"
  shows "\<exists>progs s. core_steps e (map (test_start checks (kernel_tests checks)) cpus, boot_sys) (progs, s)
    \<and> Out 0x501 0 \<in> set (port_log s)"
proof -
  define n where "n = length cpus"
  define boot where "boot i = bootstrap (cpus ! i)" for i
  define body where "body i = run_tests checks (kernel_tests checks) (cpus ! i)" for i
  have n: "0 < n" using assms(5) by (simp add: n_def good_cores_def)
  have body: "body i l = before_rendezvous (boot i) n l @ Await test_cell # after_rendezvous (boot i) l" if "i < n" for i l
    using good_cores_body [OF assms(5), of i l] that by (simp add: body_def boot_def n_def)
  have start: "map (test_start checks (kernel_tests checks)) cpus = map (\<lambda>i. test_code n (body i) Entering) [0..<n]"
    using test_start_programs [OF good_cores_machine [OF assms(5)]] by (simp add: test_programs_def body_def n_def)
  have "meeting n 0 boot_sys" by (simp add: meeting_def holds_def cell_ok_def)
  from sweep [where I = "meeting n" and P = "\<lambda>i. test_code n (body i) Entering" and Q = "\<lambda>i. test_code n (body i) Queued",
      OF sweep_meeting this]
  obtain s1 where s1: "core_steps e (map (\<lambda>i. test_code n (body i) Entering) [0..<n], boot_sys)
      (map (\<lambda>i. test_code n (body i) Queued) [0..<n], s1)" "meeting n n s1" by blast
  let ?h = "rendezvous s1 leader_cell"
  have h: "arrivals ?h = [0..<n]" "barrier_size ?h = Some n" "testing boot ?h n 0 s1"
    using s1(2) n by (auto simp: meeting_def testing_def)
  have "\<exists>s2. core_steps e (map (\<lambda>i. test_code n (body i) Queued) [0..<n], s1)
      (map (\<lambda>i. at_kernel_barrier n (boot i) (leads e ?h i)) [0..<n], s2) \<and> testing boot ?h n n s2"
    by (rule sweep [where I = "testing boot ?h n", OF _ h(3)]) (rule sweep_testing [OF assms(1,2,4) body h(1,2)]; assumption)
  then obtain s2 where s2: "core_steps e (map (\<lambda>i. test_code n (body i) Queued) [0..<n], s1)
      (map (\<lambda>i. at_kernel_barrier n (boot i) (leads e ?h i)) [0..<n], s2)" "testing boot ?h n n s2" by blast
  have l0: "leaving boot n 0 s2"
    using s1(2) s2(2) n h(1,2) by (simp add: testing_def leaving_def meeting_def cell_ok_def)
  have "\<exists>s3. core_steps e (map (\<lambda>i. at_kernel_barrier n (boot i) (leads e ?h i)) [0..<n], s2)
      (map (\<lambda>i. test_code n (body i) Requeued) [0..<n], s3) \<and> leaving boot n n s3"
    by (rule sweep [where I = "leaving boot n", OF _ l0]) (use sweep_leaving [OF assms(1,2,4)] in blast)
  then obtain s3 where s3: "core_steps e (map (\<lambda>i. at_kernel_barrier n (boot i) (leads e ?h i)) [0..<n], s2)
      (map (\<lambda>i. test_code n (body i) Requeued) [0..<n], s3)" "leaving boot n n s3" by blast
  from report_success [OF assms(2,3) n s3(2), where body = "body 0"] obtain i s4 where
    s4: "i < n" "solo e i (test_code n (body i) Requeued, s3) ([Abort ''internal error: entered unreachable code''], s4)"
    "success \<in> set (port_log s4)" by auto
  from solo_core_steps [OF s4(2), of "map (\<lambda>i. test_code n (body i) Requeued) [0..<n]"] s4(1)
  obtain progs where "core_steps e (map (\<lambda>i. test_code n (body i) Requeued) [0..<n], s3) (progs, s4)" by auto
  with rtranclp_trans [OF s1(1) rtranclp_trans [OF s2(1) s3(1)]] start s4(3) show ?thesis
    by (metis rtranclp_trans success_def)
qed

theorem kernel_tests_succeed_witness:
  "\<exists>progs s. core_steps test_environment (map (test_start True (kernel_tests True)) test_cpus, boot_sys) (progs, s)
     \<and> Out 0x501 0 \<in> set (port_log s)"
proof -
  have "mutual_exclusion test_environment" "port_recovers test_environment"
    using sample_environment_contracts(1)
    by (simp_all add: test_environment_def mutual_exclusion_def port_recovers_def ready_def sample_environment_def)
  moreover have "good_cores True test_cpus"
    by (simp add: good_cores_def test_cpus_def num_cores_def add_u16_def)
  ultimately show ?thesis using kernel_tests_succeed test_environment_contracts by blast
qed

end
