(* ===== verification/Spec2Isabelle.thy ===== *)
theory Spec2Isabelle
  imports Sample_Modules Kernel_Sound Test_Progress
begin

text \<open>
  ParaOS is a small operating system kernel (\<open>src/paraos\<close>) together with a compiler from
  WebAssembly to x86-64 machine code (\<open>src/parawasm\<close>) and an emulator in which compiled code is
  tested (\<open>src/parawasm_tests\<close>). This development models the three of them and proves what makes them
  correct. It also proves, as theorems about the code as it is, where the code does something else than it
  means to.

  \<^bold>\<open>Conventions.\<close> A Rust call ends with a value, an error or a panic: the type \<open>res\<close> of
  \<open>Para_Prelude\<close>, with \<open>and_then\<close> for the operator \<open>?\<close>. Methods on \<open>&mut self\<close> that can fail are of
  the type \<open>mut_method\<close> of \<open>State_Result\<close>, which keeps the state that an error leaves behind. Machine
  integers are words, or natural numbers with the overflow written out; the argument \<open>checks\<close> says
  whether the build checks for overflow. Loops that may run for ever are
  \<open>partial_function (option)\<close>, where \<open>None\<close> means that the loop does not return. Packages that are not part of the repository
  are records of functions given as parameters: \<open>iced\<close> (the assembler \<open>iced-x86\<close>),
  \<open>wasmparser\<close>, \<open>environment\<close> (\<open>spin\<close>, the ports, the heap), \<open>cpu\<close> (\<open>cpuid\<close>), \<open>unicorn\<close>. What a theorem
  needs of them it states as a hypothesis, and its witness has a concrete instance.

  \<^bold>\<open>The compiler\<close> (\<open>src/parawasm/src/x86_64\<close>).
  \<^item> \<open>Assembler\<close>: instructions, labels and the growing instruction list.
  \<^item> \<open>Optimizer\<close>: \<open>optimizer.rs\<close>, the peephole passes and the labels they move. The passes end and
    compute the reference \<open>normal_form\<close>; labels behind instructions that no rule matches stay where they belong.
  \<^item> \<open>X86_Machine\<close>, \<open>Peephole_Sound\<close>: an x86-64 machine for the instructions used, and that the
    optimised code does the same, except where it drops a pair of opposite moves.
  \<^item> \<open>Wasm_Types\<close>, \<open>Instructions\<close>, \<open>Operator_Sound\<close>: \<open>instructions.rs\<close>, every arm of \<open>handle_instruction\<close>,
    and that the emitted code simulates WebAssembly's operators, \<open>i64.sub\<close> excepted, which comes out reversed.
  \<^item> \<open>Function_Body\<close>, \<open>Function_Layout\<close>, \<open>Function_Sound\<close>, \<open>Function_Entry\<close>, \<open>Call_Sound\<close>: the code section entry of
    \<open>compile\<close> in \<open>mod.rs\<close>: the frame, the parameters, the operators, the results; a compiled
    function with \<open>i64\<close> parameters, no declared locals, no subtraction and one result returns what its WebAssembly
    operators leave; the first instructions of any function, and how those of \<open>i32\<close> parameters write past their slots;
    what a call does to arguments and results.
  \<^item> \<open>Program_Sound\<close>, \<open>Program_Compiled\<close>, \<open>Program_Total\<close>: functions that call each other and imported functions. \<open>wasm_call\<close> is the reference, a big-step
    semantics in which every activation takes its share of a bounded stack; \<open>linked\<close> is the machine
    that runs the code at a label; the compiled functions of a module refine the one by the other. An imported function is
    called through its slot and given by what it returns (\<open>host_at\<close>); a compiled module can be the one that provides it.
    Programs without recursion return, on a stack whose size \<open>room_for\<close> computes.
  \<^item> \<open>BTree_Map\<close>, \<open>Byte_Order\<close>, \<open>Wasm_Module\<close>: compiled modules, look-ups, \<open>link_import\<close>.
  \<^item> \<open>Wasm_Reader\<close>, \<open>Compile\<close>, \<open>Parse_Loop\<close>: the payload loop of \<open>compile\<close>, a handler for
    each section, label binding and encoding; when the loop returns and when it does not.
  \<^item> \<open>Compile_Invariant\<close>, \<open>Index_Space\<close>, \<open>Finish_Sound\<close>, \<open>Import_Slots\<close>, \<open>Module_Contents\<close>: the invariant
    of the compiler's state, the numbering of functions, and from there to the finished module: the
    properties of whole modules at the end of this theory, among them the way of a module from \<open>compile\<close> through
    \<open>link_import\<close> into the emulator's memory. \<open>Sample_Modules\<close> has the modules of the witnesses.
  \<^item> \<open>Dump_Asm\<close>: the listing that \<open>dump_asm\<close> prints.

  \<^bold>\<open>The kernel\<close> (\<open>src/paraos/src\<close>).
  \<^item> \<open>Boot_Info\<close>: \<open>bootboot.rs\<close>, the boot page as bytes and as a structure, and its memory map.
  \<^item> \<open>Core_Actions\<close>, \<open>Serial_Port\<close>, \<open>Core_Steps\<close>: what a core does, action by action; \<open>serial.rs\<close> and
    \<open>panic.rs\<close> as sequences of actions; steps of several cores (\<open>core_step\<close>) on the state they share.
  \<^item> \<open>Serial_Sound\<close>: what is sent, when waiting for the port ends, and that the mutex excludes nobody.
  \<^item> \<open>Kernel_Start\<close>, \<open>Kernel_Phases\<close>, \<open>Kernel_Sound\<close>: \<open>kernel.rs\<close>, \<open>num_cores\<close> of \<open>platform.rs\<close>, \<open>_start\<close> of
    \<open>main.rs\<close>. Any number of cores start together; an abstract machine with four phases for each core is refined
    by the programs, and an invariant gives that nobody passes the barrier before the heap is
    set up, that the output is the same in every interleaving, and that the start can be completed.
  \<^item> \<open>Test_Kernel\<close>, \<open>Test_Phases\<close>, \<open>Test_Sound\<close>, \<open>Test_Outcome\<close>, \<open>Test_Progress\<close>: the test build, \<open>test.rs\<close>,
    \<open>pick_leader_core\<close> and the test of \<open>kernel.rs\<close>. One barrier is used twice, to pick the core that prints and the
    core that reports; the invariant of its arrivals gives that success is reported once and only
    when every core has finished every test. The kernel's test never fails and a successful run exists for any number of cores.

  \<^bold>\<open>The emulator\<close> (\<open>src/parawasm_tests/src/testing.rs\<close>).
  \<^item> \<open>Emulator\<close>: every method. A reference to a module is its position in the emulator's list of modules.
  \<^item> \<open>Emulator_Layout\<close>: the modules stay apart, whatever succeeds or fails.
  \<^item> \<open>Emulator_Sound\<close>, \<open>Emulator_Calls\<close>: the stack helpers, the machine state when a function is
    entered, and the counts of executed instructions.

  \<^bold>\<open>Interfaces.\<close> The locales are \<open>byte_order\<close> (interpreted by the little-endian functions),
  \<open>ordered_map\<close> (the sorted entry lists that stand for \<open>BTreeMap\<close>), \<open>pass_relation\<close> (a property that one pass of
  the optimiser keeps, interpreted three times) and \<open>kept_relation\<close> (what the steps of a method keep; the layout of the
  emulator).

  \<^bold>\<open>Bounds.\<close> The theorems on compiled code need the stack to have room for the operands: heights below
  \<open>2 ^ 59\<close> keep every offset of the frame in 63 bits. \<open>fits\<close> bounds the number of instructions of a module by \<open>2 ^ 63\<close>, where the
  casts between \<open>usize\<close> and \<open>isize\<close> in \<open>update_labels\<close> are exact. Theorems on whole modules and on the emulator are
  about builds with overflow checks. The depth of calls is an index of \<open>wasm_call\<close> and \<open>linked\<close>: the machine returns at the depth at
  which the reference does, whatever it is; a reference that has no room on the stack or recurses for ever returns
  nothing. There is no other fuel.

  \<^bold>\<open>Not modelled.\<close> The encoding of instructions, validation and decoding of WebAssembly, the
  allocator, the synchronisation primitives and the processor emulator are packages and appear as parameters.
  The theorems on programs leave out declared locals, several results and, where they compare with WebAssembly, several
  parameters and subtraction: there the code is shown to do something else. So it is for \<open>i32\<close> parameters.
  32-bit operators are modelled as they are emitted, but have no semantics here, since their \<open>push\<close> and \<open>pop\<close> of
  32-bit registers do not exist in 64-bit mode. The test cases of \<open>src/parawasm_tests\<close>, build scripts and the trait \<open>Compiler\<close>
  (a declaration) are left out.
\<close>

section \<open>Properties of whole modules\<close>

text \<open>C1. A compiled module runs. Whenever \<open>compile\<close> succeeds on a module the parser reads to
  the end, every function body of it, the \<open>j\<close>-th, has the entry point of its WebAssembly
  function index, and there the encoded block holds the code of that body. If the type that the
  compiler looks up for the function has \<open>i64\<close> parameters and one integer result, and the body
  declares no locals and has no \<open>i64.sub\<close>, no calls and no 32-bit operators (\<open>wasm_step\<close> gives
  the latter two no meaning), a run of this code from any machine state returns to the caller with the value of
  the WebAssembly operators in \<open>rax\<close> and stack and frame pointers restored. The operators are started with
  the argument registers in reverse order, the last one first, as locals.\<close>

theorem compiled_module_runs:
  assumes "delivers wp (new_parser wp) module False payloads" and "compile True ic wp module = Some (Ok am)"
    and "fits ic wp payloads" and "j < length (code_bodies payloads)"
  shows "\<exists>ft code l ip. found_type payloads (body_indices 0 payloads ! j) = Some ft
    \<and> emitted_at ic am l code ip
    \<and> function_entry_point (the_module am) (ByIndex (body_indices 0 payloads ! j)) = Some ip
    \<and> (\<forall>n t rd height s v ls env.
        ft_params ft = replicate n I64 \<longrightarrow> ft_returns ft = [t] \<longrightarrow>
        fb_locals (code_bodies payloads ! j) = Inr [] \<longrightarrow> fb_operators (code_bodies payloads ! j) = Inr rd \<longrightarrow>
        I64Sub \<notin> set (operators_of rd) \<longrightarrow> height < 2 ^ 59 \<longrightarrow>
        run_ops wasm_step height (operators_of rd) ([], rev (arguments n s)) = Some ([v], ls) \<longrightarrow>
        returns_value s v (run_function env code s))"
proof -
  from module_body [OF assms] obtain tb ft fv h a a' code l ip where
    ft: "found_type payloads (body_indices 0 payloads ! j) = Some ft"
    and c: "compile_function True ic wp tb ft (code_bodies payloads ! j) fv a = Ok (h, a')"
      "instructions a' = instructions a @ code"
    and at: "emitted_at ic am l (normal_form code) ip"
      "function_entry_point (the_module am) (ByIndex (body_indices 0 payloads ! j)) = Some ip" by blast
  have "returns_value s v (run_function env (normal_form code) s)"
    if "ft_params ft = replicate n I64" "ft_returns ft = [t]"
      "fb_locals (code_bodies payloads ! j) = Inr []" "fb_operators (code_bodies payloads ! j) = Inr rd"
      "I64Sub \<notin> set (operators_of rd)" "height < 2 ^ 59"
      "run_ops wasm_step height (operators_of rd) ([], rev (arguments n s)) = Some ([v], ls)"
    for n t rd height s v ls env
    using leaf_function_returns [OF c(1) that(1-5) that(7,6)] c(2) by auto
  with ft at show ?thesis by blast
qed

theorem compiled_module_runs_witness:
  "\<exists>am code l ip. compile True accepting sample_parser [] = Some (Ok am)
     \<and> emitted_at accepting am l code ip \<and> function_entry_point (the_module am) (ByIndex 0) = Some ip
     \<and> returns_value (set_reg RDI 2 (set_reg RSI 3 sample_state)) 5
         (run_function no_calls code (set_reg RDI 2 (set_reg RSI 3 sample_state)))"
proof -
  from sample_compiles(1) obtain am where am: "compile True accepting sample_parser [] = Some (Ok am)" by blast
  have sp: "code_bodies sample_payloads = [add_function]" "body_indices 0 sample_payloads = [0]"
    "found_type sample_payloads 0 = Some binary_type"
    by (simp_all add: sample_payloads_def found_type_def nth_opt_def)
  have body: "ft_params binary_type = replicate 2 I64" "ft_returns binary_type = [I64]"
    "fb_locals add_function = Inr []"
    "fb_operators add_function = Inr [Inr (LocalGet 0, 0), Inr (LocalGet 1, 2), Inr (I64Add, 4), Inr (End, 5)]"
    by (simp_all add: binary_type_def add_function_def replicate_2)
  let ?s = "set_reg RDI 2 (set_reg RSI 3 sample_state)"
  let ?ops = "operators_of [Inr (LocalGet 0, 0), Inr (LocalGet 1, 2), Inr (I64Add, 4), Inr (End, 5)]"
  have run: "I64Sub \<notin> set ?ops" "run_ops wasm_step 2 ?ops ([], rev (arguments 2 ?s)) = Some ([5], [3, 2])"
    by (simp_all add: operators_of_def arguments_def integer_registers_def machine_simps)
  from compiled_module_runs [OF sample_delivers am sample_compiles(2), of 0] sp obtain code l ip where
    at: "emitted_at accepting am l code ip" "function_entry_point (the_module am) (ByIndex 0) = Some ip"
    and runs: "\<And>n t rd height s v ls env. ft_params binary_type = replicate n I64 \<Longrightarrow> ft_returns binary_type = [t] \<Longrightarrow>
        fb_locals add_function = Inr [] \<Longrightarrow> fb_operators add_function = Inr rd \<Longrightarrow>
        I64Sub \<notin> set (operators_of rd) \<Longrightarrow> height < 2 ^ 59 \<Longrightarrow>
        run_ops wasm_step height (operators_of rd) ([], rev (arguments n s)) = Some ([v], ls) \<Longrightarrow>
        returns_value s v (run_function env code s)" by auto
  from runs [OF body run(1) _ run(2)] at am show ?thesis by auto
qed





text \<open>Entry points and stack heights belong to the right functions. Whenever \<open>compile\<close>
  succeeds on a module the parser reads to the end, looking up the WebAssembly
  index of the \<open>j\<close>-th function body gives the address of the optimised code that was emitted for that
  very body, with the stack height that was computed for it.\<close>

theorem module_entry_points:
  assumes "delivers wp (new_parser wp) module False payloads" and "compile True ic wp module = Some (Ok am)"
    and "fits ic wp payloads" and "j < length (code_bodies payloads)"
  shows "\<exists>tb ft fv h a a' code l ip.
    found_type payloads (body_indices 0 payloads ! j) = Some ft
    \<and> compile_function True ic wp tb ft (code_bodies payloads ! j) fv a = Ok (h, a')
    \<and> instructions a' = instructions a @ code \<and> emitted_at ic am l (normal_form code) ip
    \<and> function_entry_point (the_module am) (ByIndex (body_indices 0 payloads ! j)) = Some ip
    \<and> function_stack_height (the_module am) (ByIndex (body_indices 0 payloads ! j)) = Some h"
  by (rule module_body [OF assms])

theorem module_entry_points_witness:
  "\<exists>am h. compile True accepting sample_parser [] = Some (Ok am)
     \<and> function_stack_height (the_module am) (ByIndex 0) = Some h"
proof -
  from sample_compiles(1) obtain am where am: "compile True accepting sample_parser [] = Some (Ok am)" by blast
  have "code_bodies sample_payloads = [add_function]" "body_indices 0 sample_payloads = [0]"
    by (simp_all add: sample_payloads_def)
  with module_entry_points [OF sample_delivers am sample_compiles(2), of 0] am show ?thesis by auto
qed



text \<open>C9. What holds of the compiler's tables after any payloads, in a build with overflow
  checks: the functions are numbered without gaps, each is either an import or defined
  and has a type entry, the labels are recorded at increasing positions, each behind an
  instruction the optimiser never touches, and no label is recorded twice.\<close>

theorem compile_state_invariant:
  assumes "initial_state ic wp = Ok cs0" and "handle_all True ic wp cs0 payloads = Ok cs"
  shows "dom (bt_get (function_types (c_tables cs))) = {..<c_function_index cs}
    \<and> dom (bt_get (got (c_tables cs))) \<union> dom (bt_get (ils (c_tables cs))) = {..<c_function_index cs}
    \<and> dom (bt_get (got (c_tables cs))) \<inter> dom (bt_get (ils (c_tables cs))) = {}
    \<and> dom (bt_get (m_imports (c_module cs))) = dom (bt_get (ils (c_tables cs)))
    \<and> c_function_body_index cs \<le> c_function_index cs
    \<and> labels_placed (c_label_indices cs) (instructions (c_asm cs))
    \<and> distinct (map snd (c_label_indices cs))
    \<and> length (c_function_bodies cs) = length (code_bodies payloads)"
proof -
  from handle_all_inv [OF assms(2) initial_inv [OF assms(1)]]
  have "compile_inv ic wp cs (code_bodies payloads)" by simp
  then show ?thesis
    by (auto simp: compile_inv_def tables_inv_def counted_def code_inv_def labels_inv_def
        dest: fresh_labelsD(3) list_all2_lengthD)
qed

theorem compile_state_invariant_witness:
  "\<exists>cs0 cs. handle_all True accepting sample_parser cs0 sample_payloads = Ok cs
     \<and> length (c_function_bodies cs) = 1"
proof -
  from sample_handled obtain cs0 cs where cs: "initial_state accepting sample_parser = Ok cs0"
    "handle_all True accepting sample_parser cs0 sample_payloads = Ok cs" by blast
  have "code_bodies sample_payloads = [add_function]" by (simp add: sample_payloads_def)
  with compile_state_invariant [OF cs] cs(2) show ?thesis by auto
qed

section \<open>Types\<close>


definition second_type_payloads :: "payload list" where
  "second_type_payloads = [P_TypeSection [Inr (TypeDef_Func \<lparr>ft_params = [], ft_returns = []\<rparr>), Inr (TypeDef_Func binary_type)],
     P_FunctionSection [Inr 1]]"

lemma second_type_handled:
  "\<exists>cs0 cs. initial_state accepting permissive = Ok cs0
     \<and> handle_all True accepting permissive cs0 second_type_payloads = Ok cs
     \<and> c_function_body_index cs = 0"
  by (simp add: initial_state_def new_asm_def second_type_payloads_def validate_def on_type_def on_function_def
      create_label_def add_instruction_def arith_simps Let_def)


section \<open>Imports, exports, memories\<close>

text \<open>C10. An import can be linked after compiling. The offset that \<open>compile\<close> noted for an
  imported function, before the rest of the module was compiled, optimised and bound, is
  where the finished module has its placeholder, right behind the label through which
  calls load the address; and linking the first import of a name makes exactly that
  quadword read as the given address.\<close>

theorem compiled_import_links:
  assumes "delivers wp (new_parser wp) module False payloads" and "compile True ic wp module = Some (Ok am)"
    and "fits ic wp payloads" and "imports_first payloads" and "places_data ic"
    and "bt_get (m_imports (the_module am)) k = Some (md, Some n, off)"
    and "\<forall>j off'. bt_get (m_imports (the_module am)) j = Some (md, Some n, off') \<longrightarrow> k \<le> j"
  shows "le_decode (take 8 (drop off (binary am))) = import_placeholder
    \<and> (\<exists>l cs0 cs. initial_state ic wp = Ok cs0 \<and> handle_all True ic wp cs0 payloads = Ok cs
         \<and> bt_get (ils (c_tables cs)) k = Some l \<and> slot_block ic am l off)
    \<and> (\<exists>am'. link_import le64 am md (Some n) addr = Ok am' \<and> the_module am' = the_module am
         \<and> le_decode (take 8 (drop off (binary am'))) = addr
         \<and> (\<forall>i < length (binary am). i < off \<or> off + 8 \<le> i \<longrightarrow> binary am' ! i = binary am ! i))"
proof -
  note slot = module_import [OF assms(1-6)]
  have "find_map (import_matches md (Some n)) (m_imports (the_module am)) = Some off"
    using link_lowest [OF _ assms(6,7)] slot by blast
  from le.link_import_patches [OF this, of addr] slot show ?thesis
    by (auto simp: binary_def)
qed

theorem compiled_import_links_witness:
  "\<exists>am am'. compile True data_iced (scripted import_payloads) [] = Some (Ok am)
     \<and> le_decode (take 8 (drop 0 (binary am))) = import_placeholder
     \<and> link_import le64 am ''env'' (Some ''f'') 7 = Ok am' \<and> le_decode (take 8 (drop 0 (binary am'))) = 7"
proof -
  from import_compiles(1) obtain am where am: "compile True data_iced (scripted import_payloads) [] = Some (Ok am)"
    "m_imports (the_module am) = [(0, ''env'', Some ''f'', 0)]" by blast
  from compiled_import_links [OF import_compiles(2) am(1) import_compiles(3,4) data_iced_laws(1), of 0 "''env''" "''f''" 0 7] am
  show ?thesis by auto
qed

text \<open>C11. From the compiler to the emulator. Let a compiled module be the \<open>i\<close>-th of an emulator and link
  the first import of a name in it. Then linking succeeds, and a later successful call of the \<open>j\<close>-th function
  body starts the processor with \<open>r10\<close> at the address, in the emulator's memory, of the code that was emitted and
  optimised for that very body, while the bytes of the module stand at its offset in memory, those of \<open>compile\<close>
  except that the slot of the import reads as the linked address.\<close>

theorem linked_module_called:
  assumes "delivers wp (new_parser wp) module False payloads" and "compile True ic wp module = Some (Ok am)"
    and "fits ic wp payloads" and "imports_first payloads" and "places_data ic"
    and "bt_get (m_imports (the_module am)) k = Some (md, Some n, off)"
    and "\<forall>j off'. bt_get (m_imports (the_module am)) j = Some (md, Some n, off') \<longrightarrow> k \<le> j"
    and "j < length (code_bodies payloads)"
    and "uc_laws uc" and "emu_reach ic' uc em" and "i < length (em_modules em)" and "em_module (em_modules em ! i) = am"
    and "call_function True dis uc i (ByIndex (body_indices 0 payloads ! j))
      (snd (link_module le64 i md (Some n) addr em)) = (Ok (), em')"
  shows "fst (link_module le64 i md (Some n) addr em) = Ok ()
    \<and> (\<exists>u executed u' bytes tb ft fv h a a' code l ip.
         emu_start uc 0 (trampoline_len em) u = (executed, Inr (), u')
         \<and> compile_function True ic wp tb ft (code_bodies payloads ! j) fv a = Ok (h, a')
         \<and> instructions a' = instructions a @ code \<and> emitted_at ic am l (normal_form code) ip
         \<and> register_of uc u UC_R10 = Inr (em_offset (em_modules em ! i) + of_nat ip)
         \<and> memory_of uc u (em_offset (em_modules em ! i)) (length bytes) = Inr bytes
         \<and> length bytes = length (binary am) \<and> le_decode (take 8 (drop off bytes)) = addr
         \<and> (\<forall>p < length bytes. p < off \<or> off + 8 \<le> p \<longrightarrow> bytes ! p = binary am ! p))"
proof -
  note slot = module_import [OF assms(1-6)]
  have "find_map (import_matches md (Some n)) (m_imports (the_module am)) = Some off"
    using link_lowest [OF _ assms(6,7)] slot by blast
  from le.link_import_patches [OF this, of addr] slot obtain am' where
    am': "(link_import le64 am md (Some n) addr :: (emu_error, assembled_module) res) = Ok am'"
    "the_module am' = the_module am" "le_decode (take 8 (drop off (binary am'))) = addr"
    "\<forall>p < length (binary am). p < off \<or> off + 8 \<le> p \<longrightarrow> binary am' ! p = binary am ! p" by (auto simp: binary_def)
  note len = link_import_length [OF am'(1), THEN conjunct1]
  let ?m = "em_modules em ! i" and ?em1 = "snd (link_module le64 i md (Some n) addr em)"
  have link: "link_module le64 i md (Some n) addr em = (Ok (), em\<lparr>em_modules := (em_modules em)[i := ?m\<lparr>em_module := am'\<rparr>]\<rparr>)"
    using am'(1) assms(12) by (simp add: link_module_def seq_def)
  have at_i: "em_modules ?em1 ! i = ?m\<lparr>em_module := am'\<rparr>" "?m\<lparr>em_module := am'\<rparr> \<in> set (em_modules ?em1)"
    "trampoline_len ?em1 = trampoline_len em"
    using assms(11) by (simp_all add: link set_update_memI)
  from call_started [OF assms(9) reach_layout [OF emu_reach.Link [OF assms(10)]] assms(13)] obtain f u executed u' where
    s: "function_entry_point (the_module am) (ByIndex (body_indices 0 payloads ! j)) = Some f"
    "emu_start uc 0 (trampoline_len em) u = (executed, Inr (), u')"
    "register_of uc u UC_R10 = Inr (em_offset ?m + of_nat f)"
    "memory_of uc u (em_offset ?m) (length (binary am')) = Inr (binary am')"
    using at_i am'(2) by fastforce
  from module_body [OF assms(1-3,8)] s(1) obtain tb ft fv h a a' code l where
    "compile_function True ic wp tb ft (code_bodies payloads ! j) fv a = Ok (h, a')"
    "instructions a' = instructions a @ code" "emitted_at ic am l (normal_form code) f" by auto
  moreover have "\<forall>p < length (binary am'). p < off \<or> off + 8 \<le> p \<longrightarrow> binary am' ! p = binary am ! p"
    using am'(4) len by simp
  moreover have "fst (link_module le64 i md (Some n) addr em) = Ok ()" by (simp add: link)
  ultimately show ?thesis using s(2-4) am'(3) len by blast
qed

theorem linked_module_called_witness:
  "\<exists>am em em' u executed u' bytes. compile True data_iced (scripted importer_payloads) [] = Some (Ok am)
     \<and> call_function True no_listing tame_unicorn 0 (ByIndex 1) (snd (link_module le64 0 ''env'' (Some ''f'') 7 em)) = (Ok (), em')
     \<and> emu_start tame_unicorn 0 0 u = (executed, Inr (), u')
     \<and> memory_of tame_unicorn u 0 16 = Inr bytes \<and> le_decode (take 8 bytes) = 7"
proof -
  from importer_compiles(4) obtain am where am: "compile True data_iced (scripted importer_payloads) [] = Some (Ok am)"
    "m_imports (the_module am) = [(0, ''env'', Some ''f'', 0)]" "m_function_bodies (the_module am) = [(1, 16)]" "length (binary am) = 16"
    by blast
  let ?em = "snd (add_module True tame_unicorn am fresh_emulator)"
  note em = importer_called [OF am(2-4)]
  from em(3) obtain em' where em': "call_function True no_listing tame_unicorn 0 (ByIndex 1) (snd (link_module le64 0 ''env'' (Some ''f'') 7 ?em)) = (Ok (), em')"
    by blast
  have b: "code_bodies importer_payloads = [importer_function]" "body_indices 0 importer_payloads = [1]"
    by (simp_all add: importer_payloads_def function_imports_def)
  have len: "trampoline_len ?em = 0"
    by (simp add: add_module_def fresh_emulator_def on_engine_def lift_uc_def u64_add_def seq_def tame_unicorn_def)
  have "\<exists>u executed u' bytes. emu_start tame_unicorn 0 0 u = (executed, Inr (), u')
     \<and> memory_of tame_unicorn u 0 (length bytes) = Inr bytes \<and> length bytes = 16 \<and> le_decode (take 8 bytes) = 7"
    using linked_module_called [OF importer_compiles(1) am(1) importer_compiles(2,3) data_iced_laws(1), of 0 "''env''" "''f''" 0 0
      tame_unicorn accepting ?em 0 no_listing 7 em'] tame_laws em(1,2) em' am(2,4) b len
    by (simp del: split_paired_Ex split_paired_All) metis
  with am(1) em' show ?thesis by metis
qed

text \<open>C27. A compiled module lists the memories of its WebAssembly module in their order, and an
  export name leads to the entry point of the function with the index of its last export,
  even when that export is not a function but a memory, a table or a global with the same index.\<close>

theorem module_memories_and_exports:
  assumes "delivers wp (new_parser wp) module False payloads" and "compile True ic wp module = Some (Ok am)"
    and "fits ic wp payloads"
  shows "memory_types (the_module am) = declared_memories payloads
    \<and> function_entry_point (the_module am) (ByName n)
        = Option.bind (export_index (declared_exports payloads) n) (\<lambda>i. function_entry_point (the_module am) (ByIndex i))"
  using module_contents [OF assms] by (simp add: memory_types_def function_entry_point_name)

theorem module_memories_and_exports_witness:
  "\<exists>am. compile True accepting sample_parser [] = Some (Ok am)
     \<and> memory_types (the_module am) = [] \<and> function_entry_point (the_module am) (ByName ''f'') = None"
proof -
  from sample_compiles(1) obtain am where am: "compile True accepting sample_parser [] = Some (Ok am)" by blast
  from module_memories_and_exports [OF sample_delivers am sample_compiles(2), of "''f''"] am show ?thesis
    by (auto simp: sample_payloads_def export_index_def)
qed

end
